(* ===== verification/Mmo_Prelude.thy ===== *)
theory Mmo_Prelude
  imports Main "HOL-Library.Word" "HOL-Library.AList" "HOL-Library.Multiset"
begin

text \<open>
  Shared vocabulary of the development: the machine integers of the C++ sources, the ways a
  C++ call can fail to return a value, and the model of \<open>std::unordered_map\<close> that every
  stateful component uses, stated as an interface (locale \<open>unordered_map\<close>) and implemented by
  association lists.
\<close>

section \<open>Machine integers\<close>

type_synonym byte = "8 word"
type_synonym u16 = "16 word"
type_synonym u32 = "32 word"
type_synonym u64 = "64 word"
type_synonym s64 = "64 word"

text \<open>\<open>std::numeric_limits<T>::max()\<close> for the types the sources compare sizes with.\<close>

definition UINT32_MAX :: nat where "UINT32_MAX = 2 ^ 32 - 1"
definition INT_MAX :: nat where "INT_MAX = 2 ^ 31 - 1"

lemma unat_u32_less: "unat (w :: u32) < 4294967296"
  using unsigned_less [of w] by simp

lemma unat_u64_less: "unat (w :: u64) < 18446744073709551616"
  using unsigned_less [of w] by simp

lemma sint_small: "unat (x :: u64) < 2 ^ 63 \<Longrightarrow> sint x = int (unat x)"
proof -
  assume "unat x < 2 ^ 63"
  then have "int (unat x) < 2 ^ 63" by (metis of_nat_less_iff of_nat_numeral of_nat_power)
  then have "signed_take_bit 63 (int (unat x)) = int (unat x)"
    by (intro signed_take_bit_int_eq_self) (simp_all del: of_nat_unat)
  then show ?thesis by (simp add: sint_uint)
qed

lemma unat_linear:
  fixes r c n :: u64
  assumes "unat r < R" and "unat c < unat n" and "R * unat n < 2 ^ 63"
  shows "unat (r * n + c) = unat r * unat n + unat c" and "unat r * unat n + unat c < R * unat n"
proof -
  have "Suc (unat r) * unat n \<le> R * unat n"
    using assms(1) by (intro mult_le_mono1) simp
  then show l: "unat r * unat n + unat c < R * unat n"
    using assms(2) by simp
  then show "unat (r * n + c) = unat r * unat n + unat c"
    using assms(3) by (simp add: unat_word_ariths)
qed

section \<open>Failing calls\<close>

text \<open>
  A C++ call that does not return a value either throws, or reaches an operation whose behaviour
  the language leaves undefined. Both are values of the model: \<open>Inl\<close> of a \<open>fault\<close>.
\<close>

datatype exn =
    invalid_argument string
  | length_error string
  | runtime_error string
  | system_error string
  | out_of_range string
  | bad_optional_access

datatype fault = Throw exn | UndefinedBehaviour

type_synonym 'a outcome = "fault + 'a"

definition outcome_bind :: "'a outcome \<Rightarrow> ('a \<Rightarrow> 'b outcome) \<Rightarrow> 'b outcome" where
  "outcome_bind m f = (case m of Inl e \<Rightarrow> Inl e | Inr x \<Rightarrow> f x)"

lemma outcome_bind_simps [simp]:
  "outcome_bind (Inl e) f = Inl e"
  "outcome_bind (Inr x) f = f x"
  by (simp_all add: outcome_bind_def)

lemma outcome_bind_Inr_iff:
  "outcome_bind m f = Inr y \<longleftrightarrow> (\<exists>x. m = Inr x \<and> f x = Inr y)"
  by (cases m) auto

lemma outcome_bind_cong [fundef_cong]:
  "m = m' \<Longrightarrow> (\<And>x. m' = Inr x \<Longrightarrow> f x = f' x) \<Longrightarrow> outcome_bind m f = outcome_bind m' f'"
  by (cases m') auto

text \<open>\<open>v[i]\<close> on a \<open>std::vector\<close>: undefined when the index is out of range.\<close>

definition vec_at :: "'a list \<Rightarrow> u64 \<Rightarrow> 'a outcome" where
  "vec_at v i = (if unat i < length v then Inr (v ! unat i) else Inl UndefinedBehaviour)"

definition vec_modify :: "'a list \<Rightarrow> u64 \<Rightarrow> ('a \<Rightarrow> 'a) \<Rightarrow> 'a list outcome" where
  "vec_modify v i f =
     (if unat i < length v then Inr (v[unat i := f (v ! unat i)]) else Inl UndefinedBehaviour)"

section \<open>Collections of rewrite rules\<close>

named_theorems message_ids \<open>values of the enumerators of \<open>MessageType\<close>\<close>
named_theorems umap_simps \<open>lookup laws of the unordered-map model\<close>
named_theorems game_defs \<open>definitions of the game service's handlers\<close>

section \<open>Unordered maps\<close>

text \<open>
  The contract of \<open>std::unordered_map\<close> that the sources rely on: what \<open>find\<close> returns after
  \<open>m[k] = v\<close>, \<open>emplace\<close> and \<open>erase\<close>, and that \<open>size\<close> and iteration visit every key once.
\<close>

locale unordered_map =
  fixes empty :: "'m"
    and find :: "'m \<Rightarrow> 'k \<Rightarrow> 'v option"
    and put :: "'k \<Rightarrow> 'v \<Rightarrow> 'm \<Rightarrow> 'm"
    and emplace :: "'k \<Rightarrow> 'v \<Rightarrow> 'm \<Rightarrow> 'm"
    and erase :: "'k \<Rightarrow> 'm \<Rightarrow> 'm"
    and entries :: "'m \<Rightarrow> ('k \<times> 'v) list"
    and size :: "'m \<Rightarrow> nat"
    and invar :: "'m \<Rightarrow> bool"
  assumes find_empty: "find empty = Map.empty"
    and find_put: "find (put k v m) = (find m)(k \<mapsto> v)"
    and find_emplace: "find (emplace k v m) = (if find m k = None then (find m)(k \<mapsto> v) else find m)"
    and find_erase: "find (erase k m) = (find m)(k := None)"
    and entries_find: "invar m \<Longrightarrow> map_of (entries m) = find m"
    and entries_distinct: "invar m \<Longrightarrow> distinct (map fst (entries m))"
    and size_entries: "size m = length (entries m)"
    and invar_empty: "invar empty"
    and invar_put: "invar m \<Longrightarrow> invar (put k v m)"
    and invar_emplace: "invar m \<Longrightarrow> invar (emplace k v m)"
    and invar_erase: "invar m \<Longrightarrow> invar (erase k m)"
begin

lemma size_card: "invar m \<Longrightarrow> size m = card (dom (find m))"
  by (metis entries_find entries_distinct size_entries length_map distinct_card list.set_map
      dom_map_of_conv_image_fst)

lemma finite_dom: "invar m \<Longrightarrow> finite (dom (find m))"
  by (metis entries_find finite_dom_map_of)

lemma entries_iff: "invar m \<Longrightarrow> (k, v) \<in> set (entries m) \<longleftrightarrow> find m k = Some v"
  by (metis entries_find entries_distinct map_of_eq_Some_iff)

lemma size_put: "invar m \<Longrightarrow> size (put k v m) = (if find m k = None then Suc (size m) else size m)"
  by (auto simp: size_card invar_put find_put finite_dom insert_absorb domIff card_insert_if)

lemma size_erase: "invar m \<Longrightarrow> size (erase k m) = (if find m k = None then size m else size m - 1)"
  by (auto simp: size_card invar_erase find_erase finite_dom domIff)

end

text \<open>
  Implementation: an association list. Its order stands for the iteration order of the hash
  table, which C++ leaves unspecified; statements about iterations are therefore phrased with
  multisets or sets.
\<close>

type_synonym ('k, 'v) umap = "('k \<times> 'v) list"

definition um_empty :: "('k, 'v) umap" where
  "um_empty = []"

definition um_find :: "('k, 'v) umap \<Rightarrow> 'k \<Rightarrow> 'v option" where
  "um_find m k = map_of m k"

definition um_put :: "'k \<Rightarrow> 'v \<Rightarrow> ('k, 'v) umap \<Rightarrow> ('k, 'v) umap" where
  "um_put k v m = AList.update k v m"

definition um_emplace :: "'k \<Rightarrow> 'v \<Rightarrow> ('k, 'v) umap \<Rightarrow> ('k, 'v) umap" where
  "um_emplace k v m = (if um_find m k = None then um_put k v m else m)"

definition um_erase :: "'k \<Rightarrow> ('k, 'v) umap \<Rightarrow> ('k, 'v) umap" where
  "um_erase k m = AList.delete k m"

definition um_entries :: "('k, 'v) umap \<Rightarrow> ('k \<times> 'v) list" where
  "um_entries m = m"

definition um_size :: "('k, 'v) umap \<Rightarrow> nat" where
  "um_size m = length m"

definition um_invar :: "('k, 'v) umap \<Rightarrow> bool" where
  "um_invar m \<longleftrightarrow> distinct (map fst m)"

abbreviation um_contains :: "('k, 'v) umap \<Rightarrow> 'k \<Rightarrow> bool" where
  "um_contains m k \<equiv> um_find m k \<noteq> None"

lemmas um_defs = um_empty_def um_find_def um_put_def um_emplace_def um_erase_def
  um_entries_def um_size_def um_invar_def

interpretation um: unordered_map um_empty um_find um_put um_emplace um_erase um_entries
    um_size um_invar
proof unfold_locales
  fix k :: 'a and v :: 'b and m :: "('a, 'b) umap"
  show "um_find um_empty = (Map.empty :: 'a \<rightharpoonup> 'b)"
    by (simp add: um_defs fun_eq_iff)
  show put: "um_find (um_put k v m) = (um_find m)(k \<mapsto> v)"
    by (simp add: um_defs fun_eq_iff update_conv')
  show "um_find (um_emplace k v m) = (if um_find m k = None then (um_find m)(k \<mapsto> v) else um_find m)"
    by (simp add: um_emplace_def put)
  show "um_find (um_erase k m) = (um_find m)(k := None)"
    by (simp add: um_defs fun_eq_iff delete_conv')
qed (simp_all add: um_defs fun_eq_iff distinct_update distinct_delete)

lemmas [simp, umap_simps] = um.find_empty um.find_put um.find_emplace um.find_erase

lemmas [simp, intro] = um.invar_empty um.invar_put um.invar_emplace um.invar_erase

section \<open>Sets\<close>

text \<open>Two sets that differ at most in one element.\<close>

lemma set_except_one:
  "A - {p} = B - {p} \<Longrightarrow>
     A = (if p \<in> A - B then insert p B else if p \<in> B - A then B - {p} else B)"
  by auto

section \<open>Step systems\<close>

text \<open>
  The concurrent parts are step relations over a state that all threads share; one step is one
  critical section or one system call. An invariant that holds initially and is kept by every step
  holds in every reachable state.
\<close>

locale step_invariant =
  fixes init :: "'s \<Rightarrow> bool"
    and step :: "'s \<Rightarrow> 's \<Rightarrow> bool"
    and inv :: "'s \<Rightarrow> bool"
  assumes init_inv: "init s \<Longrightarrow> inv s"
    and step_inv: "inv s \<Longrightarrow> step s s' \<Longrightarrow> inv s'"
begin

lemma steps_inv: "step\<^sup>*\<^sup>* s s' \<Longrightarrow> inv s \<Longrightarrow> inv s'"
  by (induction rule: rtranclp_induct) (auto intro: step_inv)

lemma reachable_inv: "init s \<Longrightarrow> step\<^sup>*\<^sup>* s s' \<Longrightarrow> inv s'"
  using steps_inv init_inv by blast

text \<open>
  When every state of a class can leave it only through \<open>goal\<close>, offers a step that changes the
  state, and all such steps lower a measure, every run of the class reaches \<open>goal\<close>.
\<close>

lemma reaches_goal:
  fixes measure_of :: "'s \<Rightarrow> nat"
  assumes "inv s" "cls s"
    and progress: "\<And>s. inv s \<Longrightarrow> cls s \<Longrightarrow> \<not> goal s \<Longrightarrow> \<exists>s'. step s s' \<and> s' \<noteq> s"
    and closed: "\<And>s s'. inv s \<Longrightarrow> cls s \<Longrightarrow> step s s' \<Longrightarrow> cls s'"
    and decreases: "\<And>s s'. inv s \<Longrightarrow> cls s \<Longrightarrow> step s s' \<Longrightarrow> s' \<noteq> s \<Longrightarrow> measure_of s' < measure_of s"
  shows "\<exists>s'. step\<^sup>*\<^sup>* s s' \<and> goal s'"
  using assms(1,2)
proof (induction "measure_of s" arbitrary: s rule: less_induct)
  case less
  show ?case
  proof (cases "goal s")
    case False
    then obtain s' where s': "step s s'" "s' \<noteq> s"
      using progress less.prems by blast
    then obtain t where "step\<^sup>*\<^sup>* s' t" "goal t"
      using less.hyps[OF decreases] less.prems closed step_inv by blast
    with s'(1) show ?thesis by (meson converse_rtranclp_into_rtranclp)
  qed blast
qed

end

section \<open>Decimal and hexadecimal numbers\<close>

text \<open>\<open>std::to_string\<close>, and \<open>std::hex\<close> output with \<open>setfill('0')\<close> and \<open>setw(16)\<close>.\<close>

definition digit_char :: "nat \<Rightarrow> char" where
  "digit_char d = char_of (if d < 10 then 48 + d else 87 + d)"

fun number_string :: "nat \<Rightarrow> nat \<Rightarrow> string" where
  "number_string b n =
     (if b < 2 \<or> n < b then [digit_char n] else number_string b (n div b) @ [digit_char (n mod b)])"

declare number_string.simps [simp del]

definition to_string :: "nat \<Rightarrow> string" where
  "to_string n = number_string 10 n"

definition hex16 :: "u64 \<Rightarrow> string" where
  "hex16 w = (let h = number_string 16 (unat w) in replicate (16 - length h) (digit_char 0) @ h)"

fun string_number :: "nat \<Rightarrow> nat \<Rightarrow> nat list \<Rightarrow> nat" where
  "string_number b n [] = n"
| "string_number b n (d # ds) = string_number b (b * n + d) ds"

definition char_digit :: "char \<Rightarrow> nat" where
  "char_digit c = (let n = of_char c in if n < 58 then n - 48 else n - 87)"

lemma char_digit_inverse: "d < 16 \<Longrightarrow> char_digit (digit_char d) = d"
  by (simp add: char_digit_def digit_char_def)

lemma string_number_append:
  "string_number b n (xs @ [d]) = b * string_number b n xs + d"
  by (induction xs arbitrary: n) auto

lemma string_number_zeros: "string_number b 0 (replicate k 0 @ xs) = string_number b 0 xs"
  by (induction k) auto

lemma number_string_inverse:
  assumes "2 \<le> b" "b \<le> 16"
  shows "string_number b 0 (map char_digit (number_string b n)) = n"
proof (induction n rule: less_induct)
  case (less n)
  show ?case
  proof (cases "n < b")
    case True
    then show ?thesis using assms by (subst number_string.simps) (simp add: char_digit_inverse)
  next
    case False
    then have "n div b < n" using assms by (intro div_less_dividend) auto
    moreover have "char_digit (digit_char (n mod b)) = n mod b"
      using assms by (intro char_digit_inverse) (metis le_trans less_le_trans mod_less_divisor
          zero_less_numeral)
    ultimately show ?thesis using less[of "n div b"] False assms
      by (subst number_string.simps) (simp add: string_number_append)
  qed
qed

lemma number_string_length:
  assumes "2 \<le> b" "n < b ^ Suc k"
  shows "length (number_string b n) \<le> Suc k"
  using assms(2)
proof (induction k arbitrary: n)
  case 0
  then show ?case by (subst number_string.simps) simp
next
  case (Suc k)
  then have "n div b < b ^ Suc k"
    using assms(1) by (simp add: less_mult_imp_div_less mult.commute)
  from Suc.IH[OF this] show ?case by (subst number_string.simps) auto
qed

lemma number_string_digits:
  assumes "2 \<le> b" "b \<le> 16"
  shows "c \<in> set (number_string b n) \<Longrightarrow> \<exists>d < b. c = digit_char d"
proof (induction n rule: less_induct)
  case (less n)
  show ?case
  proof (cases "n < b")
    case True
    then show ?thesis using less.prems by (subst (asm) number_string.simps) auto
  next
    case False
    then have "n div b < n" using assms by (intro div_less_dividend) auto
    moreover have "n mod b < b" using assms by simp
    moreover have "c \<in> set (number_string b (n div b)) \<or> c = digit_char (n mod b)"
      using less.prems False assms by (subst (asm) number_string.simps) auto
    ultimately show ?thesis using less.IH by blast
  qed
qed

lemma number_string_nonempty [simp]: "number_string b n \<noteq> []"
  by (subst number_string.simps) simp

lemma hex16_length [simp]: "length (hex16 w) = 16"
proof -
  have "unat w < 16 ^ Suc 15" using unat_u64_less[of w] by simp
  from number_string_length[OF _ this] show ?thesis by (simp add: hex16_def Let_def)
qed

lemma hex16_inverse: "string_number 16 0 (map char_digit (hex16 w)) = unat w"
  by (simp add: hex16_def Let_def char_digit_inverse string_number_zeros number_string_inverse)

lemma hex16_inject: "hex16 v = hex16 w \<longleftrightarrow> v = w"
  by (metis hex16_inverse word_eq_iff_unsigned)

lemma hex16_digits: "c \<in> set (hex16 w) \<Longrightarrow> \<exists>d < 16. c = digit_char d"
  using number_string_digits[of 16 c "unat w"] by (auto simp: hex16_def Let_def intro: exI[of _ 0])

end
