(* ===== verification/Frame_Codec.thy ===== *)
theory Frame_Codec
  imports Mmo_Prelude
begin

unbundle bit_operations_syntax

text \<open>
  The length-prefixed frame codec of \<open>include/mmo/protocol/frame_codec.h\<close> and
  \<open>src/protocol/frame_codec.cpp\<close>: message identifiers, network byte order, \<open>EncodeFrame\<close> and
  the incremental \<open>FrameDecoder\<close> with its compacting receive buffer. The decoder is refined to
  a parser on the pending byte sequence (\<open>parse_frame\<close>), the parser is shown to be the exact
  inverse of \<open>EncodeFrame\<close>, and decoding is shown not to depend on how the byte stream is cut
  into chunks. Sizes of byte vectors are \<open>nat\<close>: a vector's size stays below \<open>2 ^ 63\<close>, so no
  \<open>size_t\<close> expression of these files wraps.
\<close>

section \<open>Message identifiers\<close>

text \<open>
  \<open>MessageType\<close> is an enumeration with the fixed underlying type \<open>std::uint32_t\<close>, so that every
  32-bit value is a value of the type; the enumerators are the named ones.
\<close>

type_synonym MessageType = u32

definition kLoginRequest :: MessageType where [message_ids]: "kLoginRequest = 1"
definition kChatRequest :: MessageType where [message_ids]: "kChatRequest = 2"
definition kMoveRequest :: MessageType where [message_ids]: "kMoveRequest = 3"
definition kHeartbeat :: MessageType where [message_ids]: "kHeartbeat = 4"
definition kLoginResponse :: MessageType where [message_ids]: "kLoginResponse = 101"
definition kPlayerEnter :: MessageType where [message_ids]: "kPlayerEnter = 102"
definition kPlayerLeave :: MessageType where [message_ids]: "kPlayerLeave = 103"
definition kPlayerMove :: MessageType where [message_ids]: "kPlayerMove = 104"
definition kChatBroadcast :: MessageType where [message_ids]: "kChatBroadcast = 105"
definition kNearbyPlayers :: MessageType where [message_ids]: "kNearbyPlayers = 106"

definition IsKnownMessageId :: "u32 \<Rightarrow> bool" where
  "IsKnownMessageId message_id \<longleftrightarrow>
     message_id \<in> set [kLoginRequest, kChatRequest, kMoveRequest, kHeartbeat, kLoginResponse,
       kPlayerEnter, kPlayerLeave, kPlayerMove, kChatBroadcast, kNearbyPlayers]"

section \<open>Frames and byte order\<close>

definition kFrameHeaderSize :: nat where
  "kFrameHeaderSize = 8"

definition kDefaultMaxPayloadSize :: u32 where
  "kDefaultMaxPayloadSize = 1024 * 1024"

record Frame =
  message_id :: u32
  payload :: "byte list"

definition empty_frame :: Frame where
  "empty_frame = \<lparr>message_id = 0, payload = []\<rparr>"

definition ReadNetworkUint32 :: "byte list \<Rightarrow> u32" where
  "ReadNetworkUint32 data =
     push_bit 24 (ucast (data ! 0)) OR push_bit 16 (ucast (data ! 1)) OR
     push_bit 8 (ucast (data ! 2)) OR ucast (data ! 3)"

definition AppendNetworkUint32 :: "byte list \<Rightarrow> u32 \<Rightarrow> byte list" where
  "AppendNetworkUint32 output value =
     output @ [ucast (drop_bit 24 value AND 0xff), ucast (drop_bit 16 value AND 0xff),
               ucast (drop_bit 8 value AND 0xff), ucast (value AND 0xff)]"

definition EncodeFrame :: "MessageType \<Rightarrow> byte list \<Rightarrow> u32 \<Rightarrow> byte list outcome" where
  "EncodeFrame message_type payload_bytes max_payload_size =
     (if \<not> IsKnownMessageId message_type then Inl (Throw (invalid_argument ''unknown message ID''))
      else if length payload_bytes > unat max_payload_size \<or> length payload_bytes > UINT32_MAX
      then Inl (Throw (length_error ''payload exceeds configured maximum''))
      else
        let encoded = [];
            encoded = AppendNetworkUint32 encoded (of_nat (length payload_bytes));
            encoded = AppendNetworkUint32 encoded message_type
        in Inr (encoded @ payload_bytes))"

section \<open>The incremental decoder\<close>

datatype DecodeStatus =
  kFrameReady | kNeedMoreData | kPayloadTooLarge | kUnknownMessageId | kDecoderFailed

record FrameDecoder =
  dec_max_payload_size :: u32
  dec_buffer :: "byte list"
  dec_read_offset :: nat
  dec_failure_status :: DecodeStatus
  dec_failed :: bool

definition FrameDecoder_new :: "u32 \<Rightarrow> FrameDecoder outcome" where
  "FrameDecoder_new max_payload_size =
     (if max_payload_size = 0
      then Inl (Throw (invalid_argument ''maximum payload size must be positive''))
      else Inr \<lparr>dec_max_payload_size = max_payload_size, dec_buffer = [], dec_read_offset = 0,
                dec_failure_status = kNeedMoreData, dec_failed = False\<rparr>)"

text \<open>
  \<open>Append(const std::uint8_t*, std::size_t)\<close>: the pointer is \<open>None\<close> when null, else the bytes
  it points to; reading past them is undefined.
\<close>

definition FrameDecoder_Append_ptr ::
    "byte list option \<Rightarrow> nat \<Rightarrow> FrameDecoder \<Rightarrow> FrameDecoder outcome" where
  "FrameDecoder_Append_ptr data n d =
     (if n = 0 then Inr d
      else case data of
        None \<Rightarrow> Inl (Throw (invalid_argument ''data must not be null when size is positive''))
      | Some bytes \<Rightarrow>
          if n \<le> length bytes then Inr (d\<lparr>dec_buffer := dec_buffer d @ take n bytes\<rparr>)
          else Inl UndefinedBehaviour)"

definition FrameDecoder_Append :: "byte list \<Rightarrow> FrameDecoder \<Rightarrow> FrameDecoder outcome" where
  "FrameDecoder_Append data d = FrameDecoder_Append_ptr (Some data) (length data) d"

definition FrameDecoder_BufferedBytes :: "FrameDecoder \<Rightarrow> nat" where
  "FrameDecoder_BufferedBytes d = length (dec_buffer d) - dec_read_offset d"

definition FrameDecoder_Failed :: "FrameDecoder \<Rightarrow> bool" where
  "FrameDecoder_Failed d = dec_failed d"

definition FrameDecoder_FailureStatus :: "FrameDecoder \<Rightarrow> DecodeStatus" where
  "FrameDecoder_FailureStatus d = dec_failure_status d"

definition FrameDecoder_Fail :: "DecodeStatus \<Rightarrow> FrameDecoder \<Rightarrow> DecodeStatus \<times> FrameDecoder" where
  "FrameDecoder_Fail status d = (status, d\<lparr>dec_failed := True, dec_failure_status := status\<rparr>)"

definition FrameDecoder_Compact :: "FrameDecoder \<Rightarrow> FrameDecoder" where
  "FrameDecoder_Compact d =
     (if dec_read_offset d = length (dec_buffer d) then d\<lparr>dec_buffer := [], dec_read_offset := 0\<rparr>
      else if dec_read_offset d \<ge> 4096 \<and> dec_read_offset d * 2 \<ge> length (dec_buffer d)
      then d\<lparr>dec_buffer := drop (dec_read_offset d) (dec_buffer d), dec_read_offset := 0\<rparr>
      else d)"

text \<open>\<open>Next\<close> has the caller's \<open>Frame&\<close> as an in-out argument: it is written on success only.\<close>

definition FrameDecoder_Next :: "FrameDecoder \<Rightarrow> Frame \<Rightarrow> DecodeStatus \<times> Frame \<times> FrameDecoder" where
  "FrameDecoder_Next d frame =
     (if dec_failed d then (kDecoderFailed, frame, d)
      else
        let available = FrameDecoder_BufferedBytes d in
        if available < kFrameHeaderSize then (kNeedMoreData, frame, d)
        else
          let header = drop (dec_read_offset d) (dec_buffer d);
              payload_size = ReadNetworkUint32 header;
              message_id = ReadNetworkUint32 (drop 4 header)
          in
          if payload_size > dec_max_payload_size d
          then (let (status, d) = FrameDecoder_Fail kPayloadTooLarge d in (status, frame, d))
          else if \<not> IsKnownMessageId message_id
          then (let (status, d) = FrameDecoder_Fail kUnknownMessageId d in (status, frame, d))
          else
            let frame_size = kFrameHeaderSize + unat payload_size in
            if available < frame_size then (kNeedMoreData, frame, d)
            else
              let frame = frame\<lparr>message_id := message_id,
                    payload := take (unat payload_size)
                      (drop (dec_read_offset d + kFrameHeaderSize) (dec_buffer d))\<rparr>;
                  d = d\<lparr>dec_read_offset := dec_read_offset d + frame_size\<rparr>
              in (kFrameReady, frame, FrameDecoder_Compact d))"

definition FrameDecoder_Reset :: "FrameDecoder \<Rightarrow> FrameDecoder" where
  "FrameDecoder_Reset d =
     d\<lparr>dec_buffer := [], dec_read_offset := 0, dec_failed := False, dec_failure_status := kNeedMoreData\<rparr>"

section \<open>Specification: parsing a byte sequence\<close>

text \<open>
  What one step of decoding means for the pending bytes, without buffer, offset or sticky
  failure: either more bytes are needed, or the stream is rejected for good, or a frame is split
  off the front.
\<close>

datatype parse_result =
    Incomplete
  | Rejected DecodeStatus
  | Parsed Frame "byte list"

definition encode_bytes :: "Frame \<Rightarrow> byte list" where
  "encode_bytes f =
     AppendNetworkUint32 (AppendNetworkUint32 [] (of_nat (length (payload f)))) (message_id f) @ payload f"

definition valid_frame :: "u32 \<Rightarrow> Frame \<Rightarrow> bool" where
  "valid_frame max_size f \<longleftrightarrow> IsKnownMessageId (message_id f) \<and> length (payload f) \<le> unat max_size"

definition parse_frame :: "u32 \<Rightarrow> byte list \<Rightarrow> parse_result" where
  "parse_frame max_size bs =
     (if length bs < 8 then Incomplete
      else if ReadNetworkUint32 bs > max_size then Rejected kPayloadTooLarge
      else if \<not> IsKnownMessageId (ReadNetworkUint32 (drop 4 bs)) then Rejected kUnknownMessageId
      else if length bs < 8 + unat (ReadNetworkUint32 bs) then Incomplete
      else Parsed \<lparr>message_id = ReadNetworkUint32 (drop 4 bs),
                   payload = take (unat (ReadNetworkUint32 bs)) (drop 8 bs)\<rparr>
             (drop (8 + unat (ReadNetworkUint32 bs)) bs))"

definition pending :: "FrameDecoder \<Rightarrow> byte list" where
  "pending d = drop (dec_read_offset d) (dec_buffer d)"

definition decoder_wf :: "FrameDecoder \<Rightarrow> bool" where
  "decoder_wf d \<longleftrightarrow> dec_read_offset d \<le> length (dec_buffer d) \<and> dec_max_payload_size d \<noteq> 0 \<and>
     (if dec_failed d then dec_failure_status d = kPayloadTooLarge \<or> dec_failure_status d = kUnknownMessageId
      else dec_failure_status d = kNeedMoreData)"

definition decoder_compact_inv :: "FrameDecoder \<Rightarrow> bool" where
  "decoder_compact_inv d \<longleftrightarrow>
     dec_read_offset d < 4096 \<or> dec_read_offset d * 2 < length (dec_buffer d)"

section \<open>Byte order\<close>

lemma low_byte_mask: "(0xff :: u32) = mask 8"
  by (simp add: mask_numeral)

lemma ReadNetworkUint32_Append [simp]: "ReadNetworkUint32 (AppendNetworkUint32 [] v @ xs) = v"
proof (rule bit_word_eqI)
  fix n assume "n < LENGTH(32)"
  then have n: "n < 32" by simp
  consider "n < 8" | "8 \<le> n" "n < 16" | "16 \<le> n" "n < 24" | "24 \<le> n" by linarith
  then show "bit (ReadNetworkUint32 (AppendNetworkUint32 [] v @ xs)) n = bit v n"
    using n unfolding ReadNetworkUint32_def AppendNetworkUint32_def low_byte_mask
    by cases (simp_all add: bit_simps, linarith+)
qed

lemma AppendNetworkUint32_Read:
  assumes "length xs \<ge> 4"
  shows "AppendNetworkUint32 [] (ReadNetworkUint32 xs) = take 4 xs"
proof -
  from assms obtain a b c d ys where xs: "xs = a # b # c # d # ys"
    by (auto simp: numeral_eq_Suc Suc_le_length_iff)
  define v where "v = (push_bit 24 (ucast a) OR push_bit 16 (ucast b) OR push_bit 8 (ucast c) OR ucast d :: u32)"
  have "ucast (drop_bit 24 v AND mask 8) = a" "ucast (drop_bit 16 v AND mask 8) = b"
    "ucast (drop_bit 8 v AND mask 8) = c" "ucast (v AND mask 8) = d"
    unfolding v_def by (rule bit_word_eqI; auto simp: bit_simps dest: bit_imp_le_length)+
  then show ?thesis
    by (simp add: xs ReadNetworkUint32_def AppendNetworkUint32_def low_byte_mask v_def numeral_eq_Suc)
qed

lemma ReadNetworkUint32_extend:
  "length xs \<ge> 4 \<Longrightarrow> ReadNetworkUint32 (xs @ ys) = ReadNetworkUint32 xs"
  by (auto simp: ReadNetworkUint32_def nth_append)

lemma length_AppendNetworkUint32 [simp]: "length (AppendNetworkUint32 xs v) = length xs + 4"
  by (simp add: AppendNetworkUint32_def)

lemma AppendNetworkUint32_append: "AppendNetworkUint32 xs v = xs @ AppendNetworkUint32 [] v"
  by (simp add: AppendNetworkUint32_def)

section \<open>The parser inverts the encoder\<close>

lemma encode_bytes_alt:
  "encode_bytes f = AppendNetworkUint32 [] (of_nat (length (payload f))) @
     AppendNetworkUint32 [] (message_id f) @ payload f"
  unfolding encode_bytes_def by (subst AppendNetworkUint32_append) simp

lemma length_encode_bytes [simp]: "length (encode_bytes f) = 8 + length (payload f)"
  by (simp add: encode_bytes_def)

lemma valid_frame_length:
  "valid_frame max_size f \<Longrightarrow> unat (of_nat (length (payload f)) :: u32) = length (payload f)"
  using unat_u32_less [of max_size] by (simp add: valid_frame_def unat_of_nat)

lemma EncodeFrame_eq_Inr_iff:
  "EncodeFrame t p max_size = Inr bs \<longleftrightarrow>
     valid_frame max_size \<lparr>message_id = t, payload = p\<rparr> \<and>
     bs = encode_bytes \<lparr>message_id = t, payload = p\<rparr>"
  using unat_u32_less [of max_size]
  by (auto simp: EncodeFrame_def Let_def UINT32_MAX_def valid_frame_def encode_bytes_def split: if_splits)

lemma header_fields:
  "ReadNetworkUint32 (encode_bytes f @ rest) = of_nat (length (payload f))"
  "ReadNetworkUint32 (drop 4 (encode_bytes f) @ rest) = message_id f"
  by (simp_all add: encode_bytes_alt)

lemma parse_frame_encode:
  assumes "valid_frame max_size f"
  shows "parse_frame max_size (encode_bytes f @ rest) = Parsed f rest"
proof -
  have len: "unat (of_nat (length (payload f)) :: u32) = length (payload f)"
    using assms by (rule valid_frame_length)
  moreover have "\<not> max_size < of_nat (length (payload f))"
    using assms len by (simp add: word_less_nat_alt valid_frame_def)
  moreover have "drop 8 (encode_bytes f @ rest) = payload f @ rest"
    by (simp add: encode_bytes_alt)
  ultimately show ?thesis
    using assms by (simp add: parse_frame_def header_fields valid_frame_def)
qed

lemma parse_frame_decompose:
  assumes "parse_frame max_size bs = Parsed f rest"
  shows "valid_frame max_size f \<and> bs = encode_bytes f @ rest"
proof -
  define n where "n = unat (ReadNetworkUint32 bs)"
  have l: "8 + n \<le> length bs" and m: "\<not> max_size < ReadNetworkUint32 bs"
    and k: "IsKnownMessageId (ReadNetworkUint32 (drop 4 bs))"
    and f: "f = \<lparr>message_id = ReadNetworkUint32 (drop 4 bs), payload = take n (drop 8 bs)\<rparr>"
    and r: "rest = drop (8 + n) bs"
    using assms by (auto simp: parse_frame_def n_def split: if_splits)
  have len: "length (payload f) = n" using l by (simp add: f)
  have "AppendNetworkUint32 [] (of_nat n) = take 4 bs"
    using l by (simp add: n_def AppendNetworkUint32_Read)
  moreover have "AppendNetworkUint32 [] (message_id f) = take 4 (drop 4 bs)"
    using l by (simp add: f AppendNetworkUint32_Read)
  moreover have "payload f = take n (drop 8 bs)" by (simp add: f)
  ultimately have "encode_bytes f @ rest = take 4 bs @ take 4 (drop 4 bs) @ take n (drop 8 bs) @ drop (8 + n) bs"
    unfolding encode_bytes_alt len r by simp
  also have "\<dots> = take (8 + n) bs @ drop (8 + n) bs"
    using take_add [of 4 4 bs] take_add [of 8 n bs] by (simp del: append_take_drop_id)
  also have "\<dots> = bs"
    by (rule append_take_drop_id)
  finally have "bs = encode_bytes f @ rest" ..
  moreover have "valid_frame max_size f"
    unfolding valid_frame_def len using k m by (simp add: f n_def word_less_nat_alt not_less)
  ultimately show ?thesis by blast
qed

lemma parse_frame_Parsed_iff:
  "parse_frame max_size bs = Parsed f rest \<longleftrightarrow> valid_frame max_size f \<and> bs = encode_bytes f @ rest"
  using parse_frame_decompose parse_frame_encode by blast

lemma parse_frame_append:
  "parse_frame max_size xs = Parsed f rest \<Longrightarrow> parse_frame max_size (xs @ ys) = Parsed f (rest @ ys)"
  "parse_frame max_size xs = Rejected s \<Longrightarrow> parse_frame max_size (xs @ ys) = Rejected s"
proof -
  show "parse_frame max_size xs = Parsed f rest \<Longrightarrow> parse_frame max_size (xs @ ys) = Parsed f (rest @ ys)"
    by (simp add: parse_frame_Parsed_iff)
  show "parse_frame max_size xs = Rejected s \<Longrightarrow> parse_frame max_size (xs @ ys) = Rejected s"
    by (auto simp: parse_frame_def ReadNetworkUint32_extend split: if_splits)
qed

lemma parse_frame_Rejected:
  "parse_frame max_size bs = Rejected s \<Longrightarrow> s = kPayloadTooLarge \<or> s = kUnknownMessageId"
  by (auto simp: parse_frame_def split: if_splits)

lemma parse_frame_shrinks: "parse_frame max_size bs = Parsed f rest \<Longrightarrow> length rest < length bs"
  by (auto simp: parse_frame_Parsed_iff)

lemma parse_frame_Incomplete_bound:
  "parse_frame max_size bs = Incomplete \<Longrightarrow> length bs < 8 + unat max_size"
  by (auto simp: parse_frame_def word_less_nat_alt not_less split: if_splits)

section \<open>Parsing a whole stream\<close>

text \<open>
  \<open>parse_stream\<close> splits frames off until no further frame is complete or the stream is rejected;
  its result names the frames, why it stopped, and the bytes that are left.
\<close>

function parse_stream :: "u32 \<Rightarrow> byte list \<Rightarrow> Frame list \<times> DecodeStatus \<times> byte list" where
  "parse_stream max_size bs =
     (case parse_frame max_size bs of
        Incomplete \<Rightarrow> ([], kNeedMoreData, bs)
      | Rejected s \<Rightarrow> ([], s, bs)
      | Parsed f rest \<Rightarrow>
          (let (fs, s, r) = parse_stream max_size rest in (f # fs, s, r)))"
  by pat_completeness auto
termination
  by (relation "measure (\<lambda>(_, bs). length bs)") (auto dest: parse_frame_shrinks)

declare parse_stream.simps [simp del]

lemma parse_stream_status:
  "parse_stream max_size bs = (fs, s, r) \<Longrightarrow> s \<in> {kNeedMoreData, kPayloadTooLarge, kUnknownMessageId}"
proof (induction max_size bs arbitrary: fs s r rule: parse_stream.induct)
  case (1 max_size bs)
  then show ?case
    by (subst (asm) (2) parse_stream.simps)
       (auto split: parse_result.splits prod.splits dest!: parse_frame_Rejected)
qed

lemma parse_stream_append:
  "parse_stream max_size (xs @ ys) =
     (let (fs, s, r) = parse_stream max_size xs in
      if s = kNeedMoreData
      then (let (fs', s', r') = parse_stream max_size (r @ ys) in (fs @ fs', s', r'))
      else (fs, s, r @ ys))"
proof (induction max_size xs rule: parse_stream.induct)
  case (1 max_size xs)
  show ?case
  proof (cases "parse_frame max_size xs")
    case Incomplete
    then show ?thesis by (simp add: parse_stream.simps [of max_size xs] split: prod.splits)
  next
    case (Rejected s)
    then show ?thesis
      using parse_frame_Rejected [OF Rejected]
      by (auto simp: parse_stream.simps [of max_size xs] parse_stream.simps [of max_size "xs @ ys"]
          parse_frame_append(2))
  next
    case (Parsed f rest)
    then show ?thesis
      using "1.IH" [OF Parsed]
      by (simp add: parse_stream.simps [of max_size xs] parse_stream.simps [of max_size "xs @ ys"]
          parse_frame_append(1) split: prod.splits)
  qed
qed

lemma parse_stream_concat_encode:
  "list_all (valid_frame max_size) fs \<Longrightarrow>
     parse_stream max_size (concat (map encode_bytes fs)) = (fs, kNeedMoreData, [])"
proof (induction fs)
  case Nil
  show ?case by (simp add: parse_stream.simps [of _ "[]"] parse_frame_def)
next
  case (Cons f fs)
  then show ?case
    by (simp add: parse_stream.simps [of _ "encode_bytes f @ _"] parse_frame_encode)
qed

lemma parse_stream_Incomplete_rest:
  "parse_stream max_size bs = (fs, kNeedMoreData, r) \<Longrightarrow> parse_frame max_size r = Incomplete"
proof (induction max_size bs arbitrary: fs r rule: parse_stream.induct)
  case (1 max_size bs)
  show ?case
    using "1.prems" "1.IH" parse_frame_Rejected [of max_size bs]
    by (subst (asm) parse_stream.simps) (auto split: parse_result.splits prod.splits)
qed

lemma parse_stream_sound:
  "parse_stream max_size bs = (fs, s, r) \<Longrightarrow>
     list_all (valid_frame max_size) fs \<and> bs = concat (map encode_bytes fs) @ r"
proof (induction max_size bs arbitrary: fs s r rule: parse_stream.induct)
  case (1 max_size bs)
  show ?case
    using "1.prems" "1.IH"
    by (subst (asm) parse_stream.simps)
       (auto split: parse_result.splits prod.splits simp: parse_frame_Parsed_iff)
qed

section \<open>The decoder refines the parser\<close>

text \<open>
  What a client of a decoder may rely on: appending extends the pending bytes, and one decoding
  step is one step of the parser on them. The loop of a client that takes frames until none is
  ready is analysed once, against this interface.
\<close>

locale stream_decoder =
  fixes next_frame :: "'d \<Rightarrow> Frame \<Rightarrow> DecodeStatus \<times> Frame \<times> 'd"
    and append :: "byte list \<Rightarrow> 'd \<Rightarrow> 'd outcome"
    and pend :: "'d \<Rightarrow> byte list"
    and limit :: "'d \<Rightarrow> u32"
    and sticky :: "'d \<Rightarrow> bool"
    and invar :: "'d \<Rightarrow> bool"
  assumes append_law: "invar d \<Longrightarrow>
      \<exists>d'. append bs d = Inr d' \<and> invar d' \<and> pend d' = pend d @ bs \<and> limit d' = limit d \<and>
           sticky d' = sticky d"
    and next_incomplete: "invar d \<Longrightarrow> \<not> sticky d \<Longrightarrow> parse_frame (limit d) (pend d) = Incomplete \<Longrightarrow>
      next_frame d f = (kNeedMoreData, f, d)"
    and next_rejected: "invar d \<Longrightarrow> \<not> sticky d \<Longrightarrow> parse_frame (limit d) (pend d) = Rejected s \<Longrightarrow>
      \<exists>d'. next_frame d f = (s, f, d') \<and> invar d' \<and> sticky d' \<and> pend d' = pend d \<and> limit d' = limit d"
    and next_parsed: "invar d \<Longrightarrow> \<not> sticky d \<Longrightarrow> parse_frame (limit d) (pend d) = Parsed g rest \<Longrightarrow>
      \<exists>d'. next_frame d f = (kFrameReady, g, d') \<and> invar d' \<and> \<not> sticky d' \<and> pend d' = rest \<and>
           limit d' = limit d"
    and next_sticky: "invar d \<Longrightarrow> sticky d \<Longrightarrow> next_frame d f = (kDecoderFailed, f, d)"

locale decoder_client = stream_decoder +
  fixes loop :: "'a \<Rightarrow> Frame list \<Rightarrow> DecodeStatus \<times> Frame list \<times> 'a"
  assumes loop_unfold: "loop d frames =
      (let (status, frame, d') = next_frame d empty_frame in
       if status = kFrameReady then loop d' (frames @ [frame]) else (status, frames, d'))"
begin

lemma loop_refines:
  assumes "invar d" and "\<not> sticky d" and "parse_stream (limit d) (pend d) = (fs, s, r)"
  shows "\<exists>d'. loop d frames = (s, frames @ fs, d') \<and> invar d' \<and> pend d' = r \<and>
           limit d' = limit d \<and> (sticky d' \<longleftrightarrow> s \<noteq> kNeedMoreData)"
  using assms
proof (induction "limit d" "pend d" arbitrary: d frames fs s r rule: parse_stream.induct)
  case (1 d)
  note parse = "1.prems"(3) [unfolded parse_stream.simps [of "limit d" "pend d"]]
  show ?case
  proof (cases "parse_frame (limit d) (pend d)")
    case Incomplete
    with parse "1.prems" show ?thesis
      by (subst loop_unfold) (auto simp: next_incomplete)
  next
    case (Rejected s')
    with parse "1.prems" obtain d' where "next_frame d empty_frame = (s, empty_frame, d')" "s' = s"
        "invar d'" "sticky d'" "pend d' = r" "limit d' = limit d" "fs = []"
      using next_rejected [of d s' empty_frame] by auto
    with parse_frame_Rejected [OF Rejected] show ?thesis
      by (subst loop_unfold) auto
  next
    case (Parsed g rest)
    obtain d' where d': "next_frame d empty_frame = (kFrameReady, g, d')" "invar d'" "\<not> sticky d'"
        "pend d' = rest" "limit d' = limit d"
      using next_parsed [OF "1.prems"(1,2) Parsed, of empty_frame] by auto
    obtain fs' where fs': "parse_stream (limit d) rest = (fs', s, r)" "fs = g # fs'"
      using parse Parsed by (auto split: prod.splits)
    have "\<exists>d''. loop d' (frames @ [g]) = (s, (frames @ [g]) @ fs', d'') \<and> invar d'' \<and>
        pend d'' = r \<and> limit d'' = limit d' \<and> (sticky d'' \<longleftrightarrow> s \<noteq> kNeedMoreData)"
      by (rule "1.hyps") (use d' fs' Parsed in auto)
    with d' fs' show ?thesis
      by (subst loop_unfold) auto
  qed
qed

lemma loop_sticky: "invar d \<Longrightarrow> sticky d \<Longrightarrow> loop d frames = (kDecoderFailed, frames, d)"
  by (subst loop_unfold) (simp add: next_sticky)

end

lemma pending_Compact [simp]: "pending (FrameDecoder_Compact d) = pending d"
  by (cases d) (simp add: FrameDecoder_Compact_def pending_def)

lemma decoder_wf_Compact: "decoder_wf d \<Longrightarrow> decoder_wf (FrameDecoder_Compact d)"
  by (simp add: FrameDecoder_Compact_def decoder_wf_def)

lemma Compact_fields [simp]:
  "dec_max_payload_size (FrameDecoder_Compact d) = dec_max_payload_size d"
  "dec_failed (FrameDecoder_Compact d) = dec_failed d"
  by (simp_all add: FrameDecoder_Compact_def)

lemma length_pending [simp]: "length (pending d) = FrameDecoder_BufferedBytes d"
  by (simp add: pending_def FrameDecoder_BufferedBytes_def)

lemma Frame_eta [simp]: "\<lparr>message_id = message_id f, payload = payload f\<rparr> = f"
  by simp

lemma Frame_update_all:
  "f\<lparr>message_id := m, payload := p\<rparr> = \<lparr>message_id = m, payload = p\<rparr>"
  by (cases f) simp

lemma pending_payload:
  "take n (drop (dec_read_offset d + 8) (dec_buffer d)) = take n (drop 8 (pending d))"
  by (simp add: pending_def add.commute)

lemma FrameDecoder_Next_parse:
  "FrameDecoder_Next d f =
     (if dec_failed d then (kDecoderFailed, f, d)
      else case parse_frame (dec_max_payload_size d) (pending d) of
        Incomplete \<Rightarrow> (kNeedMoreData, f, d)
      | Rejected s \<Rightarrow> (s, f, d\<lparr>dec_failed := True, dec_failure_status := s\<rparr>)
      | Parsed g rest \<Rightarrow> (kFrameReady, g,
          FrameDecoder_Compact (d\<lparr>dec_read_offset :=
            dec_read_offset d + (8 + length (payload g))\<rparr>)))"
  unfolding FrameDecoder_Next_def parse_frame_def FrameDecoder_Fail_def kFrameHeaderSize_def
    pending_payload Frame_update_all pending_def [symmetric] length_pending
  by (auto simp: Let_def)

lemma FrameDecoder_Next_parsed_wf:
  assumes "decoder_wf d" and "\<not> dec_failed d"
    and "parse_frame (dec_max_payload_size d) (pending d) = Parsed g rest"
  shows "\<exists>d'. FrameDecoder_Next d f = (kFrameReady, g, d') \<and> decoder_wf d' \<and> \<not> dec_failed d' \<and>
      pending d' = rest \<and> dec_max_payload_size d' = dec_max_payload_size d"
proof -
  define n where "n = dec_read_offset d + (8 + length (payload g))"
  have eq: "pending d = encode_bytes g @ rest"
    using parse_frame_decompose [OF assms(3)] by simp
  then have "FrameDecoder_BufferedBytes d = 8 + length (payload g) + length rest"
    by (metis length_append length_encode_bytes length_pending)
  then have "n \<le> length (dec_buffer d)"
    by (simp add: n_def FrameDecoder_BufferedBytes_def)
  moreover have "drop n (dec_buffer d) = rest"
    using arg_cong [OF eq, of "drop (8 + length (payload g))"]
    by (simp add: n_def pending_def add_ac)
  ultimately have "decoder_wf (d\<lparr>dec_read_offset := n\<rparr>)" "pending (d\<lparr>dec_read_offset := n\<rparr>) = rest"
    using assms(1) by (auto simp: decoder_wf_def pending_def)
  then show ?thesis
    using assms by (simp add: FrameDecoder_Next_parse n_def decoder_wf_Compact)
qed

lemma FrameDecoder_Append_Inr:
  "FrameDecoder_Append bs d = Inr (d\<lparr>dec_buffer := dec_buffer d @ bs\<rparr>)"
  by (simp add: FrameDecoder_Append_def FrameDecoder_Append_ptr_def)

interpretation fd: stream_decoder FrameDecoder_Next FrameDecoder_Append pending
    dec_max_payload_size dec_failed decoder_wf
proof unfold_locales
  fix d :: FrameDecoder and f :: Frame and bs s
  assume wf: "decoder_wf d"
  then show "\<exists>d'. FrameDecoder_Append bs d = Inr d' \<and> decoder_wf d' \<and> pending d' = pending d @ bs \<and>
      dec_max_payload_size d' = dec_max_payload_size d \<and> dec_failed d' = dec_failed d"
    by (auto simp: FrameDecoder_Append_Inr decoder_wf_def pending_def)
  assume "\<not> dec_failed d" "parse_frame (dec_max_payload_size d) (pending d) = Rejected s"
  with wf parse_frame_Rejected [OF this(2)]
  show "\<exists>d'. FrameDecoder_Next d f = (s, f, d') \<and> decoder_wf d' \<and> dec_failed d' \<and>
      pending d' = pending d \<and> dec_max_payload_size d' = dec_max_payload_size d"
    by (simp add: FrameDecoder_Next_parse decoder_wf_def, simp add: pending_def)
qed (simp_all add: FrameDecoder_Next_parsed_wf, simp_all add: FrameDecoder_Next_parse)

section \<open>Decoding loops\<close>

text \<open>
  The loop of \<open>TcpConnection::ReadAvailable\<close> that takes frames while \<open>Next\<close> reports
  \<open>kFrameReady\<close>. It ends because every frame removes at least its eight header bytes.
\<close>

lemma FrameDecoder_Next_ready_shrinks:
  assumes "FrameDecoder_Next d f = (kFrameReady, g, d')"
  shows "FrameDecoder_BufferedBytes d' < FrameDecoder_BufferedBytes d"
proof -
  obtain rest where p: "parse_frame (dec_max_payload_size d) (pending d) = Parsed g rest"
    and d': "d' = FrameDecoder_Compact (d\<lparr>dec_read_offset :=
            dec_read_offset d + (8 + length (payload g))\<rparr>)"
    using assms by (auto simp: FrameDecoder_Next_parse split: if_splits parse_result.splits
        dest!: parse_frame_Rejected)
  have "length (pending d') < length (pending d)"
    using parse_frame_decompose [OF p] unfolding d' pending_Compact
    by (metis add.commute drop_drop length_append length_drop length_encode_bytes pending_def
        FrameDecoder.ext_inject FrameDecoder.surjective FrameDecoder.update_convs(3)
        add_diff_cancel_left' less_add_same_cancel2 trans_less_add1 zero_less_numeral add_gr_0)
  then show ?thesis by simp
qed

function decode_loop :: "FrameDecoder \<Rightarrow> Frame list \<Rightarrow> DecodeStatus \<times> Frame list \<times> FrameDecoder" where
  "decode_loop d frames =
     (let (status, frame, d') = FrameDecoder_Next d empty_frame in
      if status = kFrameReady then decode_loop d' (frames @ [frame]) else (status, frames, d'))"
  by pat_completeness auto
termination
  by (relation "measure (\<lambda>(d, _). FrameDecoder_BufferedBytes d)")
     (auto dest: FrameDecoder_Next_ready_shrinks [OF sym])

declare decode_loop.simps [simp del]

interpretation fd: decoder_client FrameDecoder_Next FrameDecoder_Append pending
    dec_max_payload_size dec_failed decoder_wf decode_loop
  by unfold_locales (rule decode_loop.simps)

text \<open>A receiver that appends each chunk as it arrives and then runs the decoding loop.\<close>

fun receive_chunks :: "byte list list \<Rightarrow> FrameDecoder \<Rightarrow> (Frame list \<times> FrameDecoder) outcome" where
  "receive_chunks [] d = Inr ([], d)"
| "receive_chunks (c # cs) d =
     outcome_bind (FrameDecoder_Append c d) (\<lambda>d.
       let (_, frames, d) = decode_loop d []
       in outcome_bind (receive_chunks cs d) (\<lambda>(frames', d). Inr (frames @ frames', d)))"

lemma decode_loop_failure_status:
  "decode_loop d frames = (s, fs, d') \<Longrightarrow> \<not> dec_failed d \<Longrightarrow> dec_failure_status d = kNeedMoreData \<Longrightarrow>
     dec_failure_status d' = s"
proof (induction d frames rule: decode_loop.induct)
  case (1 d frames)
  obtain status g d1 where n: "FrameDecoder_Next d empty_frame = (status, g, d1)"
    by (cases "FrameDecoder_Next d empty_frame") auto
  have "status = kFrameReady \<Longrightarrow> \<not> dec_failed d1 \<and> dec_failure_status d1 = kNeedMoreData"
    and "status \<noteq> kFrameReady \<Longrightarrow> dec_failure_status d1 = status"
    using n "1.prems" by (auto simp: FrameDecoder_Next_parse FrameDecoder_Compact_def
        split: parse_result.splits if_splits dest: parse_frame_Rejected)
  with "1.IH" [OF n [symmetric] refl] "1.prems" n show ?case
    by (subst (asm) (2) decode_loop.simps) (auto split: if_splits)
qed

lemma receive_chunks_failed:
  "decoder_wf d \<Longrightarrow> dec_failed d \<Longrightarrow>
     receive_chunks cs d = Inr ([], d\<lparr>dec_buffer := dec_buffer d @ concat cs\<rparr>)"
proof (induction cs arbitrary: d)
  case Nil
  then show ?case by simp
next
  case (Cons c cs)
  let ?d = "d\<lparr>dec_buffer := dec_buffer d @ c\<rparr>"
  have wf: "decoder_wf ?d" using Cons.prems by (simp add: decoder_wf_def)
  with Cons.prems have "decode_loop ?d [] = (kDecoderFailed, [], ?d)"
    by (intro fd.loop_sticky) simp_all
  with Cons.IH [OF wf] Cons.prems show ?case
    by (simp add: FrameDecoder_Append_Inr)
qed

lemma receive_chunks_parse:
  assumes "decoder_wf d" and "\<not> dec_failed d"
    and "parse_frame (dec_max_payload_size d) (pending d) = Incomplete"
    and "parse_stream (dec_max_payload_size d) (pending d @ concat cs) = (fs, s, r)"
  shows "\<exists>d'. receive_chunks cs d = Inr (fs, d') \<and> decoder_wf d' \<and> pending d' = r \<and>
      (dec_failed d' \<longleftrightarrow> s \<noteq> kNeedMoreData) \<and> dec_failure_status d' = s"
  using assms
proof (induction cs arbitrary: d fs)
  case Nil
  then show ?case
    by (auto simp: parse_stream.simps [of _ "pending d"] decoder_wf_def)
next
  case (Cons c cs)
  let ?m = "dec_max_payload_size d" and ?d = "d\<lparr>dec_buffer := dec_buffer d @ c\<rparr>"
  obtain fs1 s1 r1 where p1: "parse_stream ?m (pending d @ c) = (fs1, s1, r1)"
    by (cases "parse_stream ?m (pending d @ c)") auto
  have d: "decoder_wf ?d" "\<not> dec_failed ?d" "pending ?d = pending d @ c" "dec_max_payload_size ?d = ?m"
    using Cons.prems(1,2) by (auto simp: decoder_wf_def pending_def)
  then obtain d1 where l: "decode_loop ?d [] = (s1, fs1, d1)"
    and d1: "decoder_wf d1" "pending d1 = r1" "dec_max_payload_size d1 = ?m"
      "dec_failed d1 \<longleftrightarrow> s1 \<noteq> kNeedMoreData"
    using fd.loop_refines [OF d(1,2), of fs1 s1 r1 "[]"] p1 by auto
  have st: "dec_failure_status d1 = s1"
    using decode_loop_failure_status [OF l] d(1,2) by (simp add: decoder_wf_def)
  note app = parse_stream_append [of ?m "pending d @ c" "concat cs"]
  show ?case
  proof (cases "s1 = kNeedMoreData")
    case True
    then obtain fs2 where p2: "parse_stream ?m (r1 @ concat cs) = (fs2, s, r)" "fs = fs1 @ fs2"
      using Cons.prems(4) app p1 by (auto split: prod.splits)
    have inc: "parse_frame ?m r1 = Incomplete"
      using p1 True parse_stream_Incomplete_rest by blast
    obtain d2 where "receive_chunks cs d1 = Inr (fs2, d2)" "decoder_wf d2" "pending d2 = r"
        "dec_failed d2 \<longleftrightarrow> s \<noteq> kNeedMoreData" "dec_failure_status d2 = s"
      using Cons.IH [of d1 fs2] d1 True inc p2 by auto
    then show ?thesis using l p2 by (simp add: FrameDecoder_Append_Inr)
  next
    case False
    then have "fs = fs1" "s = s1" "r = r1 @ concat cs"
      using Cons.prems(4) app p1 by auto
    then show ?thesis
      using l d1 st False receive_chunks_failed [OF d1(1)]
      by (auto simp: FrameDecoder_Append_Inr decoder_wf_def pending_def)
  qed
qed

section \<open>Properties of the codec\<close>

lemma decoder_wf_new: "FrameDecoder_new m = Inr d \<Longrightarrow> decoder_wf d \<and> pending d = [] \<and>
    dec_max_payload_size d = m \<and> \<not> dec_failed d"
  by (auto simp: FrameDecoder_new_def decoder_wf_def pending_def split: if_splits)

lemma parse_frame_Nil [simp]: "parse_frame m [] = Incomplete"
  by (simp add: parse_frame_def)

lemma EncodeFrame_list_all2:
  "list_all2 (\<lambda>f bs. EncodeFrame (message_id f) (payload f) m = Inr bs) fs encs \<Longrightarrow>
     list_all (valid_frame m) fs \<and> concat encs = concat (map encode_bytes fs)"
  by (induction rule: list_all2_induct) (auto simp: EncodeFrame_eq_Inr_iff)

lemma Compact_establishes [simp]: "decoder_compact_inv (FrameDecoder_Compact d)"
  by (auto simp: decoder_compact_inv_def FrameDecoder_Compact_def)

lemma decoder_compact_inv_fail [simp]:
  "decoder_compact_inv (d\<lparr>dec_failed := a, dec_failure_status := b\<rparr>) = decoder_compact_inv d"
  by (simp add: decoder_compact_inv_def)

lemma decode_loop_compact_inv:
  "decode_loop d frames = (s, fs, d') \<Longrightarrow> decoder_compact_inv d \<Longrightarrow> decoder_compact_inv d'"
proof (induction d frames rule: decode_loop.induct)
  case (1 d frames)
  obtain status g d1 where n: "FrameDecoder_Next d empty_frame = (status, g, d1)"
    by (cases "FrameDecoder_Next d empty_frame") auto
  then have "decoder_compact_inv d1"
    using "1.prems"(2) by (auto simp: FrameDecoder_Next_parse split: parse_result.splits if_splits)
  with "1.IH" [OF n [symmetric] refl] "1.prems"(1) n show ?case
    by (subst (asm) (2) decode_loop.simps) (auto split: if_splits)
qed

text \<open>
  C9: However the bytes of any sequence of frames written by \<open>EncodeFrame\<close> are cut into chunks
  by TCP (half frames, several frames in one chunk, empty chunks), a fresh decoder with the same
  payload limit that is fed chunk by chunk delivers exactly these frames, in order and once each,
  and ends with an empty buffer and no failure.
\<close>

theorem fragmented_roundtrip:
  assumes "FrameDecoder_new max_size = Inr d"
    and "list_all2 (\<lambda>f bs. EncodeFrame (message_id f) (payload f) max_size = Inr bs) fs encs"
    and "concat chunks = concat encs"
  shows "\<exists>d'. receive_chunks chunks d = Inr (fs, d') \<and> FrameDecoder_BufferedBytes d' = 0 \<and>
      \<not> FrameDecoder_Failed d'"
proof -
  have "parse_stream max_size (concat chunks) = (fs, kNeedMoreData, [])"
    using EncodeFrame_list_all2 [OF assms(2)] assms(3) by (simp add: parse_stream_concat_encode)
  then obtain d' where "receive_chunks chunks d = Inr (fs, d')" "pending d' = []" "\<not> dec_failed d'"
    using receive_chunks_parse [of d chunks fs kNeedMoreData "[]"] decoder_wf_new [OF assms(1)]
    by auto
  then show ?thesis
    using length_pending [of d'] by (auto simp: FrameDecoder_Failed_def)
qed

theorem fragmented_roundtrip_witness:
  "\<exists>d d'. FrameDecoder_new 16 = Inr d \<and>
     receive_chunks [[0, 0, 0], [0, 0, 0, 0, 4, 0, 0, 0, 2, 0], [0, 0, 3, 9, 8]] d =
       Inr ([\<lparr>message_id = 4, payload = []\<rparr>, \<lparr>message_id = 3, payload = [9, 8]\<rparr>], d') \<and>
     FrameDecoder_BufferedBytes d' = 0"
proof -
  obtain d where d: "FrameDecoder_new 16 = Inr d" by (simp add: FrameDecoder_new_def)
  have "list_all2 (\<lambda>f bs. EncodeFrame (message_id f) (payload f) 16 = Inr bs)
      [\<lparr>message_id = 4, payload = []\<rparr>, \<lparr>message_id = 3, payload = [9, 8]\<rparr>]
      [[0, 0, 0, 0, 0, 0, 0, 4], [0, 0, 0, 2, 0, 0, 0, 3, 9, 8]]"
    by (simp add: EncodeFrame_def IsKnownMessageId_def message_ids AppendNetworkUint32_def UINT32_MAX_def)
  from fragmented_roundtrip [OF d this, of "[[0, 0, 0], [0, 0, 0, 0, 4, 0, 0, 0, 2, 0], [0, 0, 3, 9, 8]]"] d
  show ?thesis by auto
qed

text \<open>
  C23: For arbitrary, possibly malformed, input the result of receiving depends only on the
  concatenation of the chunks: two ways of cutting the same bytes give the same frames, the same
  unread bytes, the same failure flag and the same failure status.
\<close>

theorem chunking_irrelevant:
  assumes "FrameDecoder_new max_size = Inr d" and "concat cs = concat cs'"
  shows "\<exists>frames d1 d2. receive_chunks cs d = Inr (frames, d1) \<and> receive_chunks cs' d = Inr (frames, d2) \<and>
      pending d1 = pending d2 \<and> FrameDecoder_Failed d1 = FrameDecoder_Failed d2 \<and>
      FrameDecoder_FailureStatus d1 = FrameDecoder_FailureStatus d2"
proof -
  obtain fs s r where p: "parse_stream max_size (concat cs) = (fs, s, r)"
    by (cases "parse_stream max_size (concat cs)") auto
  then show ?thesis
    using receive_chunks_parse [of d cs fs s r] receive_chunks_parse [of d cs' fs s r] assms(2)
      decoder_wf_new [OF assms(1)]
    by (auto simp: FrameDecoder_Failed_def FrameDecoder_FailureStatus_def)
qed

theorem chunking_irrelevant_witness:
  "\<exists>d frames d1 d2. FrameDecoder_new 16 = Inr d \<and>
     receive_chunks [[0, 0, 0, 0x11, 0, 0], [0, 3]] d = Inr (frames, d1) \<and>
     receive_chunks [[0, 0, 0, 0x11], [], [0, 0, 0, 3]] d = Inr (frames, d2) \<and>
     FrameDecoder_FailureStatus d1 = FrameDecoder_FailureStatus d2"
proof -
  obtain d where d: "FrameDecoder_new 16 = Inr d" by (simp add: FrameDecoder_new_def)
  from chunking_irrelevant [OF d, of "[[0, 0, 0, 0x11, 0, 0], [0, 3]]" "[[0, 0, 0, 0x11], [], [0, 0, 0, 3]]"] d
  show ?thesis by auto
qed

text \<open>
  On a well-formed decoder that has not failed, \<open>Next\<close> reports \<open>kFrameReady\<close> with a frame
  exactly when the pending bytes start with the bytes \<open>EncodeFrame\<close> would produce for that frame
  under the decoder's payload limit; it then consumes exactly those bytes and stays well-formed.
\<close>

theorem Next_ready_iff:
  assumes "decoder_wf d" and "\<not> FrameDecoder_Failed d"
  shows "(\<exists>d'. FrameDecoder_Next d f = (kFrameReady, g, d') \<and> pending d' = rest \<and> decoder_wf d') \<longleftrightarrow>
      (\<exists>bs. EncodeFrame (message_id g) (payload g) (dec_max_payload_size d) = Inr bs \<and>
            pending d = bs @ rest)"
proof -
  have "(\<exists>bs. EncodeFrame (message_id g) (payload g) (dec_max_payload_size d) = Inr bs \<and>
      pending d = bs @ rest) \<longleftrightarrow> parse_frame (dec_max_payload_size d) (pending d) = Parsed g rest"
    by (auto simp: EncodeFrame_eq_Inr_iff parse_frame_Parsed_iff)
  also have "\<dots> \<longleftrightarrow> (\<exists>d'. FrameDecoder_Next d f = (kFrameReady, g, d') \<and> pending d' = rest \<and> decoder_wf d')"
  proof (cases "parse_frame (dec_max_payload_size d) (pending d)")
    case (Parsed g' rest')
    with FrameDecoder_Next_parsed_wf [OF assms(1) _ Parsed, of f] assms(2) show ?thesis
      by (auto simp: FrameDecoder_Failed_def)
  qed (use assms in \<open>auto simp: FrameDecoder_Next_parse FrameDecoder_Failed_def
        dest: parse_frame_Rejected\<close>)
  finally show ?thesis ..
qed

theorem Next_ready_iff_witness:
  "\<exists>d'. FrameDecoder_Next \<lparr>dec_max_payload_size = 16,
       dec_buffer = [0, 0, 0, 1, 0, 0, 0, 2, 65, 7], dec_read_offset = 0,
       dec_failure_status = kNeedMoreData, dec_failed = False\<rparr> empty_frame =
     (kFrameReady, \<lparr>message_id = 2, payload = [65]\<rparr>, d') \<and> pending d' = [7] \<and> decoder_wf d'"
proof -
  let ?d = "\<lparr>dec_max_payload_size = 16, dec_buffer = [0, 0, 0, 1, 0, 0, 0, 2, 65, 7],
    dec_read_offset = 0, dec_failure_status = kNeedMoreData, dec_failed = False\<rparr>"
  have "decoder_wf ?d" "\<not> FrameDecoder_Failed ?d"
    by (simp_all add: decoder_wf_def FrameDecoder_Failed_def)
  from Next_ready_iff [OF this, of empty_frame "\<lparr>message_id = 2, payload = [65]\<rparr>" "[7]"]
  show ?thesis
    by (simp add: EncodeFrame_def IsKnownMessageId_def message_ids AppendNetworkUint32_def
        pending_def UINT32_MAX_def)
qed

text \<open>
  C24: A protocol error is final: once \<open>Next\<close> has reported an oversized payload or an unknown
  message identifier, every further \<open>Next\<close>, whatever is appended in between, reports
  \<open>kDecoderFailed\<close>, delivers nothing and consumes nothing; \<open>Reset\<close> brings back exactly the
  freshly constructed decoder.
\<close>

theorem failure_is_sticky_until_Reset:
  assumes "decoder_wf d" and "FrameDecoder_Next d f = (s, f', d')"
    and "s \<notin> {kFrameReady, kNeedMoreData}"
  shows "\<exists>d''. FrameDecoder_Append bs d' = Inr d'' \<and>
      FrameDecoder_Next d'' g = (kDecoderFailed, g, d'') \<and>
      FrameDecoder_new (dec_max_payload_size d) = Inr (FrameDecoder_Reset d'')"
proof -
  have "dec_failed d'" "dec_max_payload_size d' = dec_max_payload_size d"
    using assms(2,3) by (auto simp: FrameDecoder_Next_parse split: if_splits parse_result.splits)
  then show ?thesis
    using assms(1)
    by (simp add: FrameDecoder_Append_Inr FrameDecoder_Next_def FrameDecoder_new_def
        FrameDecoder_Reset_def decoder_wf_def)
qed

theorem failure_is_sticky_until_Reset_witness:
  "\<exists>d' d''. FrameDecoder_Next \<lparr>dec_max_payload_size = 4, dec_buffer = [0, 0, 0, 5, 0, 0, 0, 1],
       dec_read_offset = 0, dec_failure_status = kNeedMoreData, dec_failed = False\<rparr> empty_frame =
       (kPayloadTooLarge, empty_frame, d') \<and>
     FrameDecoder_Append [0, 0, 0, 0] d' = Inr d'' \<and>
     FrameDecoder_Next d'' empty_frame = (kDecoderFailed, empty_frame, d'') \<and>
     FrameDecoder_new 4 = Inr (FrameDecoder_Reset d'')"
proof -
  let ?d = "\<lparr>dec_max_payload_size = 4, dec_buffer = [0, 0, 0, 5, 0, 0, 0, 1],
    dec_read_offset = 0, dec_failure_status = kNeedMoreData, dec_failed = False\<rparr>"
  have wf: "decoder_wf ?d" by (simp add: decoder_wf_def)
  have "FrameDecoder_Next ?d empty_frame = (kPayloadTooLarge, empty_frame,
      ?d\<lparr>dec_failed := True, dec_failure_status := kPayloadTooLarge\<rparr>)"
    by (simp add: FrameDecoder_Next_def FrameDecoder_BufferedBytes_def kFrameHeaderSize_def
        ReadNetworkUint32_def FrameDecoder_Fail_def)
  from failure_is_sticky_until_Reset [OF wf this, of "[0, 0, 0, 0]" empty_frame] this
  show ?thesis by simp
qed

text \<open>
  C25: Memory held by a decoder is bounded by its payload limit: when the decoding loop stops for
  lack of data, fewer than \<open>8 + max_payload_size\<close> bytes are pending, and the buffer, including the
  consumed prefix that \<open>Compact\<close> has not yet erased, is below \<open>4096 + 2 * (8 + max_payload_size)\<close>.
\<close>

theorem decode_loop_buffer_bound:
  assumes "decoder_wf d" and "\<not> dec_failed d" and "decoder_compact_inv d"
    and "decode_loop d frames = (kNeedMoreData, fs, d')"
  shows "FrameDecoder_BufferedBytes d' < 8 + unat (dec_max_payload_size d) \<and>
      length (dec_buffer d') < 4096 + 2 * (8 + unat (dec_max_payload_size d)) \<and>
      decoder_wf d' \<and> decoder_compact_inv d'"
proof -
  obtain fs' s r where p: "parse_stream (dec_max_payload_size d) (pending d) = (fs', s, r)"
    by (cases "parse_stream (dec_max_payload_size d) (pending d)") auto
  have s: "s = kNeedMoreData" "pending d' = r" "decoder_wf d'"
    using fd.loop_refines [OF assms(1,2) p, of frames] assms(4) by auto
  have c: "decoder_compact_inv d'"
    using assms(4,3) by (rule decode_loop_compact_inv)
  have "length r < 8 + unat (dec_max_payload_size d)"
    using parse_stream_Incomplete_rest p s parse_frame_Incomplete_bound by blast
  then have "FrameDecoder_BufferedBytes d' < 8 + unat (dec_max_payload_size d)"
    using length_pending [of d'] s by simp
  with c s(3) show ?thesis
    by (auto simp: decoder_compact_inv_def FrameDecoder_BufferedBytes_def decoder_wf_def)
qed

theorem decode_loop_buffer_bound_witness:
  "\<exists>d'. decode_loop \<lparr>dec_max_payload_size = 16, dec_buffer = [0, 0, 0, 2, 0, 0, 0, 3, 9],
       dec_read_offset = 0, dec_failure_status = kNeedMoreData, dec_failed = False\<rparr> [] =
       (kNeedMoreData, [], d') \<and> FrameDecoder_BufferedBytes d' < 24"
proof -
  let ?d = "\<lparr>dec_max_payload_size = 16, dec_buffer = [0, 0, 0, 2, 0, 0, 0, 3, 9],
    dec_read_offset = 0, dec_failure_status = kNeedMoreData, dec_failed = False\<rparr>"
  have "decoder_wf ?d" "\<not> dec_failed ?d" "decoder_compact_inv ?d"
    by (simp_all add: decoder_wf_def decoder_compact_inv_def)
  moreover have "decode_loop ?d [] = (kNeedMoreData, [], ?d)"
    by (simp add: decode_loop.simps FrameDecoder_Next_def FrameDecoder_BufferedBytes_def
        kFrameHeaderSize_def ReadNetworkUint32_def IsKnownMessageId_def message_ids)
  ultimately show ?thesis
    using decode_loop_buffer_bound [of ?d "[]" "[]" ?d] by simp
qed

end
