(* ===== verification/Ieee_Double.thy ===== *)
theory Ieee_Double
  imports Mmo_Prelude Complex_Main "HOL-Library.Log_Nat"
begin

text \<open>
  The part of C++ \<open>double\<close> arithmetic (IEEE 754 binary64, rounding to nearest even) that the
  sources use: addition, subtraction, division, the comparisons \<open><\<close> and \<open>>=\<close>, the conversion from
  \<open>std::size_t\<close> and the truncating conversion back, which is undefined outside the range of the
  target. Finite values are exact rationals; the sign of zero is not represented (a zero divisor
  is the positive zero: every divisor of the sources is a positive constant or a quotient of
  positive values). All operations are executable.
\<close>

section \<open>Values and rounding\<close>

datatype dbl = DNaN | DInf bool \<comment> \<open>\<open>True\<close>: negative\<close> | DFin rat

definition ilog2 :: "rat \<Rightarrow> int" where
  "ilog2 q =
     (let (n, d) = quotient_of \<bar>q\<bar>;
          k = int (floorlog 2 (nat n)) - int (floorlog 2 (nat d))
      in if 2 powi k \<le> \<bar>q\<bar> then k else k - 1)"

definition round_half_even :: "rat \<Rightarrow> int" where
  "round_half_even z =
     (let f = \<lfloor>z\<rfloor>; r = z - of_int f
      in if r < 1 / 2 then f else if r > 1 / 2 then f + 1 else if even f then f else f + 1)"

definition ulp_exponent :: "rat \<Rightarrow> int" where
  "ulp_exponent q = max (- 1074) (ilog2 q - 52)"

definition fl :: "rat \<Rightarrow> dbl" where
  "fl q =
     (if q = 0 then DFin 0
      else
        let e = ulp_exponent q;
            v = of_int (round_half_even (q / 2 powi e)) * 2 powi e
        in if \<bar>v\<bar> \<ge> 2 ^ 1024 then DInf (v < 0) else DFin v)"

definition representable :: "rat \<Rightarrow> bool" where
  "representable q \<longleftrightarrow> (\<exists>m e. q = of_int m * 2 powi e \<and> \<bar>m\<bar> < 2 ^ 53 \<and> - 1074 \<le> e \<and> e \<le> 971)"

section \<open>Operations\<close>

fun d_add :: "dbl \<Rightarrow> dbl \<Rightarrow> dbl" where
  "d_add (DFin a) (DFin b) = fl (a + b)"
| "d_add DNaN _ = DNaN"
| "d_add _ DNaN = DNaN"
| "d_add (DInf a) (DInf b) = (if a = b then DInf a else DNaN)"
| "d_add (DInf a) (DFin _) = DInf a"
| "d_add (DFin _) (DInf b) = DInf b"

fun d_neg :: "dbl \<Rightarrow> dbl" where
  "d_neg (DFin a) = DFin (- a)"
| "d_neg DNaN = DNaN"
| "d_neg (DInf a) = DInf (\<not> a)"

definition d_sub :: "dbl \<Rightarrow> dbl \<Rightarrow> dbl" where
  "d_sub x y = d_add x (d_neg y)"

fun d_div :: "dbl \<Rightarrow> dbl \<Rightarrow> dbl" where
  "d_div (DFin a) (DFin b) =
     (if b = 0 then (if a = 0 then DNaN else DInf (a < 0)) else fl (a / b))"
| "d_div DNaN _ = DNaN"
| "d_div _ DNaN = DNaN"
| "d_div (DInf _) (DInf _) = DNaN"
| "d_div (DInf a) (DFin b) = DInf (a \<noteq> (b < 0))"
| "d_div (DFin _) (DInf _) = DFin 0"

fun d_mul :: "dbl \<Rightarrow> dbl \<Rightarrow> dbl" where
  "d_mul (DFin a) (DFin b) = fl (a * b)"
| "d_mul DNaN _ = DNaN"
| "d_mul _ DNaN = DNaN"
| "d_mul (DInf a) (DInf b) = DInf (a \<noteq> b)"
| "d_mul (DInf a) (DFin b) = (if b = 0 then DNaN else DInf (a \<noteq> (b < 0)))"
| "d_mul (DFin a) (DInf b) = (if a = 0 then DNaN else DInf ((a < 0) \<noteq> b))"

text \<open>\<open>std::ceil\<close>\<close>

fun d_ceil :: "dbl \<Rightarrow> dbl" where
  "d_ceil (DFin q) = DFin (of_int \<lceil>q\<rceil>)"
| "d_ceil x = x"

fun d_less :: "dbl \<Rightarrow> dbl \<Rightarrow> bool" where
  "d_less (DFin a) (DFin b) = (a < b)"
| "d_less DNaN _ = False"
| "d_less _ DNaN = False"
| "d_less (DInf a) (DInf b) = (a \<and> \<not> b)"
| "d_less (DInf a) (DFin _) = a"
| "d_less (DFin _) (DInf b) = (\<not> b)"

fun d_ge :: "dbl \<Rightarrow> dbl \<Rightarrow> bool" where
  "d_ge DNaN _ = False"
| "d_ge _ DNaN = False"
| "d_ge x y = (\<not> d_less x y)"

fun d_eq :: "dbl \<Rightarrow> dbl \<Rightarrow> bool" where
  "d_eq (DFin a) (DFin b) = (a = b)"
| "d_eq (DInf a) (DInf b) = (a = b)"
| "d_eq _ _ = False"

definition size_t_to_double :: "u64 \<Rightarrow> dbl" where
  "size_t_to_double n = fl (of_nat (unat n))"

text \<open>\<open>static_cast<std::size_t>(double)\<close>: truncation, undefined when the result does not fit.\<close>

fun double_to_size_t :: "dbl \<Rightarrow> u64 outcome" where
  "double_to_size_t (DFin q) =
     (if - 1 < q \<and> q < 2 ^ 64 then Inr (of_nat (nat \<lfloor>q\<rfloor>)) else Inl UndefinedBehaviour)"
| "double_to_size_t _ = Inl UndefinedBehaviour"

section \<open>Rounding lemmas\<close>

lemma floorlog2_bounds_rat:
  assumes "n > 0"
  shows "(2 :: rat) powi (int (floorlog 2 (nat n)) - 1) \<le> of_int n"
    and "of_int n < (2 :: rat) powi int (floorlog 2 (nat n))"
proof -
  have pos: "floorlog 2 (nat n) \<ge> 1"
    using assms floorlog_eq_zero_iff [of 2 "nat n"] by linarith
  have b: "2 ^ (floorlog 2 (nat n) - 1) \<le> nat n" "nat n < 2 ^ floorlog 2 (nat n)"
    using floorlog_bounds [of "nat n" 2] assms by auto
  have "(of_nat (2 ^ (floorlog 2 (nat n) - 1)) :: rat) \<le> of_nat (nat n)"
    using b(1) by (simp only: of_nat_le_iff)
  then show "(2 :: rat) powi (int (floorlog 2 (nat n)) - 1) \<le> of_int n"
    using pos assms by (simp add: power_int_def nat_diff_distrib)
  have "(of_nat (nat n) :: rat) < of_nat (2 ^ floorlog 2 (nat n))"
    using b(2) by (simp only: of_nat_less_iff)
  then show "of_int n < (2 :: rat) powi int (floorlog 2 (nat n))"
    using assms by simp
qed

lemma ilog2_bounds:
  assumes "q \<noteq> 0"
  shows "2 powi ilog2 q \<le> \<bar>q\<bar>" and "\<bar>q\<bar> < 2 powi (ilog2 q + 1)"
proof -
  obtain n d where nd: "quotient_of \<bar>q\<bar> = (n, d)" by (cases "quotient_of \<bar>q\<bar>") auto
  have d: "d > 0" and q: "\<bar>q\<bar> = of_int n / of_int d"
    using quotient_of_denom_pos [OF nd] quotient_of_div [OF nd] by auto
  have "(of_int n :: rat) / of_int d > 0"
    using assms q by (metis zero_less_abs_iff)
  then have n: "n > 0"
    using d by (simp add: zero_less_divide_iff)
  define a b where "a = int (floorlog 2 (nat n))" and "b = int (floorlog 2 (nat d))"
  have A: "2 powi (a - 1) \<le> (of_int n :: rat)" "(of_int n :: rat) < 2 powi a"
    and B: "2 powi (b - 1) \<le> (of_int d :: rat)" "(of_int d :: rat) < 2 powi b"
    using floorlog2_bounds_rat n d by (simp_all add: a_def b_def)
  have "\<bar>q\<bar> < 2 powi a / 2 powi (b - 1)"
    unfolding q using A(2) B(1) d n
    by (meson frac_less of_int_0_le_iff order_less_imp_le zero_less_power_int zero_less_numeral)
  then have hi: "\<bar>q\<bar> < 2 powi (a - b + 1)"
    by (simp add: power_int_diff [symmetric] algebra_simps)
  have "2 powi (a - 1) / 2 powi b \<le> \<bar>q\<bar>"
    unfolding q using A(1) B(2) d n
    by (intro frac_le) (auto intro: order_less_imp_le order_trans)
  then have lo: "2 powi (a - b - 1) \<le> \<bar>q\<bar>"
    by (simp add: power_int_diff [symmetric] algebra_simps)
  have "ilog2 q = (if 2 powi (a - b) \<le> \<bar>q\<bar> then a - b else a - b - 1)"
    by (simp add: ilog2_def nd a_def b_def)
  then show "2 powi ilog2 q \<le> \<bar>q\<bar>" and "\<bar>q\<bar> < 2 powi (ilog2 q + 1)"
    using lo hi by (auto split: if_splits)
qed

lemma round_half_even_int [simp]: "round_half_even (of_int k) = k"
  by (simp add: round_half_even_def Let_def)

lemma round_half_even_bounds:
  "\<lfloor>z\<rfloor> \<le> round_half_even z" "round_half_even z \<le> \<lfloor>z\<rfloor> + 1"
  by (simp_all add: round_half_even_def Let_def)

lemma round_half_even_le: "z \<le> of_int k \<Longrightarrow> round_half_even z \<le> k"
proof (cases "z = of_int k")
  case False
  assume "z \<le> of_int k"
  with False have "\<lfloor>z\<rfloor> < k" by linarith
  then show ?thesis using round_half_even_bounds(2) [of z] by linarith
qed simp

lemma round_half_even_ge: "of_int k \<le> z \<Longrightarrow> k \<le> round_half_even z"
  using round_half_even_bounds(1) [of z] by linarith

lemma round_half_even_below: "z < of_int k - 1 / 2 \<Longrightarrow> round_half_even z < k"
  unfolding round_half_even_def Let_def by (auto split: if_splits simp: floor_less_iff)

lemma powi2_less_iff [simp]: "(2 :: rat) powi a < 2 powi b \<longleftrightarrow> a < b"
  using power_int_strict_increasing [of a b "2 :: rat"] power_int_increasing [of b a "2 :: rat"]
  by linarith

lemma powi2_le_iff [simp]: "(2 :: rat) powi a \<le> 2 powi b \<longleftrightarrow> a \<le> b"
  by (simp add: not_less [symmetric] del: not_less)

lemma powi2_split:
  "u \<le> e \<Longrightarrow> (2 :: rat) powi e = of_int (2 ^ nat (e - u)) * 2 powi u"
  by (simp add: power_int_add [of "2 :: rat" "e - u" u, simplified] power_int_def [of _ "e - u"])

lemma representable_multiple:
  assumes "representable v" and "q \<noteq> 0" and "\<bar>q\<bar> \<le> \<bar>v\<bar>"
  obtains k where "v = of_int k * 2 powi ulp_exponent q"
proof -
  obtain m e where v: "v = of_int m * 2 powi e" and m: "\<bar>m\<bar> < 2 ^ 53" and e: "- 1074 \<le> e"
    using assms(1) by (auto simp: representable_def)
  have "2 powi ilog2 q \<le> \<bar>v\<bar>"
    using ilog2_bounds(1) [OF assms(2)] assms(3) by linarith
  also have "\<bar>v\<bar> = of_int \<bar>m\<bar> * 2 powi e"
    by (simp add: v abs_mult)
  also have "\<dots> < of_int (2 ^ 53) * 2 powi e"
    using m by (intro mult_strict_right_mono) (simp_all only: of_int_less_iff zero_less_power_int zero_less_numeral)
  also have "\<dots> = 2 powi (53 + e)"
    by (simp add: power_int_add)
  finally have "ilog2 q < 53 + e"
    by simp
  then have le: "ulp_exponent q \<le> e"
    using e by (simp add: ulp_exponent_def)
  have "v = of_int (m * 2 ^ nat (e - ulp_exponent q)) * 2 powi ulp_exponent q"
    by (simp only: v powi2_split [OF le] of_int_mult mult.assoc)
  then show thesis by (rule that)
qed

lemma representable_bound: "representable v \<Longrightarrow> \<bar>v\<bar> < 2 ^ 1024"
proof -
  assume "representable v"
  then obtain m e where v: "v = of_int m * 2 powi e" and m: "\<bar>m\<bar> < 2 ^ 53" and e: "e \<le> 971"
    by (auto simp: representable_def)
  have "\<bar>v\<bar> = of_int \<bar>m\<bar> * 2 powi e"
    by (simp add: v abs_mult)
  also have "\<dots> < of_int (2 ^ 53) * 2 powi e"
    using m by (intro mult_strict_right_mono) (simp_all only: of_int_less_iff zero_less_power_int zero_less_numeral)
  also have "\<dots> \<le> of_int (2 ^ 53) * 2 powi 971"
  proof (rule mult_left_mono)
    show "(2 :: rat) powi e \<le> 2 powi 971" using e by (simp only: powi2_le_iff)
  qed simp
  also have "\<dots> = 2 ^ 1024"
    by simp
  finally show ?thesis .
qed

lemma fl_exact: "representable q \<Longrightarrow> fl q = DFin q"
proof (cases "q = 0")
  case False
  assume r: "representable q"
  obtain k where k: "q = of_int k * 2 powi ulp_exponent q"
    using representable_multiple [OF r False] by auto
  then have "q / 2 powi ulp_exponent q = of_int k"
    by (metis nonzero_mult_div_cancel_right power_int_eq_0_iff zero_neq_numeral)
  then have "of_int (round_half_even (q / 2 powi ulp_exponent q)) * 2 powi ulp_exponent q = q"
    using k by simp
  then show ?thesis
    using False representable_bound [OF r] by (simp add: fl_def Let_def)
qed (simp add: fl_def)

text \<open>Rounding a positive rational does not pass a representable upper bound.\<close>

lemma fl_le_representable:
  assumes "0 < q" and "q \<le> v" and "representable v"
  obtains w where "fl q = DFin w" and "0 \<le> w" and "w \<le> v"
proof -
  let ?u = "2 powi ulp_exponent q :: rat" and ?r = "round_half_even (q / 2 powi ulp_exponent q)"
  obtain k where k: "v = of_int k * ?u"
    using representable_multiple [OF assms(3), of q] assms(1,2) by auto
  have u: "?u > 0" by simp
  have "q / ?u \<le> of_int k"
    using assms(2) k u by (simp add: pos_divide_le_eq)
  then have "?r \<le> k" by (rule round_half_even_le)
  then have le: "of_int ?r * ?u \<le> v"
    unfolding k using u by (intro mult_right_mono) simp_all
  have "0 \<le> ?r"
    using assms(1) by (intro round_half_even_ge) simp
  then have ge: "0 \<le> of_int ?r * ?u" by simp
  have "\<bar>of_int ?r * ?u\<bar> < 2 ^ 1024"
    using le ge representable_bound [OF assms(3)] by linarith
  then have "fl q = DFin (of_int ?r * ?u)"
    using assms(1) by (simp add: fl_def Let_def)
  with le ge that show thesis by blast
qed

lemma ilog2_eqI:
  assumes "2 powi k \<le> q" and "q < 2 powi (k + 1)"
  shows "ilog2 q = k"
proof -
  have "0 < q" using assms(1) zero_less_power_int [of "2 :: rat" k] by linarith
  then have "2 powi ilog2 q < (2 :: rat) powi (k + 1)" "2 powi k < (2 :: rat) powi (ilog2 q + 1)"
    using ilog2_bounds [of q] assms by linarith+
  then show ?thesis by simp
qed

lemma representable_int: "\<bar>k\<bar> < 2 ^ 53 \<Longrightarrow> representable (of_int k)"
  unfolding representable_def by (rule exI [of _ k], rule exI [of _ 0]) simp

lemma representable_half: "\<bar>k\<bar> < 2 ^ 53 \<Longrightarrow> representable (of_int k / 2)"
  unfolding representable_def by (rule exI [of _ k], rule exI [of _ "- 1"]) (simp add: power_int_minus field_simps)

text \<open>Literals: small integers, and halves of them, are represented exactly.\<close>

lemma fl_numeral [simp]: "numeral n < (2 :: int) ^ 53 \<Longrightarrow> fl (numeral n) = DFin (numeral n)"
  using fl_exact [OF representable_int, of "numeral n"] by simp

lemma fl_0 [simp]: "fl 0 = DFin 0"
  by (simp add: fl_def)

lemma fl_1 [simp]: "fl 1 = DFin 1"
  using fl_exact [OF representable_int, of 1] by simp

lemma fl_half [simp]: "numeral n < (2 :: int) ^ 53 \<Longrightarrow> fl (numeral n / 2) = DFin (numeral n / 2)"
  using fl_exact [OF representable_half, of "numeral n"] by simp

lemma fl_one_half [simp]: "fl (1 / 2) = DFin (1 / 2)"
  using fl_exact [OF representable_half, of 1] by simp

lemma floor_rat_div [simp]:
  "\<lfloor>(numeral a / numeral b) :: rat\<rfloor> = numeral a div numeral b"
  "\<lfloor>(1 / numeral b) :: rat\<rfloor> = 1 div numeral b"
  using floor_divide_of_int_eq [where ?'a = rat, of "numeral a" "numeral b"]
    floor_divide_of_int_eq [where ?'a = rat, of 1 "numeral b"] by simp_all

text \<open>The values a \<open>double\<close> can have.\<close>

fun is_double :: "dbl \<Rightarrow> bool" where
  "is_double (DFin q) = representable q"
| "is_double _ = True"

section \<open>Dividing a coordinate range into cells of width 100\<close>

text \<open>
  A representable coordinate below \<open>1000 * 2 ^ j\<close> stays below \<open>10 * 2 ^ j\<close> when divided by 100:
  although the quotient is rounded, it is never rounded up to the bound. This is what the default
  world (1000 by 2000 units in 10 by 20 cells) needs.
\<close>

lemma representable_below:
  assumes "representable q" and "0 \<le> q" and "q < 1000 * 2 powi j"
  shows "q \<le> 1000 * 2 powi j - 2 powi (j - 43) \<or> j < - 1030"
proof (cases "q < 2 powi (j + 9)")
  case True
  have "(2 :: rat) powi (j - 43) \<le> 2 powi j" by simp
  moreover have "(2 :: rat) powi (j + 9) = 512 * 2 powi j" by (simp add: power_int_add)
  moreover have "(0 :: rat) < 2 powi j" by simp
  ultimately show ?thesis using True by linarith
next
  case False
  show ?thesis
  proof (cases "j < - 1030")
    case j: False
    have "ilog2 (2 powi (j + 9)) = j + 9" by (rule ilog2_eqI) simp_all
    then have u: "ulp_exponent (2 powi (j + 9)) = j - 43" using j by (simp add: ulp_exponent_def)
    obtain k where k: "q = of_int k * 2 powi (j - 43)"
      using representable_multiple [OF assms(1), of "2 powi (j + 9)"] False assms(2) u by auto
    have "(1000 :: rat) * 2 powi j = of_int (1000 * 2 ^ 43) * 2 powi (j - 43)"
      by (simp add: power_int_diff)
    with assms(3) k have "(of_int k :: rat) < of_int (1000 * 2 ^ 43)"
      by (metis mult_less_cancel_right_pos zero_less_power_int zero_less_numeral)
    then have "k + 1 \<le> 1000 * 2 ^ 43" by (simp only: of_int_less_iff)
    then have "(of_int (k + 1) :: rat) * 2 powi (j - 43) \<le> of_int (1000 * 2 ^ 43) * 2 powi (j - 43)"
      by (intro mult_right_mono) (simp_all only: of_int_le_iff, simp)
    with \<open>1000 * 2 powi j = _\<close> k show ?thesis by (simp add: algebra_simps)
  qed simp
qed

lemma fl_div_100_small:
  assumes "0 \<le> q" "q / 100 < 2 powi (j + 3)" "0 \<le> j" "j \<le> 10"
  obtains w where "fl (q / 100) = DFin w" and "0 \<le> w" and "w < 10 * 2 powi j"
proof (cases "q = 0")
  case True
  then show thesis using that [of 0] by simp
next
  case False
  have 8: "(2 :: rat) powi (j + 3) = 8 * 2 powi j" by (simp add: power_int_add)
  have rep: "representable (2 powi (j + 3))"
    unfolding representable_def by (rule exI [of _ 1], rule exI [of _ "j + 3"]) (use assms(3,4) in simp)
  have "0 < q / 100" using False assms(1) by simp
  then obtain w where w: "fl (q / 100) = DFin w" "0 \<le> w" "w \<le> 2 powi (j + 3)"
    using fl_le_representable [OF _ _ rep] assms(2) by (metis order_less_imp_le)
  have "w < 10 * 2 powi j"
    using w(3) 8 zero_less_power_int [of "2 :: rat" j] by linarith
  with w that show thesis by blast
qed

lemma fl_div_100_below:
  assumes "representable q" and "0 \<le> q" and "q < 1000 * 2 powi j" and "0 \<le> j" and "j \<le> 10"
  obtains w where "fl (q / 100) = DFin w" and "0 \<le> w" and "w < 10 * 2 powi j"
proof (cases "q / 100 < 2 powi (j + 3)")
  case True
  from fl_div_100_small [OF assms(2) this assms(4,5)] that show thesis by blast
next
  case False
  let ?z = "q / 100" and ?u = "2 powi (j - 49) :: rat"
  have P: "(2 :: rat) powi j = 2 ^ 49 * ?u" "(2 :: rat) powi (j - 43) = 2 ^ 6 * ?u"
    by (simp_all add: power_int_diff)
  have u: "0 < ?u" by simp
  have "q \<le> 1000 * 2 powi j - 2 powi (j - 43)"
    using representable_below [OF assms(1-3)] assms(4) by linarith
  then have z: "?z \<le> (10 * 2 ^ 49 - 64 / 100) * ?u"
    unfolding P by (simp add: field_simps)
  have "(10 * 2 ^ 49 - 64 / 100) * ?u < (16 * 2 ^ 49) * ?u"
    using u by (intro mult_strict_right_mono) simp_all
  also have "\<dots> = 2 powi (j + 3 + 1)"
    unfolding mult.assoc P(1) [symmetric] by (simp add: power_int_add)
  finally have "?z < 2 powi (j + 3 + 1)"
    using z by (rule order_le_less_trans [rotated])
  with False have "ilog2 ?z = j + 3" by (intro ilog2_eqI) simp_all
  then have e: "ulp_exponent ?z = j - 49" using assms(4) by (simp add: ulp_exponent_def)
  let ?r = "round_half_even (?z / ?u)"
  have "?z / ?u \<le> 10 * 2 ^ 49 - 64 / 100"
    using z u by (simp only: pos_divide_le_eq)
  then have "?z / ?u < of_int (10 * 2 ^ 49) - 1 / 2" by simp
  then have r: "?r < 10 * 2 ^ 49" by (rule round_half_even_below)
  have "0 \<le> ?r" using assms(2) by (intro round_half_even_ge) simp
  then have ge: "0 \<le> of_int ?r * ?u" by simp
  have "of_int ?r * ?u < of_int (10 * 2 ^ 49) * ?u"
    using r u by (intro mult_strict_right_mono) (simp_all only: of_int_less_iff)
  then have lt: "of_int ?r * ?u < 10 * 2 powi j" by (simp add: P)
  have "(2 :: rat) powi j \<le> 2 powi 10" using assms(5) by (simp only: powi2_le_iff)
  then have "\<bar>of_int ?r * ?u\<bar> < 2 ^ 1024" using lt ge by simp
  moreover have "?z \<noteq> 0" using False by auto
  ultimately have "fl ?z = DFin (of_int ?r * ?u)" by (simp add: fl_def Let_def e)
  with ge lt that show thesis by blast
qed

section \<open>Results are representable\<close>

lemma abs_round_half_even:
  "\<bar>z\<bar> \<le> of_int k \<Longrightarrow> \<bar>round_half_even z\<bar> \<le> k" "of_int k \<le> \<bar>z\<bar> \<Longrightarrow> k \<le> \<bar>round_half_even z\<bar>"
  using round_half_even_le[of z k] round_half_even_ge[of "- k" z] round_half_even_ge[of k z] round_half_even_le[of z "- k"]
  by (auto simp: abs_le_iff abs_if split: if_splits)

lemma powi2_shift: "(2 :: rat) powi (numeral n + e) = 2 ^ numeral n * 2 powi e"
  unfolding power_int_add[OF disjI1[OF zero_neq_numeral[symmetric]]] power_int_numeral ..

lemma scaled_bounds:
  assumes "q \<noteq> 0"
  shows "\<bar>q / 2 powi ulp_exponent q\<bar> \<le> 2 ^ 53"
    and "- 1074 < ulp_exponent q \<Longrightarrow> 2 ^ 52 \<le> \<bar>q / 2 powi ulp_exponent q\<bar>"
proof -
  let ?e = "ulp_exponent q"
  have pos: "(0 :: rat) < 2 powi ?e" by simp
  have "\<bar>q\<bar> \<le> 2 powi (ilog2 q + 1)" using ilog2_bounds(2)[OF assms] by simp
  also have "\<dots> \<le> 2 powi (53 + ?e)" by (simp add: ulp_exponent_def)
  also have "\<dots> = 2 ^ 53 * 2 powi ?e" by (rule powi2_shift)
  finally show "\<bar>q / 2 powi ?e\<bar> \<le> 2 ^ 53" using pos by (simp add: abs_divide pos_divide_le_eq)
  assume "- 1074 < ?e"
  then have "52 + ?e = ilog2 q" by (simp add: ulp_exponent_def max_def split: if_splits)
  then have "2 ^ 52 * 2 powi ?e \<le> \<bar>q\<bar>"
    using ilog2_bounds(1)[OF assms] powi2_shift[of _ ?e] by metis
  then show "2 ^ 52 \<le> \<bar>q / 2 powi ?e\<bar>" using pos by (simp add: abs_divide pos_le_divide_eq)
qed

lemma representable_scaled:
  assumes "\<bar>r\<bar> \<le> 2 ^ 53" "- 1074 \<le> e" "- 1074 < e \<Longrightarrow> 2 ^ 52 \<le> \<bar>r\<bar>" "\<bar>of_int r * 2 powi e :: rat\<bar> < 2 ^ 1024"
  shows "representable (of_int r * 2 powi e)"
proof (cases "e = - 1074 \<and> \<bar>r\<bar> < 2 ^ 53")
  case True
  then show ?thesis unfolding representable_def by (intro exI[of _ r] exI[of _ e]) auto
next
  case False
  have r: "2 ^ 52 \<le> \<bar>r\<bar>" using False assms(2,3) by auto
  have top: "of_int \<bar>r\<bar> * 2 powi e < (2 :: rat) ^ 1024"
    using assms(4) unfolding abs_mult by simp
  have below: "(2 :: rat) powi (numeral n + e) < 2 powi 1024" if "(2 :: int) ^ numeral n \<le> \<bar>r\<bar>" for n
  proof -
    have "(2 :: rat) ^ numeral n \<le> of_int \<bar>r\<bar>" using that by (metis of_int_le_iff of_int_numeral of_int_power)
    then have "(2 :: rat) ^ numeral n * 2 powi e \<le> of_int \<bar>r\<bar> * 2 powi e" by (intro mult_right_mono) auto
    with top show ?thesis unfolding powi2_shift power_int_numeral by (rule order_le_less_trans[rotated])
  qed
  have "(2 :: rat) powi (52 + e) < 2 powi 1024" using below r by blast
  then have e: "e \<le> 971" unfolding powi2_less_iff by simp
  show ?thesis
  proof (cases "\<bar>r\<bar> < 2 ^ 53")
    case True
    then show ?thesis using assms(2) e unfolding representable_def by blast
  next
    case False
    with assms(1) have r: "\<bar>r\<bar> = 2 ^ 53" by simp
    then have "(2 :: rat) powi (53 + e) < 2 powi 1024" using below by (metis order_refl)
    then have "e \<le> 970" unfolding powi2_less_iff by simp
    moreover have "of_int r * 2 powi e = (of_int (sgn r * 2 ^ 52) * 2 powi (e + 1) :: rat)"
    proof -
      have "r = sgn r * 2 ^ 53" using r by (metis sgn_mult_abs mult.commute)
      then have "(of_int r :: rat) = of_int (sgn r * 2 ^ 52) * 2" by (simp add: sgn_if split: if_splits)
      then show ?thesis by (simp add: power_int_add)
    qed
    moreover have "\<bar>sgn r * 2 ^ 52\<bar> < 2 ^ 53" by (simp add: abs_mult sgn_if)
    ultimately show ?thesis using assms(2) unfolding representable_def
      by (intro exI[of _ "sgn r * 2 ^ 52"] exI[of _ "e + 1"]) auto
  qed
qed

lemma fl_is_double: "is_double (fl q)"
proof (cases "q = 0")
  case True
  then show ?thesis using representable_int[of 0] by simp
next
  case False
  let ?e = "ulp_exponent q" and ?r = "round_half_even (q / 2 powi ulp_exponent q)"
  have "\<bar>?r\<bar> \<le> 2 ^ 53" using abs_round_half_even(1)[of _ "2 ^ 53"] scaled_bounds(1)[OF False] by simp
  moreover have "- 1074 < ?e \<Longrightarrow> 2 ^ 52 \<le> \<bar>?r\<bar>"
    using abs_round_half_even(2)[of "2 ^ 52"] scaled_bounds(2)[OF False] by simp
  moreover have "- 1074 \<le> ?e" by (simp add: ulp_exponent_def)
  ultimately have "\<bar>of_int ?r * 2 powi ?e :: rat\<bar> < 2 ^ 1024 \<Longrightarrow> representable (of_int ?r * 2 powi ?e)"
    using representable_scaled by blast
  then show ?thesis using False by (auto simp: fl_def Let_def)
qed

text \<open>Rounding of a given number in a given binade.\<close>

lemma fl_normal:
  assumes "2 powi k \<le> q" "q < 2 powi (k + 1)" "- 1022 \<le> k"
    and "of_int m - 1 / 2 < q * 2 powi (52 - k)" "q * 2 powi (52 - k) < of_int m + 1 / 2"
    and "\<bar>of_int m * 2 powi (k - 52) :: rat\<bar> < 2 ^ 1024"
  shows "fl q = DFin (of_int m * 2 powi (k - 52))"
proof -
  have q: "0 < q" using assms(1) zero_less_power_int[of "2 :: rat" k] by linarith
  have e: "ulp_exponent q = k - 52" using ilog2_eqI[OF assms(1,2)] assms(3) by (simp add: ulp_exponent_def)
  have z: "q / 2 powi (k - 52) = q * 2 powi (52 - k)"
    by (simp add: divide_inverse flip: power_int_minus)
  have "round_half_even (q / 2 powi (k - 52)) = m"
  proof -
    let ?z = "q * 2 powi (52 - k)"
    have "\<lfloor>?z\<rfloor> = m \<and> ?z - of_int m < 1 / 2 \<or> \<lfloor>?z\<rfloor> = m - 1 \<and> 1 / 2 < ?z - of_int (m - 1)"
      using assms(4,5) by (auto simp: floor_eq_iff)
    then show ?thesis unfolding z round_half_even_def Let_def by auto
  qed
  with q assms(6) show ?thesis by (simp add: fl_def Let_def e)
qed

end
