(* ===== verification/Aoi_World.thy ===== *)
theory Aoi_World
  imports Ieee_Double
begin

text \<open>
  The grid area-of-interest world of \<open>include/mmo/game/aoi_world.h\<close> and
  \<open>src/game/aoi_world.cpp\<close>. Every method is a definition over the class's members; a method that
  indexes a vector out of range, converts a \<open>double\<close> outside the range of \<open>std::size_t\<close> or calls
  \<open>value()\<close> on an empty optional ends in a \<open>fault\<close>. The invariant ties the cells to the player
  table; under it the methods are refined to a specification in which a player sees exactly the
  other players whose cell is at most one row and one column away.
\<close>

section \<open>State\<close>

type_synonym PlayerId = u64

record Position =
  pos_x :: dbl
  pos_y :: dbl

record AoiConfig =
  min_x :: dbl
  max_x :: dbl
  min_y :: dbl
  max_y :: dbl
  columns :: u64
  rows :: u64

record ViewDelta =
  entered :: "PlayerId set"
  left :: "PlayerId set"
  stayed :: "PlayerId set"

record PlayerState =
  position :: Position
  grid_index :: u64

record AoiWorld =
  aoi_config :: AoiConfig
  cell_width :: dbl
  cell_height :: dbl
  grids :: "PlayerId set list"
  players :: "(PlayerId, PlayerState) umap"

section \<open>Operations\<close>

text \<open>
  \<open>grids_.resize(n)\<close> throws \<open>length_error\<close> above \<open>max_size()\<close>, which is at most
  \<open>PTRDIFF_MAX\<close>; the product \<open>columns * rows\<close> wraps at 64 bits before that.
\<close>

definition AoiWorld_new :: "AoiConfig \<Rightarrow> AoiWorld outcome" where
  "AoiWorld_new config =
     (if \<not> d_less (min_x config) (max_x config) \<or> \<not> d_less (min_y config) (max_y config) \<or>
         columns config = 0 \<or> rows config = 0
      then Inl (Throw (invalid_argument ''invalid AOI world configuration''))
      else if unat (columns config * rows config) \<ge> 2 ^ 63
      then Inl (Throw (length_error ''vector::resize''))
      else Inr \<lparr>aoi_config = config,
        cell_width = d_div (d_sub (max_x config) (min_x config)) (size_t_to_double (columns config)),
        cell_height = d_div (d_sub (max_y config) (min_y config)) (size_t_to_double (rows config)),
        grids = replicate (unat (columns config * rows config)) {},
        players = um_empty\<rparr>)"

definition AoiWorld_Contains :: "AoiWorld \<Rightarrow> PlayerId \<Rightarrow> bool" where
  "AoiWorld_Contains w player_id \<longleftrightarrow> um_contains (players w) player_id"

definition AoiWorld_PlayerCount :: "AoiWorld \<Rightarrow> nat" where
  "AoiWorld_PlayerCount w = um_size (players w)"

definition GridIndexFor :: "AoiWorld \<Rightarrow> Position \<Rightarrow> u64 option outcome" where
  "GridIndexFor w pos =
     (let c = aoi_config w in
      if d_less (pos_x pos) (min_x c) \<or> d_ge (pos_x pos) (max_x c) \<or>
         d_less (pos_y pos) (min_y c) \<or> d_ge (pos_y pos) (max_y c)
      then Inr None
      else
        outcome_bind (double_to_size_t (d_div (d_sub (pos_x pos) (min_x c)) (cell_width w))) (\<lambda>column.
        outcome_bind (double_to_size_t (d_div (d_sub (pos_y pos) (min_y c)) (cell_height w))) (\<lambda>row.
        if column \<ge> columns c \<or> row \<ge> rows c then Inr None
        else Inr (Some (row * columns c + column)))))"

definition NeighborGridIndices :: "AoiWorld \<Rightarrow> u64 \<Rightarrow> u64 list" where
  "NeighborGridIndices w grid_idx =
     (let c = aoi_config w;
          center_row = grid_idx div columns c;
          center_column = grid_idx mod columns c
      in concat (map (\<lambda>row_offset :: int.
           let row = sint center_row + row_offset in
           if row < 0 \<or> row \<ge> sint (rows c) then []
           else concat (map (\<lambda>column_offset :: int.
             let column = sint center_column + column_offset in
             if column < 0 \<or> column \<ge> sint (columns c) then []
             else [of_int row * columns c + of_int column])
             [-1, 0, 1]))
           [-1, 0, 1]))"

fun collect_cells :: "PlayerId set list \<Rightarrow> u64 list \<Rightarrow> PlayerId set \<Rightarrow> PlayerId set outcome" where
  "collect_cells gs [] visible = Inr visible"
| "collect_cells gs (neighbor # rest) visible =
     outcome_bind (vec_at gs neighbor) (\<lambda>cell. collect_cells gs rest (visible \<union> cell))"

definition VisiblePlayersAt :: "AoiWorld \<Rightarrow> Position \<Rightarrow> PlayerId set outcome" where
  "VisiblePlayersAt w pos =
     outcome_bind (GridIndexFor w pos) (\<lambda>grid_idx.
       case grid_idx of
         None \<Rightarrow> Inr {}
       | Some i \<Rightarrow> collect_cells (grids w) (NeighborGridIndices w i) {})"

definition VisiblePlayers :: "AoiWorld \<Rightarrow> PlayerId \<Rightarrow> PlayerId set option outcome" where
  "VisiblePlayers w player_id =
     (case um_find (players w) player_id of
        None \<Rightarrow> Inr None
      | Some player \<Rightarrow>
          outcome_bind (VisiblePlayersAt w (position player)) (\<lambda>visible.
            Inr (Some (visible - {player_id}))))"

definition AddPlayer :: "PlayerId \<Rightarrow> Position \<Rightarrow> AoiWorld \<Rightarrow> (bool \<times> AoiWorld) outcome" where
  "AddPlayer player_id pos w =
     (if AoiWorld_Contains w player_id then Inr (False, w)
      else
        outcome_bind (GridIndexFor w pos) (\<lambda>grid_idx.
          case grid_idx of
            None \<Rightarrow> Inr (False, w)
          | Some i \<Rightarrow>
              let w = w\<lparr>players := um_emplace player_id \<lparr>position = pos, grid_index = i\<rparr> (players w)\<rparr> in
              outcome_bind (vec_modify (grids w) i (insert player_id)) (\<lambda>gs.
                Inr (True, w\<lparr>grids := gs\<rparr>))))"

definition RemovePlayer :: "PlayerId \<Rightarrow> AoiWorld \<Rightarrow> (bool \<times> AoiWorld) outcome" where
  "RemovePlayer player_id w =
     (case um_find (players w) player_id of
        None \<Rightarrow> Inr (False, w)
      | Some player \<Rightarrow>
          outcome_bind (vec_modify (grids w) (grid_index player) (\<lambda>cell. cell - {player_id})) (\<lambda>gs.
            Inr (True, w\<lparr>grids := gs, players := um_erase player_id (players w)\<rparr>)))"

text \<open>\<open>optional::value()\<close>\<close>

definition optional_value :: "'a option \<Rightarrow> 'a outcome" where
  "optional_value opt = (case opt of None \<Rightarrow> Inl (Throw bad_optional_access) | Some x \<Rightarrow> Inr x)"

definition MovePlayer ::
    "PlayerId \<Rightarrow> Position \<Rightarrow> AoiWorld \<Rightarrow> (ViewDelta option \<times> AoiWorld) outcome" where
  "MovePlayer player_id new_position w =
     outcome_bind (GridIndexFor w new_position) (\<lambda>new_grid_index.
       case (um_find (players w) player_id, new_grid_index) of
         (Some player, Some new_index) \<Rightarrow>
           outcome_bind (VisiblePlayers w player_id) (\<lambda>opt.
           outcome_bind (optional_value opt) (\<lambda>old_visible.
           let old_index = grid_index player in
           outcome_bind
             (if old_index \<noteq> new_index
              then outcome_bind (vec_modify (grids w) old_index (\<lambda>cell. cell - {player_id})) (\<lambda>gs.
                   vec_modify gs new_index (insert player_id))
              else Inr (grids w)) (\<lambda>gs.
           let w = w\<lparr>grids := gs,
                 players := um_put player_id
                   (player\<lparr>position := new_position, grid_index := new_index\<rparr>) (players w)\<rparr> in
           outcome_bind (VisiblePlayers w player_id) (\<lambda>opt.
           outcome_bind (optional_value opt) (\<lambda>new_visible.
           Inr (Some \<lparr>entered = new_visible - old_visible,
                      left = old_visible - new_visible,
                      stayed = old_visible \<inter> new_visible\<rparr>, w))))))
       | _ \<Rightarrow> Inr (None, w))"

text \<open>The world of a default \<open>GameConfig\<close> (\<open>include/mmo/game/game_service.h\<close>).\<close>

definition default_aoi_config :: AoiConfig where
  "default_aoi_config = \<lparr>min_x = DFin 0, max_x = DFin 1000, min_y = DFin 0, max_y = DFin 2000,
     columns = 10, rows = 20\<rparr>"

text \<open>A client of the world: a sequence of calls.\<close>

datatype aoi_op = OpAdd PlayerId Position | OpRemove PlayerId | OpMove PlayerId Position

fun aoi_exec :: "aoi_op \<Rightarrow> AoiWorld \<Rightarrow> AoiWorld outcome" where
  "aoi_exec (OpAdd p pos) w = outcome_bind (AddPlayer p pos w) (\<lambda>(_, w). Inr w)"
| "aoi_exec (OpRemove p) w = outcome_bind (RemovePlayer p w) (\<lambda>(_, w). Inr w)"
| "aoi_exec (OpMove p pos) w = outcome_bind (MovePlayer p pos w) (\<lambda>(_, w). Inr w)"

fun aoi_run :: "aoi_op list \<Rightarrow> AoiWorld \<Rightarrow> AoiWorld outcome" where
  "aoi_run [] w = Inr w"
| "aoi_run (op # ops) w = outcome_bind (aoi_exec op w) (aoi_run ops)"

fun op_position :: "aoi_op \<Rightarrow> Position set" where
  "op_position (OpAdd p pos) = {pos}"
| "op_position (OpRemove p) = {}"
| "op_position (OpMove p pos) = {pos}"

section \<open>Specification\<close>

text \<open>Configurations whose number of cells does not wrap, and the row and column of a cell.\<close>

definition aoi_config_ok :: "AoiConfig \<Rightarrow> bool" where
  "aoi_config_ok c \<longleftrightarrow> columns c \<noteq> 0 \<and> rows c \<noteq> 0 \<and> unat (rows c) * unat (columns c) < 2 ^ 63"

definition cell_count :: "AoiConfig \<Rightarrow> nat" where
  "cell_count c = unat (rows c) * unat (columns c)"

definition cell_row :: "AoiConfig \<Rightarrow> u64 \<Rightarrow> nat" where
  "cell_row c i = unat i div unat (columns c)"

definition cell_col :: "AoiConfig \<Rightarrow> u64 \<Rightarrow> nat" where
  "cell_col c i = unat i mod unat (columns c)"

definition adjacent :: "nat \<Rightarrow> nat \<Rightarrow> bool" where
  "adjacent a b \<longleftrightarrow> a \<le> Suc b \<and> b \<le> Suc a"

definition near :: "AoiConfig \<Rightarrow> u64 \<Rightarrow> u64 \<Rightarrow> bool" where
  "near c i j \<longleftrightarrow> adjacent (cell_row c i) (cell_row c j) \<and> adjacent (cell_col c i) (cell_col c j)"

text \<open>
  The cell recorded for a player is the cell of its recorded position, and the cells partition the
  player table.
\<close>

definition aoi_inv :: "AoiWorld \<Rightarrow> bool" where
  "aoi_inv w \<longleftrightarrow> aoi_config_ok (aoi_config w) \<and> length (grids w) = cell_count (aoi_config w) \<and>
     um_invar (players w) \<and>
     (\<forall>p st. um_find (players w) p = Some st \<longrightarrow>
        GridIndexFor w (position st) = Inr (Some (grid_index st))) \<and>
     (\<forall>i < length (grids w).
        grids w ! i = {p. \<exists>st. um_find (players w) p = Some st \<and> unat (grid_index st) = i})"

definition tracked :: "AoiWorld \<Rightarrow> PlayerId \<rightharpoonup> Position" where
  "tracked w p = map_option position (um_find (players w) p)"

definition sees :: "AoiWorld \<Rightarrow> PlayerId \<Rightarrow> PlayerId set" where
  "sees w p = {q. q \<noteq> p \<and> (\<exists>st st'. um_find (players w) p = Some st \<and>
     um_find (players w) q = Some st' \<and> near (aoi_config w) (grid_index st) (grid_index st'))}"

section \<open>Cell arithmetic\<close>

lemma columns_pos: "aoi_config_ok c \<Longrightarrow> unat (columns c) > 0"
  by (simp add: aoi_config_ok_def unat_gt_0)

lemma cell_row_less: "aoi_config_ok c \<Longrightarrow> unat i < cell_count c \<Longrightarrow> cell_row c i < unat (rows c)"
  by (simp add: cell_row_def cell_count_def less_mult_imp_div_less)

lemma cell_col_less: "aoi_config_ok c \<Longrightarrow> cell_col c i < unat (columns c)"
  by (simp add: cell_col_def columns_pos)

lemma cell_bounds:
  assumes "aoi_config_ok c"
  shows "unat (rows c) < 2 ^ 63" "unat (columns c) < 2 ^ 63"
proof -
  have "rows c \<noteq> 0" "columns c \<noteq> 0" "unat (rows c) * unat (columns c) < 2 ^ 63"
    using assms by (auto simp: aoi_config_ok_def)
  then show "unat (rows c) < 2 ^ 63" "unat (columns c) < 2 ^ 63"
    by (metis (no_types) Suc_leI mult.right_neutral mult_le_mono2 order_le_less_trans unat_gt_0 One_nat_def,
        metis (no_types) Suc_leI mult.left_neutral mult_le_mono1 order_le_less_trans unat_gt_0 One_nat_def)
qed

lemma unat_cell: "aoi_config_ok c \<Longrightarrow> r < unat (rows c) \<Longrightarrow> k < unat (columns c) \<Longrightarrow>
    unat (of_nat r * columns c + of_nat k) = r * unat (columns c) + k \<and>
    r * unat (columns c) + k < cell_count c"
proof -
  assume ok: "aoi_config_ok c" and r: "r < unat (rows c)" and k: "k < unat (columns c)"
  have u: "unat (of_nat r :: u64) = r" "unat (of_nat k :: u64) = k"
    using cell_bounds [OF ok] r k by (simp_all add: unat_of_nat)
  show ?thesis
    using unat_linear [of "of_nat r" "unat (rows c)" "of_nat k" "columns c"] u r k ok
    by (simp add: aoi_config_ok_def cell_count_def)
qed

lemma cell_row_col_of:
  assumes "aoi_config_ok c" "r < unat (rows c)" "k < unat (columns c)"
  shows "cell_row c (of_nat r * columns c + of_nat k) = r" "cell_col c (of_nat r * columns c + of_nat k) = k"
  using unat_cell [OF assms] assms(3) by (simp_all add: cell_row_def cell_col_def)

lemma cell_index_split:
  assumes "aoi_config_ok c" "unat i < cell_count c"
  shows "i = of_nat (cell_row c i) * columns c + of_nat (cell_col c i)"
proof -
  have "unat (of_nat (cell_row c i) * columns c + of_nat (cell_col c i)) = unat i"
    using unat_cell [OF assms(1) cell_row_less [OF assms] cell_col_less [OF assms(1)], of i]
    by (simp add: cell_row_def cell_col_def)
  then show ?thesis by (metis word_unat_eq_iff)
qed

lemma in_guarded_grid:
  "j \<in> set (concat (map (\<lambda>d. let row = a + d in if row < 0 \<or> row \<ge> R then []
       else concat (map (\<lambda>d'. let col = b + d' in if col < 0 \<or> col \<ge> C then [] else [g row col]) ys)) xs)) \<longleftrightarrow>
     (\<exists>d\<in>set xs. \<exists>d'\<in>set ys. 0 \<le> a + d \<and> a + d < (R :: int) \<and> 0 \<le> b + d' \<and> b + d' < (C :: int) \<and>
        j = g (a + d) (b + d'))"
  unfolding Let_def set_concat set_map by (force split: if_splits)

text \<open>Going by the offsets from -1 to 1 and keeping to the grid gives the adjacent rows and columns.\<close>

lemma offset_cells:
  fixes columns :: u64
  shows "{of_int (int cr + d) * columns + of_int (int cc + d') | d d'. d \<in> {- 1, 0, 1} \<and> d' \<in> {- 1, 0, 1} \<and>
      0 \<le> int cr + d \<and> int cr + d < int R \<and> 0 \<le> int cc + d' \<and> int cc + d' < int C} =
    {of_nat r * columns + of_nat k | r k. r < R \<and> k < C \<and> adjacent cr r \<and> adjacent cc k}" (is "?L = ?R")
proof
  show "?L \<subseteq> ?R"
  proof
    fix j assume "j \<in> ?L"
    then obtain d d' where j: "j = of_int (int cr + d) * columns + of_int (int cc + d')" and d: "d \<in> {- 1, 0, 1}" "d' \<in> {- 1, 0, 1}"
        "0 \<le> int cr + d" "int cr + d < int R" "0 \<le> int cc + d'" "int cc + d' < int C" by blast
    obtain r k where rk: "int cr + d = int r" "int cc + d' = int k" using d(3,5) nonneg_int_cases by metis
    then have "r < R" "k < C" "adjacent cr r" "adjacent cc k" using d by (auto simp: adjacent_def)
    moreover have "j = of_nat r * columns + of_nat k" unfolding j rk by simp
    ultimately show "j \<in> ?R" by blast
  qed
  show "?R \<subseteq> ?L"
  proof
    fix j assume "j \<in> ?R"
    then obtain r k where j: "j = of_nat r * columns + of_nat k" "r < R" "k < C" "adjacent cr r" "adjacent cc k" by blast
    have "int r - int cr \<in> {- 1, 0, 1}" "int k - int cc \<in> {- 1, 0, 1}" using j(4,5) by (auto simp: adjacent_def)
    then show "j \<in> ?L"
      unfolding mem_Collect_eq j(1) using j(2,3)
      by - (rule exI [of _ "int r - int cr"], rule exI [of _ "int k - int cc"], simp)
  qed
qed

lemma set_NeighborGridIndices:
  assumes ok: "aoi_config_ok (aoi_config w)" and i: "unat i < cell_count (aoi_config w)"
  shows "set (NeighborGridIndices w i) = {j. unat j < cell_count (aoi_config w) \<and> near (aoi_config w) i j}"
proof -
  let ?c = "aoi_config w"
  let ?cr = "cell_row ?c i" and ?cc = "cell_col ?c i"
  have s: "sint (i div columns ?c) = int ?cr" "sint (i mod columns ?c) = int ?cc"
      "sint (rows ?c) = int (unat (rows ?c))" "sint (columns ?c) = int (unat (columns ?c))"
    using cell_bounds [OF ok] cell_row_less [OF ok i] cell_col_less [OF ok, of i]
    by (subst sint_small; simp add: unat_div unat_mod cell_row_def cell_col_def)+
  define D where "D = [- 1, 0, 1 :: int]"
  have "set (NeighborGridIndices w i) =
      {of_int (int ?cr + d) * columns ?c + of_int (int ?cc + d') | d d'.
        d \<in> set D \<and> d' \<in> set D \<and> 0 \<le> int ?cr + d \<and> int ?cr + d < int (unat (rows ?c)) \<and>
        0 \<le> int ?cc + d' \<and> int ?cc + d' < int (unat (columns ?c))}"
    unfolding NeighborGridIndices_def Let_def [of "aoi_config w"] Let_def [of "_ div _"] Let_def [of "_ mod _"]
      s D_def [symmetric]
    by (rule set_eqI, subst in_guarded_grid) blast
  also have "\<dots> = {of_nat r * columns ?c + of_nat k | r k. r < unat (rows ?c) \<and> k < unat (columns ?c) \<and>
        adjacent ?cr r \<and> adjacent ?cc k}"
    using offset_cells [of ?cr "columns ?c" ?cc "unat (rows ?c)" "unat (columns ?c)"] unfolding D_def list.set .
  also have "\<dots> = {j. unat j < cell_count ?c \<and> near ?c i j}"
    using unat_cell [OF ok] cell_row_col_of [OF ok] cell_index_split [OF ok]
      cell_row_less [OF ok] cell_col_less [OF ok]
    by (auto simp: near_def) metis
  finally show ?thesis .
qed

section \<open>The operations implement the specification\<close>

lemma GridIndexFor_frame [simp]:
  "GridIndexFor (w\<lparr>grids := gs\<rparr>) pos = GridIndexFor w pos"
  "GridIndexFor (w\<lparr>players := ps\<rparr>) pos = GridIndexFor w pos"
  by (simp_all add: GridIndexFor_def Let_def cong: if_cong)

lemma GridIndexFor_in_range:
  assumes "aoi_config_ok (aoi_config w)" and "GridIndexFor w pos = Inr (Some i)"
  shows "unat i < cell_count (aoi_config w)"
proof -
  obtain r k where i: "i = r * columns (aoi_config w) + k" and "k < columns (aoi_config w)"
      "r < rows (aoi_config w)"
    using assms(2) by (auto simp: GridIndexFor_def Let_def outcome_bind_Inr_iff not_le split: if_splits)
  then show ?thesis
    using unat_linear [of r "unat (rows (aoi_config w))" k "columns (aoi_config w)"] assms(1)
    by (simp add: word_less_nat_alt aoi_config_ok_def cell_count_def)
qed

lemma aoi_inv_index:
  "aoi_inv w \<Longrightarrow> um_find (players w) p = Some st \<Longrightarrow> unat (grid_index st) < cell_count (aoi_config w)"
  by (meson GridIndexFor_in_range aoi_inv_def)

lemma aoi_inv_umap: "aoi_inv w \<Longrightarrow> um_invar (players w)"
  by (simp add: aoi_inv_def)

lemma collect_cells_union:
  "\<forall>n\<in>set ns. unat n < length gs \<Longrightarrow>
     collect_cells gs ns V = Inr (V \<union> (\<Union>n\<in>set ns. gs ! unat n))"
  by (induction ns arbitrary: V) (auto simp: vec_at_def)

lemma VisiblePlayersAt_spec:
  assumes inv: "aoi_inv w" and i: "GridIndexFor w pos = Inr (Some i)"
  shows "VisiblePlayersAt w pos = Inr {q. \<exists>st. um_find (players w) q = Some st \<and>
    near (aoi_config w) i (grid_index st)}"
proof -
  have ok: "aoi_config_ok (aoi_config w)" using inv by (simp add: aoi_inv_def)
  have n: "set (NeighborGridIndices w i) = {j. unat j < cell_count (aoi_config w) \<and> near (aoi_config w) i j}"
    by (rule set_NeighborGridIndices [OF ok GridIndexFor_in_range [OF ok i]])
  have "(\<Union>n\<in>set (NeighborGridIndices w i). grids w ! unat n) =
      {q. \<exists>st. um_find (players w) q = Some st \<and> near (aoi_config w) i (grid_index st)}"
    using inv aoi_inv_index [OF inv] unfolding n aoi_inv_def by (auto simp flip: word_unat_eq_iff)
  then show ?thesis
    using inv unfolding VisiblePlayersAt_def i by (simp add: collect_cells_union n aoi_inv_def)
qed

lemma VisiblePlayers_spec:
  assumes "aoi_inv w"
  shows "VisiblePlayers w p = Inr (if tracked w p = None then None else Some (sees w p))"
proof (cases "um_find (players w) p")
  case (Some st)
  then have "GridIndexFor w (position st) = Inr (Some (grid_index st))"
    using assms by (simp add: aoi_inv_def)
  with Some VisiblePlayersAt_spec [OF assms this] show ?thesis
    by (auto simp: VisiblePlayers_def tracked_def sees_def)
qed (simp add: VisiblePlayers_def tracked_def)

lemma near_sym: "near c i j \<longleftrightarrow> near c j i"
  by (auto simp: near_def adjacent_def)

text \<open>Replacing, adding or removing one player's cell keeps the partition.\<close>

lemma aoi_inv_update:
  assumes inv: "aoi_inv w" and i: "GridIndexFor w pos = Inr (Some i)"
    and ps: "um_find ps = (um_find (players w))(p \<mapsto> \<lparr>position = pos, grid_index = i\<rparr>)" "um_invar ps"
    and gs: "length gs = length (grids w)"
      "\<And>k. k < length gs \<Longrightarrow> gs ! k = grids w ! k - {p} \<union> (if k = unat i then {p} else {})"
  shows "aoi_inv (w\<lparr>grids := gs, players := ps\<rparr>)"
  using inv i ps gs unfolding aoi_inv_def by (auto split: if_splits)

lemma aoi_inv_drop:
  assumes inv: "aoi_inv w"
    and ps: "um_find ps = (um_find (players w))(p := None)" "um_invar ps"
    and gs: "length gs = length (grids w)" "\<And>k. k < length gs \<Longrightarrow> gs ! k = grids w ! k - {p}"
  shows "aoi_inv (w\<lparr>grids := gs, players := ps\<rparr>)"
  using inv ps gs unfolding aoi_inv_def by (auto split: if_splits)

lemma tracked_None_iff [simp]: "tracked w p = None \<longleftrightarrow> um_find (players w) p = None"
  by (simp add: tracked_def)

lemma tracked_update:
  "um_find ps = (um_find (players w))(p \<mapsto> \<lparr>position = pos, grid_index = i\<rparr>) \<Longrightarrow>
     tracked (w\<lparr>grids := gs, players := ps\<rparr>) = (tracked w)(p \<mapsto> pos)"
  by (auto simp: tracked_def fun_eq_iff)

lemma GridIndexFor_length:
  "aoi_inv w \<Longrightarrow> GridIndexFor w pos = Inr (Some i) \<Longrightarrow> unat i < length (grids w)"
  by (simp add: aoi_inv_def GridIndexFor_in_range)

lemma AddPlayer_inside:
  assumes inv: "aoi_inv w" and new: "tracked w p = None" and i: "GridIndexFor w pos = Inr (Some i)"
  shows "\<exists>w'. AddPlayer p pos w = Inr (True, w') \<and> aoi_inv w' \<and> tracked w' = (tracked w)(p \<mapsto> pos) \<and>
    GridIndexFor w' = GridIndexFor w"
proof -
  let ?ps = "um_emplace p \<lparr>position = pos, grid_index = i\<rparr> (players w)"
  let ?gs = "(grids w)[unat i := insert p (grids w ! unat i)]"
  have ps: "um_find ?ps = (um_find (players w))(p \<mapsto> \<lparr>position = pos, grid_index = i\<rparr>)" "um_invar ?ps"
    using new inv by (simp_all add: aoi_inv_def)
  have "\<And>k. k < length (grids w) \<Longrightarrow> p \<notin> grids w ! k"
    using inv new by (auto simp: aoi_inv_def)
  then have "aoi_inv (w\<lparr>grids := ?gs, players := ?ps\<rparr>)"
    using GridIndexFor_length [OF inv i] by (intro aoi_inv_update [OF inv i ps]) (auto simp: nth_list_update)
  moreover have "AddPlayer p pos w = Inr (True, w\<lparr>grids := ?gs, players := ?ps\<rparr>)"
    using new i GridIndexFor_length [OF inv i]
    by (simp add: AddPlayer_def AoiWorld_Contains_def vec_modify_def Let_def)
  ultimately show ?thesis
    using tracked_update [OF ps(1)] by (auto simp: fun_eq_iff)
qed

lemma RemovePlayer_spec:
  assumes inv: "aoi_inv w"
  shows "\<exists>w'. RemovePlayer p w = Inr (tracked w p \<noteq> None, w') \<and> aoi_inv w' \<and>
    tracked w' = (tracked w)(p := None) \<and> GridIndexFor w' = GridIndexFor w"
proof (cases "um_find (players w) p")
  case None
  then show ?thesis using inv by (auto simp: RemovePlayer_def tracked_def fun_eq_iff)
next
  case (Some st)
  let ?ps = "um_erase p (players w)"
  let ?gs = "(grids w)[unat (grid_index st) := grids w ! unat (grid_index st) - {p}]"
  have len: "unat (grid_index st) < length (grids w)"
    using aoi_inv_index [OF inv Some] inv by (simp add: aoi_inv_def)
  have "\<And>k. k < length (grids w) \<Longrightarrow> p \<in> grids w ! k \<longleftrightarrow> k = unat (grid_index st)"
    using inv Some by (auto simp: aoi_inv_def)
  then have "aoi_inv (w\<lparr>grids := ?gs, players := ?ps\<rparr>)"
    using len aoi_inv_umap [OF inv] by (intro aoi_inv_drop [OF inv]) (auto simp: nth_list_update)
  moreover have "RemovePlayer p w = Inr (True, w\<lparr>grids := ?gs, players := ?ps\<rparr>)"
    using Some len by (simp add: RemovePlayer_def vec_modify_def)
  ultimately show ?thesis
    using Some by (auto simp: tracked_def fun_eq_iff)
qed

lemma sees_frame:
  assumes "um_find (players w') = (um_find (players w))(p \<mapsto> st)" and "aoi_config w' = aoi_config w"
    and "q \<noteq> p"
  shows "sees w' q - {p} = sees w q - {p}"
  using assms by (auto simp: sees_def)

lemma PlayerState_set [simp]:
  "st\<lparr>position := pos, grid_index := i\<rparr> = \<lparr>position = pos, grid_index = i\<rparr>"
  by (cases st) simp

lemma MovePlayer_inside:
  assumes inv: "aoi_inv w" and old: "tracked w p \<noteq> None" and i: "GridIndexFor w pos = Inr (Some i)"
  shows "\<exists>w'. MovePlayer p pos w = Inr (Some \<lparr>entered = sees w' p - sees w p, left = sees w p - sees w' p,
      stayed = sees w p \<inter> sees w' p\<rparr>, w') \<and> aoi_inv w' \<and> tracked w' = (tracked w)(p \<mapsto> pos) \<and>
    GridIndexFor w' = GridIndexFor w \<and> (\<forall>q. q \<noteq> p \<longrightarrow> sees w' q - {p} = sees w q - {p})"
proof -
  obtain st where st: "um_find (players w) p = Some st" using old by auto
  let ?o = "grid_index st"
  let ?g1 = "(grids w)[unat ?o := grids w ! unat ?o - {p}]"
  let ?gs = "if ?o \<noteq> i then ?g1[unat i := insert p (?g1 ! unat i)] else grids w"
  let ?ps = "um_put p \<lparr>position = pos, grid_index = i\<rparr> (players w)"
  let ?w = "w\<lparr>grids := ?gs, players := ?ps\<rparr>"
  have len: "unat ?o < length (grids w)" "unat i < length (grids w)"
    using aoi_inv_index [OF inv st] GridIndexFor_length [OF inv i] inv by (simp_all add: aoi_inv_def)
  have ps: "um_find ?ps = (um_find (players w))(p \<mapsto> \<lparr>position = pos, grid_index = i\<rparr>)" "um_invar ?ps"
    using inv by (simp_all add: aoi_inv_def)
  have "\<And>k. k < length (grids w) \<Longrightarrow> p \<in> grids w ! k \<longleftrightarrow> k = unat ?o"
    using inv st by (auto simp: aoi_inv_def)
  then have inv': "aoi_inv ?w"
    using len by (intro aoi_inv_update [OF inv i ps])
      (auto simp: nth_list_update word_unat_eq_iff split: if_splits)
  have "MovePlayer p pos w = Inr (Some \<lparr>entered = sees ?w p - sees w p, left = sees w p - sees ?w p,
      stayed = sees w p \<inter> sees ?w p\<rparr>, ?w)"
    using st i len VisiblePlayers_spec [OF inv, of p] VisiblePlayers_spec [OF inv', of p]
    by (auto simp: MovePlayer_def Let_def vec_modify_def optional_value_def)
  moreover have "\<forall>q. q \<noteq> p \<longrightarrow> sees ?w q - {p} = sees w q - {p}"
    using sees_frame [of ?w w p] ps(1) by simp
  ultimately show ?thesis
    using inv' tracked_update [OF ps(1)] by (auto simp: fun_eq_iff)
qed

section \<open>The interface the game service relies on\<close>

text \<open>
  Players at positions, a symmetric view relation on them, and what each operation reports about
  the views before and after it. \<open>locate\<close> is the cell of a position: a fault, no cell (outside
  the map), or a cell.
\<close>

locale area_of_interest =
  fixes add :: "PlayerId \<Rightarrow> Position \<Rightarrow> 'w \<Rightarrow> (bool \<times> 'w) outcome"
    and remove :: "PlayerId \<Rightarrow> 'w \<Rightarrow> (bool \<times> 'w) outcome"
    and move :: "PlayerId \<Rightarrow> Position \<Rightarrow> 'w \<Rightarrow> (ViewDelta option \<times> 'w) outcome"
    and visible :: "'w \<Rightarrow> PlayerId \<Rightarrow> PlayerId set option outcome"
    and locate :: "'w \<Rightarrow> Position \<Rightarrow> u64 option outcome"
    and pos_of :: "'w \<Rightarrow> PlayerId \<rightharpoonup> Position"
    and view :: "'w \<Rightarrow> PlayerId \<Rightarrow> PlayerId set"
    and inv :: "'w \<Rightarrow> bool"
  assumes visible_law: "inv w \<Longrightarrow> visible w p = Inr (if pos_of w p = None then None else Some (view w p))"
    and view_dom: "view w p \<subseteq> dom (pos_of w) - {p}"
    and view_sym: "q \<in> view w p \<longleftrightarrow> p \<in> view w q"
    and finite_pos: "inv w \<Longrightarrow> finite (dom (pos_of w))"
    and placed: "inv w \<Longrightarrow> pos_of w p = Some pos \<Longrightarrow> \<exists>i. locate w pos = Inr (Some i)"
    and add_dup: "pos_of w p \<noteq> None \<Longrightarrow> add p pos w = Inr (False, w)"
    and add_fault: "pos_of w p = None \<Longrightarrow> locate w pos = Inl e \<Longrightarrow> add p pos w = Inl e"
    and add_outside: "pos_of w p = None \<Longrightarrow> locate w pos = Inr None \<Longrightarrow> add p pos w = Inr (False, w)"
    and add_inside: "inv w \<Longrightarrow> pos_of w p = None \<Longrightarrow> locate w pos = Inr (Some i) \<Longrightarrow>
      \<exists>w'. add p pos w = Inr (True, w') \<and> inv w' \<and> pos_of w' = (pos_of w)(p \<mapsto> pos) \<and> locate w' = locate w"
    and remove_law: "inv w \<Longrightarrow>
      \<exists>w'. remove p w = Inr (pos_of w p \<noteq> None, w') \<and> inv w' \<and> pos_of w' = (pos_of w)(p := None) \<and>
        locate w' = locate w"
    and add_others: "inv w \<Longrightarrow> add p pos w = Inr (b, w') \<Longrightarrow> q \<noteq> p \<Longrightarrow> view w' q - {p} = view w q - {p}"
    and remove_others: "inv w \<Longrightarrow> remove p w = Inr (b, w') \<Longrightarrow> q \<noteq> p \<Longrightarrow> view w' q = view w q - {p}"
    and move_fault: "locate w pos = Inl e \<Longrightarrow> move p pos w = Inl e"
    and move_none: "locate w pos = Inr c \<Longrightarrow> pos_of w p = None \<or> c = None \<Longrightarrow> move p pos w = Inr (None, w)"
    and move_inside: "inv w \<Longrightarrow> pos_of w p \<noteq> None \<Longrightarrow> locate w pos = Inr (Some i) \<Longrightarrow>
      \<exists>w'. move p pos w = Inr (Some \<lparr>entered = view w' p - view w p, left = view w p - view w' p,
          stayed = view w p \<inter> view w' p\<rparr>, w') \<and> inv w' \<and> pos_of w' = (pos_of w)(p \<mapsto> pos) \<and>
        locate w' = locate w \<and> (\<forall>q. q \<noteq> p \<longrightarrow> view w' q - {p} = view w q - {p})"
begin

lemma finite_view: "inv w \<Longrightarrow> finite (view w p)"
  by (meson finite_Diff finite_pos finite_subset view_dom)

lemma add_total:
  assumes "inv w" and "locate w pos = Inr c"
  shows "\<exists>b w'. add p pos w = Inr (b, w') \<and> inv w' \<and> locate w' = locate w \<and>
    (b \<longleftrightarrow> pos_of w p = None \<and> c \<noteq> None) \<and>
    pos_of w' = (if b then (pos_of w)(p \<mapsto> pos) else pos_of w) \<and> (b \<or> w' = w)"
proof (cases "pos_of w p = None \<and> c \<noteq> None")
  case True
  then obtain i where "c = Some i" by auto
  with add_inside [OF assms(1), of p pos i] assms(2) True show ?thesis by auto
next
  case False
  then have "add p pos w = Inr (False, w)"
    using add_dup [of w p pos] add_outside [of w p pos] assms(2) by (cases "pos_of w p") auto
  with False assms(1) show ?thesis by auto
qed

text \<open>A move changes the view of another player exactly when it is reported to that player.\<close>

lemma move_reported:
  assumes "inv w" and "pos_of w p \<noteq> None" and "locate w pos = Inr (Some i)"
  shows "\<exists>delta w'. move p pos w = Inr (Some delta, w') \<and> inv w' \<and>
    pos_of w' = (pos_of w)(p \<mapsto> pos) \<and> locate w' = locate w \<and>
    entered delta \<union> stayed delta = view w' p \<and> left delta \<union> stayed delta = view w p \<and>
    entered delta \<inter> stayed delta = {} \<and> left delta \<inter> stayed delta = {} \<and>
    entered delta \<inter> left delta = {} \<and> p \<notin> entered delta \<union> left delta \<union> stayed delta \<and>
    (\<forall>q. q \<noteq> p \<longrightarrow> view w' q = (if q \<in> entered delta then insert p (view w q)
       else if q \<in> left delta then view w q - {p} else view w q))"
proof -
  obtain w' where m: "move p pos w = Inr (Some \<lparr>entered = view w' p - view w p, left = view w p - view w' p,
      stayed = view w p \<inter> view w' p\<rparr>, w')" and w': "inv w'" "pos_of w' = (pos_of w)(p \<mapsto> pos)"
      "locate w' = locate w" "\<And>q. q \<noteq> p \<Longrightarrow> view w' q - {p} = view w q - {p}"
    using move_inside [OF assms] by blast
  have "\<forall>q. q \<noteq> p \<longrightarrow> view w' q = (if q \<in> view w' p - view w p then insert p (view w q)
      else if q \<in> view w p - view w' p then view w q - {p} else view w q)"
  proof (intro allI impI)
    fix q assume q: "q \<noteq> p"
    show "view w' q = (if q \<in> view w' p - view w p then insert p (view w q)
      else if q \<in> view w p - view w' p then view w q - {p} else view w q)"
      unfolding Diff_iff view_sym [of q w p] view_sym [of q w' p]
      by (rule set_except_one [OF w'(4) [OF q], unfolded Diff_iff])
  qed
  then show ?thesis
    using m w' view_dom [of w p] view_dom [of w' p] by auto
qed

end

lemma AddPlayer_others:
  assumes "AddPlayer p pos w = Inr (b, w')" "q \<noteq> p"
  shows "sees w' q - {p} = sees w q - {p}"
proof (cases "w' = w")
  case False
  then obtain i where "players w' = um_emplace p \<lparr>position = pos, grid_index = i\<rparr> (players w)"
      "aoi_config w' = aoi_config w"
    using assms(1) by (auto simp: AddPlayer_def outcome_bind_Inr_iff AoiWorld_Contains_def
        split: if_splits option.splits)
  with assms(2) show ?thesis by (auto simp: sees_def split: if_splits)
qed simp

lemma RemovePlayer_others:
  assumes "RemovePlayer p w = Inr (b, w')" "q \<noteq> p"
  shows "sees w' q = sees w q - {p}"
proof -
  have "um_find (players w') = (um_find (players w))(p := None) \<and> aoi_config w' = aoi_config w"
    using assms(1) by (auto simp: RemovePlayer_def outcome_bind_Inr_iff fun_upd_idem
        split: if_splits option.splits)
  with assms(2) show ?thesis by (auto simp: sees_def)
qed

interpretation aoi: area_of_interest AddPlayer RemovePlayer MovePlayer VisiblePlayers GridIndexFor
    tracked sees aoi_inv
proof unfold_locales
  fix w p pos i c e
  show "aoi_inv w \<Longrightarrow> finite (dom (tracked w))"
    by (auto simp: tracked_def aoi_inv_def dom_def dest!: um.finite_dom elim: rev_finite_subset)
  show "aoi_inv w \<Longrightarrow> tracked w p = Some pos \<Longrightarrow> \<exists>i. GridIndexFor w pos = Inr (Some i)"
    by (auto simp: tracked_def aoi_inv_def)
  show "aoi_inv w \<Longrightarrow> \<exists>w'. RemovePlayer p w = Inr (tracked w p \<noteq> None, w') \<and> aoi_inv w' \<and>
      tracked w' = (tracked w)(p := None) \<and> GridIndexFor w' = GridIndexFor w"
    by (rule RemovePlayer_spec)
  show "AddPlayer p pos w = Inr (b, w') \<Longrightarrow> q \<noteq> p \<Longrightarrow> sees w' q - {p} = sees w q - {p}" for b w' q
    by (rule AddPlayer_others)
  show "RemovePlayer p w = Inr (b, w') \<Longrightarrow> q \<noteq> p \<Longrightarrow> sees w' q = sees w q - {p}" for b w' q
    by (rule RemovePlayer_others)
  show "GridIndexFor w pos = Inr c \<Longrightarrow> tracked w p = None \<or> c = None \<Longrightarrow> MovePlayer p pos w = Inr (None, w)"
    by (auto simp: MovePlayer_def split: option.splits)
qed (simp_all add: VisiblePlayers_spec AddPlayer_inside MovePlayer_inside,
    auto simp: sees_def tracked_def near_sym AddPlayer_def AoiWorld_Contains_def MovePlayer_def)

section \<open>Properties of the world\<close>

lemma GridIndexFor_fault: "GridIndexFor w pos = Inl e \<Longrightarrow> e = UndefinedBehaviour"
proof -
  have "double_to_size_t x = Inl e \<Longrightarrow> e = UndefinedBehaviour" for x
    by (cases x) (auto split: if_splits)
  then show "GridIndexFor w pos = Inl e \<Longrightarrow> e = UndefinedBehaviour"
    by (auto simp: GridIndexFor_def Let_def outcome_bind_def split: if_splits sum.splits)
qed

lemma aoi_inv_new:
  assumes "AoiWorld_new c = Inr w" and "unat (rows c) * unat (columns c) < 2 ^ 63"
  shows "aoi_inv w"
proof -
  have "unat (columns c * rows c) = unat (rows c) * unat (columns c)"
    using assms(2) by (simp add: unat_word_ariths mult.commute)
  then show ?thesis
    using assms by (auto simp: AoiWorld_new_def aoi_inv_def aoi_config_ok_def cell_count_def
        split: if_splits)
qed

lemma aoi_exec_step:
  assumes "aoi_inv w"
  shows "case aoi_exec op w of
      Inr w' \<Rightarrow> aoi_inv w' \<and> GridIndexFor w' = GridIndexFor w
    | Inl e \<Rightarrow> (\<exists>pos\<in>op_position op. GridIndexFor w pos = Inl e)"
proof (cases op)
  case (OpAdd p pos)
  show ?thesis
  proof (cases "GridIndexFor w pos")
    case (Inl e)
    then show ?thesis
      using OpAdd assms aoi.add_fault [of w p pos e] aoi.add_dup [of w p pos] by (cases "tracked w p") auto
  next
    case (Inr c)
    with OpAdd aoi.add_total [OF assms Inr, of p] show ?thesis by auto
  qed
next
  case (OpRemove p)
  with aoi.remove_law [OF assms, of p] show ?thesis by auto
next
  case (OpMove p pos)
  show ?thesis
  proof (cases "GridIndexFor w pos")
    case (Inl e)
    with OpMove aoi.move_fault [of w pos e p] show ?thesis by auto
  next
    case (Inr c)
    with OpMove aoi.move_none [OF Inr, of p] aoi.move_inside [OF assms, of p pos] assms show ?thesis
      by (cases "tracked w p"; cases c) fastforce+
  qed
qed

lemma aoi_run_step:
  "aoi_inv w \<Longrightarrow> (case aoi_run ops w of
      Inr w' \<Rightarrow> aoi_inv w' \<and> GridIndexFor w' = GridIndexFor w
    | Inl e \<Rightarrow> (\<exists>op\<in>set ops. \<exists>pos\<in>op_position op. GridIndexFor w pos = Inl e))"
proof (induction ops arbitrary: w)
  case (Cons op ops)
  show ?case
  proof (cases "aoi_exec op w")
    case (Inl e)
    with aoi_exec_step [OF Cons.prems, of op] show ?thesis by auto
  next
    case (Inr w1)
    with aoi_exec_step [OF Cons.prems, of op] have "aoi_inv w1" "GridIndexFor w1 = GridIndexFor w" by auto
    with Cons.IH [of w1] Inr show ?thesis by (auto split: sum.splits)
  qed
qed simp

lemma default_world:
  "AoiWorld_new default_aoi_config = Inr \<lparr>aoi_config = default_aoi_config, cell_width = DFin 100,
      cell_height = DFin 100, grids = replicate 200 {}, players = um_empty\<rparr>"
  by (simp add: AoiWorld_new_def default_aoi_config_def d_sub_def size_t_to_double_def)

lemma default_world_examples:
  assumes "AoiWorld_new default_aoi_config = Inr w"
  shows "GridIndexFor w \<lparr>pos_x = DFin 150, pos_y = DFin 250\<rparr> = Inr (Some 21)"
    and "GridIndexFor w \<lparr>pos_x = DFin 50, pos_y = DFin 250\<rparr> = Inr (Some 20)"
    and "aoi_inv w" and "tracked w = Map.empty"
proof -
  show "aoi_inv w" by (rule aoi_inv_new [OF assms]) (simp add: default_aoi_config_def)
qed (use assms default_world in \<open>auto simp: default_aoi_config_def GridIndexFor_def d_sub_def
    word_le_nat_alt tracked_def fun_eq_iff\<close>)

text \<open>
  C10: Whatever sequence of \<open>AddPlayer\<close>, \<open>RemovePlayer\<close> and \<open>MovePlayer\<close> calls a fresh world with
  fewer than \<open>2 ^ 63\<close> cells executes, the cells remain exactly the partition of the player table
  by the cell of each player's position. No vector is indexed out of range and no empty optional
  is read: the only fault a call can end in is the conversion to \<open>std::size_t\<close> of a coordinate
  passed to that sequence.
\<close>

theorem aoi_partition_invariant:
  assumes "AoiWorld_new c = Inr w0" and "unat (rows c) * unat (columns c) < 2 ^ 63"
  shows "case aoi_run ops w0 of
      Inr w \<Rightarrow> aoi_inv w
    | Inl e \<Rightarrow> e = UndefinedBehaviour \<and>
        (\<exists>op\<in>set ops. \<exists>pos\<in>op_position op. GridIndexFor w0 pos = Inl UndefinedBehaviour)"
  using aoi_run_step [OF aoi_inv_new [OF assms], of ops] GridIndexFor_fault
  by (cases "aoi_run ops w0") fastforce+

theorem aoi_partition_invariant_witness:
  "\<exists>w0 w. AoiWorld_new default_aoi_config = Inr w0 \<and>
     aoi_run [OpAdd 1 \<lparr>pos_x = DFin 150, pos_y = DFin 250\<rparr>, OpRemove 2,
       OpMove 1 \<lparr>pos_x = DFin 50, pos_y = DFin 250\<rparr>] w0 = Inr w \<and> aoi_inv w"
proof -
  obtain w0 where w0: "AoiWorld_new default_aoi_config = Inr w0" using default_world by blast
  note g = default_world_examples(1,2) [OF w0]
  from aoi_partition_invariant [OF w0, of "[OpAdd 1 \<lparr>pos_x = DFin 150, pos_y = DFin 250\<rparr>, OpRemove 2,
       OpMove 1 \<lparr>pos_x = DFin 50, pos_y = DFin 250\<rparr>]"] g w0
  show ?thesis
    by (auto simp: default_aoi_config_def split: sum.splits)
qed



text \<open>
  C11: A move to a position inside the map reports exactly the change of views it causes: \<open>entered\<close>
  and \<open>stayed\<close> partition the mover's new view, \<open>left\<close> and \<open>stayed\<close> its old one, the mover is in
  none of them, and every other player's view gains the mover if and only if it is in \<open>entered\<close>,
  loses it if and only if it is in \<open>left\<close>, and is otherwise unchanged. The invariant is kept.
\<close>

theorem MovePlayer_reports_view_changes:
  assumes "aoi_inv w" and "AoiWorld_Contains w p" and "GridIndexFor w pos = Inr (Some i)"
  shows "\<exists>delta w'. MovePlayer p pos w = Inr (Some delta, w') \<and> aoi_inv w' \<and>
    tracked w' = (tracked w)(p \<mapsto> pos) \<and>
    entered delta \<union> stayed delta = sees w' p \<and> left delta \<union> stayed delta = sees w p \<and>
    entered delta \<inter> stayed delta = {} \<and> left delta \<inter> stayed delta = {} \<and> entered delta \<inter> left delta = {} \<and>
    p \<notin> entered delta \<union> left delta \<union> stayed delta \<and>
    (\<forall>q. q \<noteq> p \<longrightarrow> sees w' q = (if q \<in> entered delta then insert p (sees w q)
       else if q \<in> left delta then sees w q - {p} else sees w q))"
proof -
  have "tracked w p \<noteq> None" using assms(2) by (simp add: AoiWorld_Contains_def)
  from aoi.move_reported [OF assms(1) this assms(3)] show ?thesis
    by (elim exE conjE) (intro exI conjI; assumption)
qed

theorem MovePlayer_reports_view_changes_witness:
  "\<exists>w delta w'. MovePlayer 1 \<lparr>pos_x = DFin 50, pos_y = DFin 250\<rparr> w = Inr (Some delta, w') \<and>
     aoi_inv w' \<and> entered delta \<union> stayed delta = sees w' 1"
proof -
  obtain w0 where w0: "AoiWorld_new default_aoi_config = Inr w0" using default_world by blast
  note g = default_world_examples [OF w0]
  obtain w where w: "aoi_inv w" "tracked w = (tracked w0)(1 \<mapsto> \<lparr>pos_x = DFin 150, pos_y = DFin 250\<rparr>)"
      "GridIndexFor w = GridIndexFor w0"
    using aoi.add_inside [OF g(3), of 1 "\<lparr>pos_x = DFin 150, pos_y = DFin 250\<rparr>" 21] g by auto
  have "AoiWorld_Contains w 1"
    using w(2) by (metis AoiWorld_Contains_def fun_upd_same option.distinct(1) tracked_None_iff)
  from MovePlayer_reports_view_changes [OF w(1) this, of "\<lparr>pos_x = DFin 50, pos_y = DFin 250\<rparr>" 20] w(3) g
  show ?thesis by auto
qed

lemma coordinate_to_cell:
  assumes "is_double x" and "x \<noteq> DNaN" and "\<not> d_less x (DFin 0)" and "\<not> d_ge x (DFin (1000 * 2 powi j))"
    and "0 \<le> j" and "j \<le> 1"
  shows "\<exists>k. double_to_size_t (d_div (d_sub x (DFin 0)) (DFin 100)) = Inr k \<and> unat k < 10 * 2 ^ nat j"
proof -
  obtain q where x: "x = DFin q" using assms(2,3,4) by (cases x) auto
  have q: "representable q" "0 \<le> q" "q < 1000 * 2 powi j" using assms x by auto
  obtain v where v: "fl (q / 100) = DFin v" "0 \<le> v" "v < 10 * 2 powi j"
    using fl_div_100_below [OF q] assms(5,6) by auto
  have p: "(2 :: rat) powi j = of_nat (2 ^ nat j)" using assms(5) by (simp add: power_int_def)
  have "(of_int \<lfloor>v\<rfloor> :: rat) < of_nat (10 * 2 ^ nat j)" using v(3) p by (simp add: floor_less_iff) linarith
  then have n: "nat \<lfloor>v\<rfloor> < 10 * 2 ^ nat j" using v(2) by linarith
  have "j = 0 \<or> j = 1" using assms(5,6) by linarith
  then have "v < 2 ^ 64" and "unat (of_nat (nat \<lfloor>v\<rfloor>) :: u64) = nat \<lfloor>v\<rfloor>"
    using v(3) n by (auto simp: unat_of_nat)
  with n v q show ?thesis by (simp add: x d_sub_def fl_exact)
qed

lemma default_locates:
  assumes "AoiWorld_new default_aoi_config = Inr w" and "is_double (pos_x pos)" and "is_double (pos_y pos)"
    and "pos_x pos \<noteq> DNaN" and "pos_y pos \<noteq> DNaN"
  shows "\<exists>c. GridIndexFor w pos = Inr c \<and>
    (c \<noteq> None \<longleftrightarrow> d_ge (pos_x pos) (DFin 0) \<and> d_less (pos_x pos) (DFin 1000) \<and>
       d_ge (pos_y pos) (DFin 0) \<and> d_less (pos_y pos) (DFin 2000))"
proof -
  have ge: "x \<noteq> DNaN \<Longrightarrow> d_ge x (DFin q) \<longleftrightarrow> \<not> d_less x (DFin q)" for x q by (cases x) auto
  note x = ge [OF assms(4)] and y = ge [OF assms(5)]
  have w: "w = \<lparr>aoi_config = default_aoi_config, cell_width = DFin 100,
      cell_height = DFin 100, grids = replicate 200 {}, players = um_empty\<rparr>"
    using assms(1) default_world by simp
  show ?thesis
  proof (cases "d_ge (pos_x pos) (DFin 0) \<and> d_less (pos_x pos) (DFin 1000) \<and>
       d_ge (pos_y pos) (DFin 0) \<and> d_less (pos_y pos) (DFin 2000)")
    case True
    obtain k l where "double_to_size_t (d_div (d_sub (pos_x pos) (DFin 0)) (DFin 100)) = Inr k" "unat k < 10"
        "double_to_size_t (d_div (d_sub (pos_y pos) (DFin 0)) (DFin 100)) = Inr l" "unat l < 20"
      using coordinate_to_cell [OF assms(2,4), of 0] coordinate_to_cell [OF assms(3,5), of 1] True x y
      by auto
    with True x y show ?thesis
      by (simp add: w default_aoi_config_def GridIndexFor_def word_le_nat_alt)
  next
    case False
    with x y show ?thesis by (auto simp: w default_aoi_config_def GridIndexFor_def)
  qed
qed

text \<open>
  In the world of the default game configuration (1000 by 2000 units, 10 by 20 cells) locating
  a position never faults for coordinates that are not NaN, although quotients are rounded: a cell
  is found if and only if the position lies in \<open>[0, 1000) x [0, 2000)\<close>.
\<close>

theorem default_world_locates_every_position:
  assumes "AoiWorld_new default_aoi_config = Inr w" and "is_double (pos_x pos)" and "is_double (pos_y pos)"
    and "pos_x pos \<noteq> DNaN" and "pos_y pos \<noteq> DNaN"
  shows "\<exists>c. GridIndexFor w pos = Inr c \<and>
    (c \<noteq> None \<longleftrightarrow> d_ge (pos_x pos) (DFin 0) \<and> d_less (pos_x pos) (DFin 1000) \<and>
       d_ge (pos_y pos) (DFin 0) \<and> d_less (pos_y pos) (DFin 2000))"
  using assms by (rule default_locates)

theorem default_world_locates_every_position_witness:
  "\<exists>w c. AoiWorld_new default_aoi_config = Inr w \<and>
     GridIndexFor w \<lparr>pos_x = DFin 999, pos_y = DFin 1999\<rparr> = Inr c \<and> c \<noteq> None"
  using default_world_locates_every_position [OF default_world, of "\<lparr>pos_x = DFin 999, pos_y = DFin 1999\<rparr>"]
    representable_int [of 999] representable_int [of 1999] default_world by auto

text \<open>
  A move to a position whose coordinates are NaN is not rejected by the range check, because
  every comparison with NaN is false; in every world it reaches the conversion of NaN to
  \<open>std::size_t\<close>, whose behaviour is undefined.
\<close>

theorem NaN_move_is_undefined:
  "MovePlayer p \<lparr>pos_x = DNaN, pos_y = DNaN\<rparr> w = Inl UndefinedBehaviour"
  by (rule aoi.move_fault) (simp add: GridIndexFor_def d_sub_def Let_def)

end
