(* ===== verification/Data_Store.thy ===== *)
theory Data_Store
  imports Mmo_Prelude Ieee_Double
begin

text \<open>
  The records and result types of \<open>include/mmo/data\<close> and the in-memory stores of
  \<open>src/data/memory_stores.cpp\<close>. The two store interfaces \<open>PlayerRepository\<close> and \<open>SessionStore\<close> are
  locales; the in-memory stores interpret them. Every store operation runs under the store's mutex
  from its first access to the map to its return, so an operation is one atomic function of the
  store. The steady clock is read as an argument in nanoseconds.
\<close>

section \<open>Results and records\<close>

datatype DataStatus = kOk | kNotFound | kInvalidArgument | kUnavailable

record OperationResult =
  op_status :: DataStatus
  op_error :: string

definition OperationResult_Ok :: "OperationResult \<Rightarrow> bool" where
  "OperationResult_Ok r \<longleftrightarrow> op_status r = kOk"

definition OperationResult_Success :: OperationResult where
  "OperationResult_Success = \<lparr>op_status = kOk, op_error = ''''\<rparr>"

definition OperationResult_Failure :: "DataStatus \<Rightarrow> string \<Rightarrow> OperationResult" where
  "OperationResult_Failure s e = \<lparr>op_status = s, op_error = e\<rparr>"

record 'a DataResult =
  dr_status :: DataStatus
  dr_value :: "'a option"
  dr_error :: string

definition DataResult_Ok :: "'a DataResult \<Rightarrow> bool" where
  "DataResult_Ok r \<longleftrightarrow> dr_status r = kOk \<and> dr_value r \<noteq> None"

definition DataResult_Success :: "'a \<Rightarrow> 'a DataResult" where
  "DataResult_Success v = \<lparr>dr_status = kOk, dr_value = Some v, dr_error = ''''\<rparr>"

definition DataResult_NotFound :: "'a DataResult" where
  "DataResult_NotFound = \<lparr>dr_status = kNotFound, dr_value = None, dr_error = ''''\<rparr>"

definition DataResult_Failure :: "DataStatus \<Rightarrow> string \<Rightarrow> 'a DataResult" where
  "DataResult_Failure s e = \<lparr>dr_status = s, dr_value = None, dr_error = e\<rparr>"

record PlayerRecord =
  pr_player_id :: u64
  pr_account :: string
  pr_nickname :: string
  pr_position_x :: dbl
  pr_position_y :: dbl
  pr_position_z :: dbl
  pr_last_login_unix :: s64

record SessionRecord =
  sr_player_id :: u64
  sr_token :: string

definition PlayerRecord_eq :: "PlayerRecord \<Rightarrow> PlayerRecord \<Rightarrow> bool" where
  "PlayerRecord_eq p q \<longleftrightarrow>
     pr_player_id p = pr_player_id q \<and> pr_account p = pr_account q \<and>
     pr_nickname p = pr_nickname q \<and>
     d_eq (pr_position_x p) (pr_position_x q) \<and>
     d_eq (pr_position_y p) (pr_position_y q) \<and>
     d_eq (pr_position_z p) (pr_position_z q) \<and>
     pr_last_login_unix p = pr_last_login_unix q"

definition SessionRecord_eq :: "SessionRecord \<Rightarrow> SessionRecord \<Rightarrow> bool" where
  "SessionRecord_eq s t \<longleftrightarrow> sr_player_id s = sr_player_id t \<and> sr_token s = sr_token t"

section \<open>The in-memory player repository\<close>

type_synonym MemoryPlayerRepository = "(string, PlayerRecord) umap"

definition MemoryPlayerRepository_LoadByAccount ::
  "string \<Rightarrow> MemoryPlayerRepository \<Rightarrow> PlayerRecord DataResult" where
  "MemoryPlayerRepository_LoadByAccount account repo =
     (case um_find repo account of
        None \<Rightarrow> DataResult_NotFound
      | Some player \<Rightarrow> DataResult_Success player)"

definition MemoryPlayerRepository_Save ::
  "PlayerRecord \<Rightarrow> MemoryPlayerRepository \<Rightarrow> OperationResult \<times> MemoryPlayerRepository" where
  "MemoryPlayerRepository_Save player repo =
     (if pr_player_id player = 0 \<or> pr_account player = [] \<or> pr_nickname player = []
      then (OperationResult_Failure kInvalidArgument ''invalid player record'', repo)
      else (OperationResult_Success, um_put (pr_account player) player repo))"

definition MemoryPlayerRepository_DeleteByAccount ::
  "string \<Rightarrow> MemoryPlayerRepository \<Rightarrow> OperationResult \<times> MemoryPlayerRepository" where
  "MemoryPlayerRepository_DeleteByAccount account repo =
     (OperationResult_Success, um_erase account repo)"

section \<open>The in-memory session store\<close>

text \<open>
  \<open>steady_clock::now() + ttl\<close> converts the seconds to nanoseconds and adds, both in signed 64-bit
  arithmetic: undefined when the exact value does not fit.
\<close>

definition int64 :: "int \<Rightarrow> bool" where
  "int64 n \<longleftrightarrow> - (2 ^ 63) \<le> n \<and> n < 2 ^ 63"

definition ns_per_second :: int where
  "ns_per_second = 1000000000"

definition deadline :: "int \<Rightarrow> int \<Rightarrow> int outcome" where
  "deadline now ttl =
     (if int64 (ttl * ns_per_second) \<and> int64 (now + ttl * ns_per_second)
      then Inr (now + ttl * ns_per_second)
      else Inl UndefinedBehaviour)"

record Entry =
  entry_session :: SessionRecord
  expires_at :: int

type_synonym MemorySessionStore = "(u64, Entry) umap"

definition MemorySessionStore_Store ::
  "int \<Rightarrow> SessionRecord \<Rightarrow> int \<Rightarrow> MemorySessionStore \<Rightarrow> (OperationResult \<times> MemorySessionStore) outcome" where
  "MemorySessionStore_Store now session ttl store =
     (if sr_player_id session = 0 \<or> sr_token session = [] \<or> ttl \<le> 0
      then Inr (OperationResult_Failure kInvalidArgument ''invalid session'', store)
      else outcome_bind (deadline now ttl) (\<lambda>expires.
        Inr (OperationResult_Success,
             um_put (sr_player_id session) \<lparr>entry_session = session, expires_at = expires\<rparr> store)))"

definition MemorySessionStore_Load ::
  "int \<Rightarrow> u64 \<Rightarrow> MemorySessionStore \<Rightarrow> SessionRecord DataResult \<times> MemorySessionStore" where
  "MemorySessionStore_Load now player_id store =
     (case um_find store player_id of
        None \<Rightarrow> (DataResult_NotFound, store)
      | Some e \<Rightarrow>
          if now \<ge> expires_at e then (DataResult_NotFound, um_erase player_id store)
          else (DataResult_Success (entry_session e), store))"

definition MemorySessionStore_Remove ::
  "u64 \<Rightarrow> MemorySessionStore \<Rightarrow> OperationResult \<times> MemorySessionStore" where
  "MemorySessionStore_Remove player_id store = (OperationResult_Success, um_erase player_id store)"

lemma SessionRecord_collapse [simp]:
  "\<lparr>sr_player_id = sr_player_id s, sr_token = sr_token s\<rparr> = s"
  by simp

lemmas data_result_defs = OperationResult_Ok_def OperationResult_Success_def
  OperationResult_Failure_def DataResult_Ok_def DataResult_Success_def DataResult_NotFound_def
  DataResult_Failure_def

lemmas memory_store_defs = MemoryPlayerRepository_LoadByAccount_def
  MemoryPlayerRepository_Save_def MemoryPlayerRepository_DeleteByAccount_def
  MemorySessionStore_Store_def MemorySessionStore_Load_def MemorySessionStore_Remove_def

section \<open>The repository contract\<close>

text \<open>
  What the server relies on when it talks to a \<open>PlayerRepository\<close>: \<open>stored\<close> is the table behind
  it. An implementation may refuse or fail (\<open>kUnavailable\<close>), but then it changes nothing.
\<close>

locale player_repository =
  fixes load :: "string \<Rightarrow> 'r \<Rightarrow> PlayerRecord DataResult"
    and save :: "PlayerRecord \<Rightarrow> 'r \<Rightarrow> OperationResult \<times> 'r"
    and delete :: "string \<Rightarrow> 'r \<Rightarrow> OperationResult \<times> 'r"
    and stored :: "'r \<Rightarrow> string \<Rightarrow> PlayerRecord option"
  assumes load_ok: "DataResult_Ok (load a r) \<Longrightarrow> dr_value (load a r) = stored r a"
    and load_missing: "dr_status (load a r) = kNotFound \<Longrightarrow> stored r a = None"
    and save_ok: "save p r = (res, r') \<Longrightarrow>
      stored r' = (if OperationResult_Ok res then (stored r)(pr_account p \<mapsto> p) else stored r)"
    and save_valid: "save p r = (res, r') \<Longrightarrow> OperationResult_Ok res \<Longrightarrow>
      pr_player_id p \<noteq> 0 \<and> pr_account p \<noteq> [] \<and> pr_nickname p \<noteq> []"
    and delete_ok: "delete a r = (res, r') \<Longrightarrow>
      stored r' = (if OperationResult_Ok res then (stored r)(a := None) else stored r)"

datatype repo_op = RSave PlayerRecord | RDelete string

text \<open>
  A run of mutating calls, each paired with what it returned, and the last effective write of an
  account that can be read off the history alone.
\<close>

fun repo_run ::
  "(PlayerRecord \<Rightarrow> 'r \<Rightarrow> OperationResult \<times> 'r) \<Rightarrow> (string \<Rightarrow> 'r \<Rightarrow> OperationResult \<times> 'r) \<Rightarrow>
   repo_op list \<Rightarrow> 'r \<Rightarrow> (repo_op \<times> bool) list \<times> 'r" where
  "repo_run save delete [] r = ([], r)"
| "repo_run save delete (op # ops) r =
     (let (res, r1) = (case op of RSave p \<Rightarrow> save p r | RDelete a \<Rightarrow> delete a r);
          (hist, r2) = repo_run save delete ops r1
      in ((op, OperationResult_Ok res) # hist, r2))"

fun last_write :: "string \<Rightarrow> PlayerRecord option \<Rightarrow> (repo_op \<times> bool) list \<Rightarrow> PlayerRecord option" where
  "last_write a w [] = w"
| "last_write a w ((RSave p, ok) # h) =
     last_write a (if ok \<and> pr_account p = a then Some p else w) h"
| "last_write a w ((RDelete b, ok) # h) = last_write a (if ok \<and> b = a then None else w) h"

definition record_valid :: "string \<Rightarrow> PlayerRecord \<Rightarrow> bool" where
  "record_valid a p \<longleftrightarrow>
     pr_account p = a \<and> a \<noteq> [] \<and> pr_player_id p \<noteq> 0 \<and> pr_nickname p \<noteq> []"

context player_repository
begin

lemma run_stored:
  "repo_run save delete ops r = (h, r') \<Longrightarrow> stored r' a = last_write a (stored r a) h"
proof (induction ops arbitrary: r h)
  case (Cons op ops)
  then show ?case
    by (cases op) (auto split: prod.splits dest!: save_ok delete_ok)
qed simp

lemma save_law:
  "save p r = (res, r') \<Longrightarrow>
     (if OperationResult_Ok res
      then stored r' = (stored r)(pr_account p \<mapsto> p) \<and> record_valid (pr_account p) p
      else stored r' = stored r)"
  using save_ok[of p r res r'] save_valid[of p r res r'] by (simp add: record_valid_def)

lemma run_keyed:
  assumes "repo_run save delete ops r = (h, r')"
    and "\<And>a p. stored r a = Some p \<Longrightarrow> record_valid a p"
    and "stored r' a = Some p"
  shows "record_valid a p"
  using assms
proof (induction ops arbitrary: r h)
  case (Cons op ops)
  obtain res r1 h2 where step: "(case op of RSave p \<Rightarrow> save p r | RDelete a \<Rightarrow> delete a r) = (res, r1)"
    and rest: "repo_run save delete ops r1 = (h2, r')"
    using Cons.prems(1) by (auto split: prod.splits)
  have "record_valid b q" if "stored r1 b = Some q" for b q
    using step that Cons.prems(2)[of b q]
    by (cases op)
      (auto simp: record_valid_def dest!: save_law delete_ok split: if_splits)
  from Cons.IH[OF rest this Cons.prems(3)] show ?case .
qed simp

lemma load_reads_last_write:
  assumes "repo_run save delete ops r = (h, r')"
  shows "DataResult_Ok (load a r') \<Longrightarrow> dr_value (load a r') = last_write a (stored r a) h"
    and "dr_status (load a r') = kNotFound \<Longrightarrow> last_write a (stored r a) h = None"
  using run_stored[OF assms] load_ok load_missing by metis+

end

interpretation mem_players: player_repository MemoryPlayerRepository_LoadByAccount
    MemoryPlayerRepository_Save MemoryPlayerRepository_DeleteByAccount um_find
  by unfold_locales
    (auto simp: memory_store_defs data_result_defs split: option.splits if_splits)

section \<open>The session-store contract\<close>

text \<open>
  \<open>live\<close> gives the token of a player together with the instant at which it expires. Between its
  expiry and the next \<open>Load\<close> an entry may linger or be gone; the laws leave that open.
\<close>

locale session_store =
  fixes store :: "int \<Rightarrow> SessionRecord \<Rightarrow> int \<Rightarrow> 's \<Rightarrow> (OperationResult \<times> 's) outcome"
    and load :: "int \<Rightarrow> u64 \<Rightarrow> 's \<Rightarrow> SessionRecord DataResult \<times> 's"
    and remove :: "u64 \<Rightarrow> 's \<Rightarrow> OperationResult \<times> 's"
    and live :: "'s \<Rightarrow> u64 \<Rightarrow> (string \<times> int) option"
    and invar :: "'s \<Rightarrow> bool"
  assumes store_ok: "invar st \<Longrightarrow> store now s ttl st = Inr (res, st') \<Longrightarrow>
      invar st' \<and> live st' =
        (if OperationResult_Ok res
         then (live st)(sr_player_id s \<mapsto> (sr_token s, now + ttl * ns_per_second)) else live st)"
    and load_live: "invar st \<Longrightarrow> live st k = Some (tok, e) \<Longrightarrow> now < e \<Longrightarrow>
      load now k st = (DataResult_Success \<lparr>sr_player_id = k, sr_token = tok\<rparr>, st)"
    and load_gone: "invar st \<Longrightarrow> (\<And>tok e. live st k = Some (tok, e) \<Longrightarrow> e \<le> now) \<Longrightarrow>
      fst (load now k st) = DataResult_NotFound"
    and load_keeps: "invar st \<Longrightarrow> load now k st = (lres, st') \<Longrightarrow> invar st' \<and>
      live st' = (if \<exists>tok e. live st k = Some (tok, e) \<and> e \<le> now then (live st)(k := None) else live st)"
    and remove_ok: "invar st \<Longrightarrow> remove k st = (res, st') \<Longrightarrow> invar st' \<and>
      live st' = (if OperationResult_Ok res then (live st)(k := None) else live st)"

datatype session_op = SStore SessionRecord int | SLoad u64 | SRemove u64

fun session_run ::
  "(int \<Rightarrow> SessionRecord \<Rightarrow> int \<Rightarrow> 's \<Rightarrow> (OperationResult \<times> 's) outcome) \<Rightarrow>
   (int \<Rightarrow> u64 \<Rightarrow> 's \<Rightarrow> SessionRecord DataResult \<times> 's) \<Rightarrow>
   (u64 \<Rightarrow> 's \<Rightarrow> OperationResult \<times> 's) \<Rightarrow> (int \<times> session_op) list \<Rightarrow> 's \<Rightarrow> 's outcome" where
  "session_run store load remove [] st = Inr st"
| "session_run store load remove ((now, SStore s ttl) # ops) st =
     outcome_bind (store now s ttl st) (\<lambda>(_, st'). session_run store load remove ops st')"
| "session_run store load remove ((now, SLoad k) # ops) st =
     session_run store load remove ops (snd (load now k st))"
| "session_run store load remove ((now, SRemove k) # ops) st =
     session_run store load remove ops (snd (remove k st))"

fun overwrites :: "u64 \<Rightarrow> session_op \<Rightarrow> bool" where
  "overwrites k (SStore s ttl) \<longleftrightarrow> sr_player_id s = k"
| "overwrites k (SLoad _) \<longleftrightarrow> False"
| "overwrites k (SRemove j) \<longleftrightarrow> j = k"

context session_store
begin

text \<open>A session of \<open>k\<close> with deadline \<open>e\<close> is held until \<open>e\<close>, and from then on it may only vanish.\<close>

definition holds_until :: "u64 \<Rightarrow> string \<Rightarrow> int \<Rightarrow> int \<Rightarrow> 's \<Rightarrow> bool" where
  "holds_until k tok e now st \<longleftrightarrow>
     invar st \<and> (live st k = Some (tok, e) \<or> e \<le> now \<and> live st k = None)"

lemma load_at: "holds_until k tok e now st \<Longrightarrow>
   fst (load now k st) =
     (if now < e then DataResult_Success \<lparr>sr_player_id = k, sr_token = tok\<rparr> else DataResult_NotFound)"
  using load_gone[of st k now] by (auto simp: holds_until_def load_live not_less)

lemma holds_later: "holds_until k tok e now st \<Longrightarrow> now \<le> now' \<Longrightarrow> holds_until k tok e now' st"
  by (auto simp: holds_until_def)

lemma holds_store: "holds_until k tok e now st \<Longrightarrow> store now s ttl st = Inr (res, st') \<Longrightarrow>
   sr_player_id s \<noteq> k \<Longrightarrow> holds_until k tok e now st'"
  using store_ok[of st now s ttl res st'] by (auto simp: holds_until_def)

lemma holds_load: "holds_until k tok e now st \<Longrightarrow> holds_until k tok e now (snd (load now j st))"
  using load_keeps[of st now j "fst (load now j st)" "snd (load now j st)"]
  by (auto simp: holds_until_def)

lemma holds_remove: "holds_until k tok e now st \<Longrightarrow> j \<noteq> k \<Longrightarrow> holds_until k tok e now (snd (remove j st))"
  using remove_ok[of st j "fst (remove j st)" "snd (remove j st)"] by (auto simp: holds_until_def)

lemma holds_run:
  "session_run store load remove ops st = Inr st' \<Longrightarrow> holds_until k tok e t0 st \<Longrightarrow>
   sorted (t0 # map fst ops) \<Longrightarrow> \<forall>(_, op) \<in> set ops. \<not> overwrites k op \<Longrightarrow> \<forall>t \<in> set (map fst ops). t \<le> t1 \<Longrightarrow>
   t0 \<le> t1 \<Longrightarrow> holds_until k tok e t1 st'"
proof (induction ops arbitrary: t0 st)
  case Nil
  then show ?case by (auto intro: holds_later)
next
  case (Cons top ops)
  obtain t op where top: "top = (t, op)" by (cases top)
  have now: "holds_until k tok e t st"
    using Cons.prems(2,3) by (auto simp: top intro: holds_later)
  have "\<exists>st1. session_run store load remove ops st1 = Inr st' \<and> holds_until k tok e t st1"
    using Cons.prems(1,4) now
    by (cases op) (auto simp: top outcome_bind_Inr_iff intro: holds_store holds_load holds_remove)
  then obtain st1 where "session_run store load remove ops st1 = Inr st'" "holds_until k tok e t st1"
    by blast
  from Cons.IH[OF this] show ?case using Cons.prems(3-6) by (simp add: top)
qed

lemma stored_until_deadline:
  assumes "invar st" "store t0 s ttl st = Inr (res, st1)" "OperationResult_Ok res"
    and "session_run store load remove ops st1 = Inr st2"
    and "sorted (t0 # map fst ops @ [t])"
    and "\<forall>(_, op) \<in> set ops. \<not> overwrites (sr_player_id s) op"
  shows "fst (load t (sr_player_id s) st2) =
    (if t < t0 + ttl * ns_per_second then DataResult_Success s else DataResult_NotFound)"
proof -
  let ?e = "t0 + ttl * ns_per_second"
  have "holds_until (sr_player_id s) (sr_token s) ?e t0 st1"
    using store_ok[OF assms(1,2)] assms(3) by (simp add: holds_until_def)
  then have "holds_until (sr_player_id s) (sr_token s) ?e t st2"
    using holds_run[OF assms(4)] assms(5,6) by (auto simp: sorted_append)
  then show ?thesis by (simp add: load_at)
qed

end

definition session_live :: "MemorySessionStore \<Rightarrow> u64 \<Rightarrow> (string \<times> int) option" where
  "session_live st k = map_option (\<lambda>e. (sr_token (entry_session e), expires_at e)) (um_find st k)"

definition session_invar :: "MemorySessionStore \<Rightarrow> bool" where
  "session_invar st \<longleftrightarrow> (\<forall>k e. um_find st k = Some e \<longrightarrow> sr_player_id (entry_session e) = k)"

interpretation mem_sessions: session_store MemorySessionStore_Store MemorySessionStore_Load
    MemorySessionStore_Remove session_live session_invar
proof unfold_locales
  fix st st' :: MemorySessionStore and now ttl e :: int and s :: SessionRecord and k :: u64
    and tok :: string and res :: OperationResult and lres :: "SessionRecord DataResult"
  assume inv: "session_invar st"
  show "session_invar st' \<and> session_live st' = (if OperationResult_Ok res
         then (session_live st)(sr_player_id s \<mapsto> (sr_token s, now + ttl * ns_per_second))
         else session_live st)"
    if "MemorySessionStore_Store now s ttl st = Inr (res, st')"
    using inv that
    by (auto simp: memory_store_defs data_result_defs session_invar_def session_live_def
        deadline_def fun_eq_iff split: if_splits)
  show "MemorySessionStore_Load now k st = (DataResult_Success \<lparr>sr_player_id = k, sr_token = tok\<rparr>, st)"
    if "session_live st k = Some (tok, e)" "now < e"
    using inv that
    by (auto simp: memory_store_defs session_invar_def session_live_def
        intro!: arg_cong[of _ _ DataResult_Success] SessionRecord.equality)
  show "fst (MemorySessionStore_Load now k st) = DataResult_NotFound"
    if "\<And>tok e. session_live st k = Some (tok, e) \<Longrightarrow> e \<le> now"
    using that by (force simp: memory_store_defs session_live_def split: option.splits)
  show "session_invar st' \<and> session_live st' =
      (if \<exists>tok e. session_live st k = Some (tok, e) \<and> e \<le> now
       then (session_live st)(k := None) else session_live st)"
    if "MemorySessionStore_Load now k st = (lres, st')"
    using inv that
    by (auto simp: memory_store_defs session_invar_def session_live_def fun_eq_iff
        split: option.splits if_splits)
  show "session_invar st' \<and> session_live st' =
      (if OperationResult_Ok res then (session_live st)(k := None) else session_live st)"
    if "MemorySessionStore_Remove k st = (res, st')"
    using inv that
    by (auto simp: memory_store_defs data_result_defs session_invar_def session_live_def fun_eq_iff
        split: if_splits)
qed

section \<open>Properties of the stores\<close>

lemma refused_saves:
  "repo_run MemoryPlayerRepository_Save MemoryPlayerRepository_DeleteByAccount ops repo = (h, repo') \<Longrightarrow>
   (RSave p, False) \<in> set h \<Longrightarrow> pr_player_id p = 0 \<or> pr_account p = [] \<or> pr_nickname p = []"
proof (induction ops arbitrary: h repo)
  case (Cons op ops)
  then show ?case
    by (cases op) (auto simp: memory_store_defs data_result_defs split: prod.splits if_splits)
qed simp

text \<open>
  The in-memory repository is a last-write-wins table: after any sequence of \<open>Save\<close> and
  \<open>DeleteByAccount\<close> calls on an empty repository, \<open>LoadByAccount\<close> finds exactly the record of the
  last successful \<open>Save\<close> for that account that was not deleted since, that record carries the account
  it was looked up with, and every failing \<open>Save\<close> was a record without id, account or nickname.
\<close>

theorem repository_last_write_wins:
  assumes "repo_run MemoryPlayerRepository_Save MemoryPlayerRepository_DeleteByAccount ops um_empty =
      (h, repo)"
  shows "MemoryPlayerRepository_LoadByAccount account repo =
      (case last_write account None h of
         None \<Rightarrow> DataResult_NotFound
       | Some p \<Rightarrow> DataResult_Success p) \<and>
    (\<forall>p. last_write account None h = Some p \<longrightarrow> record_valid account p) \<and>
    (\<forall>p. (RSave p, False) \<in> set h \<longrightarrow>
       pr_player_id p = 0 \<or> pr_account p = [] \<or> pr_nickname p = [])"
proof -
  have "um_find repo account = last_write account None h"
    using mem_players.run_stored[OF assms, of account] by simp
  then show ?thesis
    using mem_players.run_keyed[OF assms, of account] refused_saves[OF assms]
    by (auto simp: MemoryPlayerRepository_LoadByAccount_def)
qed

definition example_record :: "u64 \<Rightarrow> string \<Rightarrow> PlayerRecord" where
  "example_record i a =
     \<lparr>pr_player_id = i, pr_account = a, pr_nickname = ''Nova-1'', pr_position_x = DFin 500,
      pr_position_y = DFin 1000, pr_position_z = DFin 0, pr_last_login_unix = 0\<rparr>"

theorem repository_last_write_wins_witness:
  "\<exists>h repo. repo_run MemoryPlayerRepository_Save MemoryPlayerRepository_DeleteByAccount
       [RSave (example_record 7 ''a''), RSave (example_record 8 ''b''), RSave (example_record 0 ''b''),
        RDelete ''a''] um_empty = (h, repo) \<and>
     MemoryPlayerRepository_LoadByAccount ''b'' repo = DataResult_Success (example_record 8 ''b'') \<and>
     MemoryPlayerRepository_LoadByAccount ''a'' repo = DataResult_NotFound"
proof -
  let ?ops = "[RSave (example_record 7 ''a''), RSave (example_record 8 ''b''),
    RSave (example_record 0 ''b''), RDelete ''a'']"
  let ?h = "[(RSave (example_record 7 ''a''), True), (RSave (example_record 8 ''b''), True),
    (RSave (example_record 0 ''b''), False), (RDelete ''a'', True)]"
  obtain repo where run: "repo_run MemoryPlayerRepository_Save MemoryPlayerRepository_DeleteByAccount
      ?ops um_empty = (?h, repo)"
    by (simp add: memory_store_defs data_result_defs example_record_def)
  show ?thesis
    using run repository_last_write_wins[OF run, of "''a''"] repository_last_write_wins[OF run, of "''b''"]
    by (intro exI[of _ ?h] exI[of _ repo]) (simp add: example_record_def)
qed

text \<open>
  C30: A stored session lives exactly as long as its time to live: once \<open>Store\<close> has succeeded at
  \<open>t0\<close>, every later \<open>Load\<close> of that player returns that session before \<open>t0 + ttl\<close> and \<open>kNotFound\<close> from
  then on, whatever happens to other players' sessions and however often this one is loaded in
  between, as long as nobody stores or removes a session of the same player.
\<close>

theorem session_lives_until_ttl:
  assumes "session_invar st" "MemorySessionStore_Store t0 s ttl st = Inr (res, st1)"
    and "OperationResult_Ok res"
    and "session_run MemorySessionStore_Store MemorySessionStore_Load MemorySessionStore_Remove
      ops st1 = Inr st2"
    and "sorted (t0 # map fst ops @ [t])"
    and "\<forall>(_, op) \<in> set ops. \<not> overwrites (sr_player_id s) op"
  shows "fst (MemorySessionStore_Load t (sr_player_id s) st2) =
    (if t < t0 + ttl * ns_per_second then DataResult_Success s else DataResult_NotFound)"
  using assms by (rule mem_sessions.stored_until_deadline)

theorem session_lives_until_ttl_witness:
  "\<exists>st1 st2. MemorySessionStore_Store 5 \<lparr>sr_player_id = 7, sr_token = ''ab''\<rparr> 2 um_empty =
       Inr (OperationResult_Success, st1) \<and>
     session_run MemorySessionStore_Store MemorySessionStore_Load MemorySessionStore_Remove
       [(6, SLoad 7), (9, SStore \<lparr>sr_player_id = 8, sr_token = ''cd''\<rparr> 1), (10, SRemove 9)] st1 = Inr st2 \<and>
     fst (MemorySessionStore_Load 2000000004 7 st2) =
       DataResult_Success \<lparr>sr_player_id = 7, sr_token = ''ab''\<rparr> \<and>
     fst (MemorySessionStore_Load 2000000005 7 st2) = DataResult_NotFound"
proof -
  let ?s = "\<lparr>sr_player_id = 7, sr_token = ''ab''\<rparr>"
  let ?ops = "[(6, SLoad 7), (9, SStore \<lparr>sr_player_id = 8, sr_token = ''cd''\<rparr> 1), (10, SRemove 9)]"
  have inv: "session_invar um_empty" by (simp add: session_invar_def)
  obtain st1 where st1: "MemorySessionStore_Store 5 ?s 2 um_empty = Inr (OperationResult_Success, st1)"
    by (simp add: memory_store_defs deadline_def int64_def ns_per_second_def)
  obtain st2 where st2: "session_run MemorySessionStore_Store MemorySessionStore_Load
      MemorySessionStore_Remove ?ops st1 = Inr st2"
    by (simp add: memory_store_defs deadline_def int64_def ns_per_second_def split: option.splits)
  note at = session_lives_until_ttl[OF inv st1 _ st2]
  show ?thesis
    using st1 st2 at[of 2000000004] at[of 2000000005]
    by (intro exI[of _ st1] exI[of _ st2]) (simp add: data_result_defs ns_per_second_def)
qed

end
