(* ===== verification/Thread_Pool.thy ===== *)
theory Thread_Pool
  imports Mmo_Prelude "HOL-Library.Multiset"
begin

text \<open>
  \<open>src/concurrency/bounded_thread_pool.cpp\<close>. The state is the class's fields, with each
  \<open>std::thread\<close> of \<open>workers_\<close> represented by the point of \<open>WorkerLoop\<close> it has reached. The functions
  below are the critical sections of the source; the step relation \<open>pool_step\<close> interleaves them with
  the condition variable's notifications, which the source issues after it has released the mutex,
  and with the spurious wake-ups that C++ allows.
\<close>

section \<open>State and critical sections\<close>

datatype 'task worker =
    Checking \<comment> \<open>about to test the wait predicate under the lock\<close>
  | Waiting \<comment> \<open>blocked on \<open>task_available_\<close>\<close>
  | Executing 'task
  | Exited

record 'task BoundedThreadPool =
  queue_capacity :: nat
  tasks :: "'task list"
  workers :: "'task worker list"
  accepting_tasks :: bool

text \<open>\<open>spawn i\<close> says whether the operating system could start the \<open>i\<close>-th thread.\<close>

definition BoundedThreadPool_new ::
  "(nat \<Rightarrow> bool) \<Rightarrow> nat \<Rightarrow> nat \<Rightarrow> 'task BoundedThreadPool outcome" where
  "BoundedThreadPool_new spawn worker_count capacity =
     (if worker_count = 0 \<or> capacity = 0
      then Inl (Throw (invalid_argument ''worker count and queue capacity must be positive''))
      else if \<not> list_all spawn [0..<worker_count] then Inl (Throw (system_error ''thread''))
      else Inr \<lparr>queue_capacity = capacity, tasks = [], workers = replicate worker_count Checking,
                accepting_tasks = True\<rparr>)"

definition TrySubmit :: "'task option \<Rightarrow> 'task BoundedThreadPool \<Rightarrow> bool \<times> 'task BoundedThreadPool" where
  "TrySubmit task pool =
     (case task of
        None \<Rightarrow> (False, pool)
      | Some t \<Rightarrow>
          if \<not> accepting_tasks pool \<or> length (tasks pool) \<ge> queue_capacity pool then (False, pool)
          else (True, pool\<lparr>tasks := tasks pool @ [t]\<rparr>))"

definition PendingTasks :: "'task BoundedThreadPool \<Rightarrow> nat" where
  "PendingTasks pool = length (tasks pool)"

definition AcceptingTasks :: "'task BoundedThreadPool \<Rightarrow> bool" where
  "AcceptingTasks pool = accepting_tasks pool"

text \<open>
  One pass of \<open>WorkerLoop\<close> by worker \<open>i\<close>: the section under the lock, and the return of the task it
  runs (the \<open>catch (...)\<close> makes a throwing task look like a returning one).
\<close>

definition WorkerLoop_take :: "nat \<Rightarrow> 'task BoundedThreadPool \<Rightarrow> 'task BoundedThreadPool" where
  "WorkerLoop_take i pool =
     (case tasks pool of
        [] \<Rightarrow> pool\<lparr>workers := (workers pool)[i := if accepting_tasks pool then Waiting else Exited]\<rparr>
      | t # rest \<Rightarrow> pool\<lparr>tasks := rest, workers := (workers pool)[i := Executing t]\<rparr>)"

definition WorkerLoop_done :: "nat \<Rightarrow> 'task BoundedThreadPool \<Rightarrow> 'task BoundedThreadPool" where
  "WorkerLoop_done i pool = pool\<lparr>workers := (workers pool)[i := Checking]\<rparr>"

definition wake :: "nat \<Rightarrow> 'task BoundedThreadPool \<Rightarrow> 'task BoundedThreadPool" where
  "wake i pool = pool\<lparr>workers := (workers pool)[i := Checking]\<rparr>"

fun wake_worker :: "'task worker \<Rightarrow> 'task worker" where
  "wake_worker Waiting = Checking"
| "wake_worker w = w"

definition notify_all :: "'task BoundedThreadPool \<Rightarrow> 'task BoundedThreadPool" where
  "notify_all pool = pool\<lparr>workers := map wake_worker (workers pool)\<rparr>"

text \<open>
  \<open>Shutdown\<close> is three sections: closing under the lock (\<open>None\<close> when it returns early), the broadcast,
  and, once every thread has been joined, \<open>workers_.clear()\<close>.
\<close>

definition Shutdown_close :: "'task BoundedThreadPool \<Rightarrow> 'task BoundedThreadPool option" where
  "Shutdown_close pool =
     (if \<not> accepting_tasks pool \<and> workers pool = [] then None
      else Some (pool\<lparr>accepting_tasks := False\<rparr>))"

definition Shutdown_clear :: "'task BoundedThreadPool \<Rightarrow> 'task BoundedThreadPool" where
  "Shutdown_clear pool = pool\<lparr>workers := []\<rparr>"

lemmas pool_defs = TrySubmit_def WorkerLoop_take_def WorkerLoop_done_def wake_def notify_all_def
  Shutdown_close_def Shutdown_clear_def

section \<open>The concurrent system\<close>

datatype shutdown_phase = Running | Closed | Joining | Joined

text \<open>
  \<open>unnotified\<close> counts the \<open>TrySubmit\<close> calls that have released the mutex and not yet called
  \<open>notify_one\<close>. \<open>accepted\<close>, \<open>started\<close> and \<open>finished\<close> are histories, read by no step.
\<close>

record 'task pool_sys =
  pool :: "'task BoundedThreadPool"
  unnotified :: nat
  phase :: shutdown_phase
  accepted :: "'task list"
  started :: "'task list"
  finished :: "'task list"

definition pool_init :: "'task pool_sys \<Rightarrow> bool" where
  "pool_init s \<longleftrightarrow>
     (\<exists>spawn n cap. BoundedThreadPool_new spawn n cap = Inr (pool s)) \<and> unnotified s = 0 \<and>
     phase s = Running \<and> accepted s = [] \<and> started s = [] \<and> finished s = []"

inductive pool_step :: "'task pool_sys \<Rightarrow> 'task pool_sys \<Rightarrow> bool" where
  submit: "TrySubmit (Some t) (pool s) = (True, p) \<Longrightarrow>
    pool_step s (s\<lparr>pool := p, unnotified := Suc (unnotified s), accepted := accepted s @ [t]\<rparr>)"
| refuse: "TrySubmit task (pool s) = (False, p) \<Longrightarrow> pool_step s (s\<lparr>pool := p\<rparr>)"
| notify_one: "unnotified s = Suc n \<Longrightarrow> i < length (workers (pool s)) \<Longrightarrow> workers (pool s) ! i = Waiting \<Longrightarrow>
    pool_step s (s\<lparr>pool := wake i (pool s), unnotified := n\<rparr>)"
| notify_nobody: "unnotified s = Suc n \<Longrightarrow> Waiting \<notin> set (workers (pool s)) \<Longrightarrow>
    pool_step s (s\<lparr>unnotified := n\<rparr>)"
| spurious: "i < length (workers (pool s)) \<Longrightarrow> workers (pool s) ! i = Waiting \<Longrightarrow>
    pool_step s (s\<lparr>pool := wake i (pool s)\<rparr>)"
| take: "i < length (workers (pool s)) \<Longrightarrow> workers (pool s) ! i = Checking \<Longrightarrow>
    pool_step s (s\<lparr>pool := WorkerLoop_take i (pool s), started := started s @ take 1 (tasks (pool s))\<rparr>)"
| finish: "i < length (workers (pool s)) \<Longrightarrow> workers (pool s) ! i = Executing t \<Longrightarrow>
    pool_step s (s\<lparr>pool := WorkerLoop_done i (pool s), finished := finished s @ [t]\<rparr>)"
| close: "phase s = Running \<Longrightarrow> Shutdown_close (pool s) = Some p \<Longrightarrow>
    pool_step s (s\<lparr>pool := p, phase := Closed\<rparr>)"
| broadcast: "phase s = Closed \<Longrightarrow> pool_step s (s\<lparr>pool := notify_all (pool s), phase := Joining\<rparr>)"
| join: "phase s = Joining \<Longrightarrow> \<forall>w \<in> set (workers (pool s)). w = Exited \<Longrightarrow>
    pool_step s (s\<lparr>pool := Shutdown_clear (pool s), phase := Joined\<rparr>)"

inductive_cases pool_stepE: "pool_step s s'"

text \<open>The tasks that workers are running right now.\<close>

fun worker_task :: "'task worker \<Rightarrow> 'task multiset" where
  "worker_task (Executing t) = {#t#}"
| "worker_task _ = {#}"

definition executing :: "'task BoundedThreadPool \<Rightarrow> 'task multiset" where
  "executing p = (\<Sum>w \<leftarrow> workers p. worker_task w)"

text \<open>
  The invariant: the capacity bound, the accounting of tasks, which worker states each phase
  allows, and that a queued task is never left to sleeping workers without a wake-up on its way.
\<close>

definition pool_inv :: "'task pool_sys \<Rightarrow> bool" where
  "pool_inv s \<longleftrightarrow>
     length (tasks (pool s)) \<le> queue_capacity (pool s) \<and>
     accepted s = started s @ tasks (pool s) \<and>
     mset (started s) = mset (finished s) + executing (pool s) \<and>
     (accepting_tasks (pool s) \<longleftrightarrow> phase s = Running) \<and>
     (workers (pool s) = [] \<longleftrightarrow> phase s = Joined) \<and>
     (phase s = Joining \<longrightarrow> Waiting \<notin> set (workers (pool s))) \<and>
     (phase s = Joined \<longrightarrow> tasks (pool s) = []) \<and>
     (Exited \<in> set (workers (pool s)) \<longrightarrow> tasks (pool s) = [] \<and> phase s \<noteq> Running) \<and>
     (tasks (pool s) \<noteq> [] \<longrightarrow>
        (\<exists>w \<in> set (workers (pool s)). w \<noteq> Waiting) \<or> unnotified s > 0 \<or> phase s = Closed)"

section \<open>The invariant holds in every reachable state\<close>

lemma sum_list_update_add:
  fixes f :: "'a \<Rightarrow> 'b :: cancel_comm_monoid_add"
  assumes "i < length xs"
  shows "(\<Sum>x \<leftarrow> xs[i := y]. f x) + f (xs ! i) = (\<Sum>x \<leftarrow> xs. f x) + f y"
  using assms
proof (induction xs arbitrary: i)
  case (Cons x xs)
  then show ?case by (cases i) (auto simp: ac_simps)
qed simp

lemma executing_update:
  "i < length (workers p) \<Longrightarrow>
   executing (p\<lparr>workers := (workers p)[i := w]\<rparr>) + worker_task (workers p ! i) = executing p + worker_task w"
  by (simp add: executing_def sum_list_update_add)

lemma executing_tasks_update [simp]: "executing (p\<lparr>tasks := ts\<rparr>) = executing p"
  by (simp add: executing_def)

lemma executing_accepting_update [simp]: "executing (p\<lparr>accepting_tasks := b\<rparr>) = executing p"
  by (simp add: executing_def)

lemma executing_no_task:
  "(\<And>w. w \<in> set (workers p) \<Longrightarrow> worker_task w = {#}) \<Longrightarrow> executing p = {#}"
proof -
  assume "\<And>w. w \<in> set (workers p) \<Longrightarrow> worker_task w = {#}"
  then have *: "map worker_task (workers p) = map (\<lambda>_. {#}) (workers p)" by simp
  show ?thesis unfolding executing_def * by simp
qed

lemma pool_op_fields [simp]:
  "tasks (wake i p) = tasks p" "queue_capacity (wake i p) = queue_capacity p"
  "accepting_tasks (wake i p) = accepting_tasks p" "workers (wake i p) = (workers p)[i := Checking]"
  "tasks (notify_all p) = tasks p" "queue_capacity (notify_all p) = queue_capacity p"
  "accepting_tasks (notify_all p) = accepting_tasks p"
  "workers (notify_all p) = map wake_worker (workers p)"
  "tasks (WorkerLoop_done i p) = tasks p" "queue_capacity (WorkerLoop_done i p) = queue_capacity p"
  "accepting_tasks (WorkerLoop_done i p) = accepting_tasks p"
  "workers (WorkerLoop_done i p) = (workers p)[i := Checking]"
  "tasks (WorkerLoop_take i p) = tl (tasks p)" "queue_capacity (WorkerLoop_take i p) = queue_capacity p"
  "accepting_tasks (WorkerLoop_take i p) = accepting_tasks p"
  "workers (WorkerLoop_take i p) = (workers p)[i :=
     if tasks p = [] then if accepting_tasks p then Waiting else Exited else Executing (hd (tasks p))]"
  by (simp_all add: pool_defs split: list.splits)

lemma executing_wake [simp]:
  "i < length (workers p) \<Longrightarrow> workers p ! i = Waiting \<Longrightarrow> executing (wake i p) = executing p"
  using executing_update[of i p Checking] by (simp add: wake_def)

lemma executing_notify_all [simp]: "executing (notify_all p) = executing p"
proof -
  have "worker_task (wake_worker w) = worker_task w" for w :: "'a worker"
    by (cases w) auto
  then show ?thesis by (simp add: executing_def notify_all_def comp_def)
qed

lemma executing_take:
  "i < length (workers p) \<Longrightarrow> workers p ! i = Checking \<Longrightarrow>
   executing (WorkerLoop_take i p) = executing p + mset (take 1 (tasks p))"
  using executing_update[of i p "if accepting_tasks p then Waiting else Exited"]
    executing_update[of i p "Executing (hd (tasks p))"]
  by (auto simp: WorkerLoop_take_def executing_def split: list.splits)

lemma executing_done:
  "i < length (workers p) \<Longrightarrow> workers p ! i = Executing t \<Longrightarrow>
   executing p = add_mset t (executing (WorkerLoop_done i p))"
  using executing_update[of i p Checking] by (simp add: WorkerLoop_done_def)

lemma in_updateD: "x \<in> set (xs[i := y]) \<Longrightarrow> x = y \<or> x \<in> set xs"
  using set_update_subset_insert by fast

lemma some_awake_update:
  "i < length xs \<Longrightarrow> y \<noteq> w \<Longrightarrow> \<exists>x \<in> set (xs[i := y]). x \<noteq> w"
  by (meson set_update_memI)

lemma BoundedThreadPool_new_Inr_iff:
  "BoundedThreadPool_new spawn n cap = Inr p \<longleftrightarrow> 0 < n \<and> 0 < cap \<and> list_all spawn [0..<n] \<and>
     p = \<lparr>queue_capacity = cap, tasks = [], workers = replicate n Checking, accepting_tasks = True\<rparr>"
  by (auto simp: BoundedThreadPool_new_def)

lemma pool_inv_init: "pool_init s \<Longrightarrow> pool_inv s"
  by (auto simp: pool_init_def pool_inv_def BoundedThreadPool_new_Inr_iff intro!: executing_no_task)

lemma wake_worker_eq [simp]:
  "wake_worker w \<noteq> Waiting" "Waiting \<noteq> wake_worker w" "wake_worker w = Exited \<longleftrightarrow> w = Exited"
  "Exited = wake_worker w \<longleftrightarrow> w = Exited"
  by (cases w; simp)+

lemma pool_inv_step:
  assumes inv: "pool_inv s" and step: "pool_step s s'"
  shows "pool_inv s'"
  using step
proof cases
  case (submit t p)
  then show ?thesis using inv
    by (auto simp: pool_inv_def TrySubmit_def split: if_splits)
next
  case (refuse task p)
  then show ?thesis using inv
    by (auto simp: pool_inv_def TrySubmit_def split: if_splits option.splits)
next
  case (notify_one n i)
  then show ?thesis using inv
    by (auto simp: pool_inv_def dest!: in_updateD intro!: some_awake_update)
next
  case (notify_nobody n)
  then show ?thesis using inv
    by (cases "workers (pool s)") (auto simp: pool_inv_def)
next
  case (spurious i)
  then show ?thesis using inv
    by (auto simp: pool_inv_def dest!: in_updateD intro!: some_awake_update)
next
  case (take i)
  then show ?thesis using inv
    by (cases "tasks (pool s)") (auto simp: pool_inv_def executing_take dest!: in_updateD intro!: some_awake_update split: if_splits)
next
  case (finish i t)
  then show ?thesis using inv
    by (auto simp: pool_inv_def executing_done dest!: in_updateD intro!: some_awake_update)
next
  case (close p)
  then show ?thesis using inv
    by (auto simp: pool_inv_def Shutdown_close_def split: if_splits)
next
  case broadcast
  then show ?thesis using inv
    by (cases "workers (pool s)") (auto simp: pool_inv_def)
next
  case join
  then have "executing (pool s) = {#}" "executing (Shutdown_clear (pool s)) = {#}"
    by (auto intro!: executing_no_task simp: Shutdown_clear_def)
  moreover have "Exited \<in> set (workers (pool s))"
    using join inv by (cases "workers (pool s)") (auto simp: pool_inv_def)
  ultimately show ?thesis using inv join
    by (simp add: pool_inv_def Shutdown_clear_def)
qed

interpretation pool: step_invariant pool_init pool_step pool_inv
  by unfold_locales (auto intro: pool_inv_init pool_inv_step)

section \<open>Refinement of a bounded executor\<close>

text \<open>
  What a client may think the pool is: a bounded queue that is served in order by at most \<open>n\<close> tasks
  at a time until it is closed.
\<close>

record 'task executor =
  waiting :: "'task list"
  running :: "'task multiset"
  completed :: "'task list"
  opened :: bool

inductive executor_step :: "nat \<Rightarrow> nat \<Rightarrow> 'task executor \<Rightarrow> 'task executor \<Rightarrow> bool"
  for capacity n where
  accept: "opened e \<Longrightarrow> length (waiting e) < capacity \<Longrightarrow>
    executor_step capacity n e (e\<lparr>waiting := waiting e @ [t]\<rparr>)"
| start: "waiting e = t # rest \<Longrightarrow> size (running e) < n \<Longrightarrow>
    executor_step capacity n e (e\<lparr>waiting := rest, running := add_mset t (running e)\<rparr>)"
| complete: "t \<in># running e \<Longrightarrow>
    executor_step capacity n e (e\<lparr>running := running e - {#t#}, completed := completed e @ [t]\<rparr>)"
| shut: "executor_step capacity n e (e\<lparr>opened := False\<rparr>)"

definition executor_of :: "'task pool_sys \<Rightarrow> 'task executor" where
  "executor_of s =
     \<lparr>waiting = tasks (pool s), running = executing (pool s), completed = finished s,
      opened = accepting_tasks (pool s)\<rparr>"

lemma size_executing: "size (executing p) = length (filter (\<lambda>w. worker_task w \<noteq> {#}) (workers p))"
proof -
  have "size (\<Sum>w \<leftarrow> ws. worker_task w) = length (filter (\<lambda>w. worker_task w \<noteq> {#}) ws)"
    for ws :: "'a worker list"
  proof (induction ws)
    case (Cons w ws)
    then show ?case by (cases w) auto
  qed simp
  then show ?thesis by (simp add: executing_def)
qed

lemma size_executing_less:
  "i < length (workers p) \<Longrightarrow> workers p ! i = Checking \<Longrightarrow> size (executing p) < length (workers p)"
  unfolding size_executing by (rule length_filter_less[of "workers p ! i"]) (rule nth_mem, simp_all)

lemma executor_simulation:
  assumes "pool_step s s'" and n: "length (workers (pool s)) \<le> n"
  shows "executor_of s' = executor_of s \<or>
    executor_step (queue_capacity (pool s)) n (executor_of s) (executor_of s')"
  using assms(1)
proof cases
  case (submit t p)
  then show ?thesis
    using executor_step.accept[of "executor_of s"]
    by (auto simp: executor_of_def TrySubmit_def split: if_splits)
next
  case (take i)
  show ?thesis
  proof (cases "tasks (pool s)")
    case (Cons t rest)
    have "size (running (executor_of s)) < n"
      using size_executing_less[OF take(2,3)] n by (simp add: executor_of_def)
    then show ?thesis
      using executor_step.start[of "executor_of s" t rest n] take executing_take[OF take(2,3)] Cons
      by (simp add: executor_of_def)
  qed (use take executing_take[OF take(2,3)] in \<open>simp add: executor_of_def\<close>)
next
  case (finish i t)
  then show ?thesis
    using executor_step.complete[of t "executor_of s"]
    by (simp add: executor_of_def executing_done)
next
  case (close p)
  then show ?thesis
    using executor_step.shut[of _ n "executor_of s"]
    by (auto simp: executor_of_def Shutdown_close_def split: if_splits)
next
  case join
  moreover have "executing (pool s) = {#}"
    using join(3) by (intro executing_no_task) auto
  ultimately show ?thesis by (simp add: executor_of_def Shutdown_clear_def executing_def)
qed (auto simp: executor_of_def TrySubmit_def split: if_splits option.splits)

lemma pool_step_sizes:
  "pool_step s s' \<Longrightarrow> queue_capacity (pool s') = queue_capacity (pool s) \<and>
     length (workers (pool s')) \<le> length (workers (pool s))"
  by (erule pool_step.cases) (auto simp: TrySubmit_def Shutdown_close_def Shutdown_clear_def
      split: if_splits option.splits)

lemma pool_steps_sizes:
  "pool_step\<^sup>*\<^sup>* s s' \<Longrightarrow> queue_capacity (pool s') = queue_capacity (pool s) \<and>
     length (workers (pool s')) \<le> length (workers (pool s))"
  by (induction rule: rtranclp_induct) (auto dest: pool_step_sizes)

section \<open>Shutdown\<close>

fun worker_weight :: "'task worker \<Rightarrow> nat" where
  "worker_weight Exited = 0"
| "worker_weight Checking = 1"
| "worker_weight Waiting = 2"
| "worker_weight (Executing t) = 2"

fun phase_weight :: "shutdown_phase \<Rightarrow> nat" where
  "phase_weight Running = 3"
| "phase_weight Closed = 2"
| "phase_weight Joining = 1"
| "phase_weight Joined = 0"

definition work_left :: "'task pool_sys \<Rightarrow> nat" where
  "work_left s = 3 * length (tasks (pool s)) + (\<Sum>w \<leftarrow> workers (pool s). worker_weight w) +
     unnotified s + phase_weight (phase s)"

lemma weight_update:
  "i < length ws \<Longrightarrow>
   (\<Sum>w \<leftarrow> ws[i := w']. worker_weight w) + worker_weight (ws ! i) = (\<Sum>w \<leftarrow> ws. worker_weight w) + worker_weight w'"
  by (rule sum_list_update_add)

lemma weight_wake_all: "(\<Sum>w \<leftarrow> ws. worker_weight (wake_worker w)) \<le> (\<Sum>w \<leftarrow> ws. worker_weight w)"
proof (rule sum_list_mono)
  fix w :: "'a worker"
  show "worker_weight (wake_worker w) \<le> worker_weight w" by (cases w) auto
qed

lemma work_left_decreases:
  assumes inv: "pool_inv s" and closed: "phase s \<noteq> Running" and step: "pool_step s s'" and ne: "s' \<noteq> s"
  shows "work_left s' < work_left s"
  using step
proof cases
  case (submit t p)
  then show ?thesis using inv closed by (auto simp: pool_inv_def TrySubmit_def split: if_splits)
next
  case (refuse task p)
  then show ?thesis using ne by (auto simp: TrySubmit_def split: if_splits option.splits)
next
  case (notify_one n i)
  then show ?thesis using weight_update[of i "workers (pool s)" Checking] by (simp add: work_left_def)
next
  case (spurious i)
  then show ?thesis using weight_update[of i "workers (pool s)" Checking] by (simp add: work_left_def)
next
  case (take i)
  then show ?thesis
    using inv closed weight_update[of i "workers (pool s)" Exited]
      weight_update[of i "workers (pool s)" "Executing (hd (tasks (pool s)))"]
    by (cases "tasks (pool s)") (auto simp: work_left_def pool_inv_def)
next
  case (finish i t)
  then show ?thesis using weight_update[of i "workers (pool s)" Checking] by (simp add: work_left_def)
next
  case broadcast
  then show ?thesis using weight_wake_all[of "workers (pool s)"] by (simp add: work_left_def comp_def)
next
  case join
  then show ?thesis by (simp add: work_left_def Shutdown_clear_def)
qed (use closed in \<open>simp_all add: work_left_def\<close>)

lemma awake_worker_steps:
  assumes "w \<in> set (workers (pool s))" "w \<noteq> Waiting" "w \<noteq> Exited"
  shows "\<exists>s'. pool_step s s' \<and> s' \<noteq> s"
proof -
  obtain i where i: "i < length (workers (pool s))" "workers (pool s) ! i = w"
    using assms(1) by (auto simp: in_set_conv_nth)
  have "\<exists>s'. pool_step s s' \<and> workers (pool s') ! i \<noteq> workers (pool s) ! i"
  proof (cases w)
    case Checking
    with i pool_step.take[of i s] show ?thesis by (intro exI conjI) (auto split: if_splits)
  next
    case (Executing t)
    with i pool_step.finish[of i s t] show ?thesis by (intro exI conjI) auto
  qed (use assms in auto)
  then show ?thesis by metis
qed

lemma shutdown_progress:
  assumes inv: "pool_inv s" and closed: "phase s \<noteq> Running" and not_joined: "phase s \<noteq> Joined"
  shows "\<exists>s'. pool_step s s' \<and> s' \<noteq> s"
proof (cases "\<exists>w \<in> set (workers (pool s)). w \<noteq> Waiting \<and> w \<noteq> Exited")
  case False
  have "\<exists>s'. pool_step s s' \<and> phase s' \<noteq> phase s"
  proof (cases "phase s")
    case Closed
    then show ?thesis using pool_step.broadcast[OF Closed] by (intro exI conjI) auto
  next
    case Joining
    then have "\<forall>w \<in> set (workers (pool s)). w = Exited"
      using False inv by (auto simp: pool_inv_def)
    then show ?thesis using Joining pool_step.join[OF Joining] by (intro exI conjI) auto
  qed (use closed not_joined in simp_all)
  then show ?thesis by metis
qed (use awake_worker_steps in blast)

lemma shutdown_reaches_joined:
  assumes "pool_inv s" "phase s \<noteq> Running"
  shows "\<exists>s'. pool_step\<^sup>*\<^sup>* s s' \<and> phase s' = Joined"
proof (rule pool.reaches_goal[where cls = "\<lambda>s. phase s \<noteq> Running" and measure_of = work_left])
  show "phase s' \<noteq> Running" if "phase s \<noteq> Running" "pool_step s s'" for s s' :: "'a pool_sys"
    using that(2,1) by cases auto
qed (use assms in \<open>auto intro: shutdown_progress work_left_decreases\<close>)

section \<open>Properties of the pool\<close>

text \<open>
  C14: Under every interleaving of submitters, workers, notifications, spurious wake-ups and
  shutdown the pool behaves like a bounded queue that is served first-in first-out by at most
  \<open>worker_count\<close> tasks at a time: each run of the pool is, step by step, a run of the abstract
  executor (or leaves it unchanged).
\<close>

theorem pool_refines_executor:
  assumes "pool_init s0" and "pool_step\<^sup>*\<^sup>* s0 s"
  shows "(executor_step (queue_capacity (pool s0)) (length (workers (pool s0))))\<^sup>*\<^sup>*
           (executor_of s0) (executor_of s)"
  using assms(2)
proof (induction rule: rtranclp_induct)
  case (step s s')
  then show ?case
    using executor_simulation[OF step(2)] pool_steps_sizes[OF step(1)]
    by (metis rtranclp.rtrancl_into_rtrancl)
qed simp

text \<open>The example pool of one worker and capacity one, and the state after a task was submitted.\<close>

definition example_pool :: "nat pool_sys" where
  "example_pool =
     \<lparr>pool = \<lparr>queue_capacity = 1, tasks = [], workers = [Checking], accepting_tasks = True\<rparr>,
      unnotified = 0, phase = Running, accepted = [], started = [], finished = []\<rparr>"

definition example_submitted :: "nat pool_sys" where
  "example_submitted =
     \<lparr>pool = \<lparr>queue_capacity = 1, tasks = [5], workers = [Checking], accepting_tasks = True\<rparr>,
      unnotified = 1, phase = Running, accepted = [5], started = [], finished = []\<rparr>"

lemma example_pool_init: "pool_init example_pool"
  unfolding pool_init_def BoundedThreadPool_new_Inr_iff
  by (auto simp: example_pool_def intro!: exI[of _ "\<lambda>_. True"] exI[of _ 1])

lemma example_submit: "pool_step example_pool example_submitted"
  using pool_step.submit[of 5 example_pool]
  by (simp add: TrySubmit_def example_pool_def example_submitted_def)

theorem pool_refines_executor_witness:
  "(executor_step 1 1)\<^sup>*\<^sup>* (executor_of example_pool) (executor_of example_submitted) \<and>
   waiting (executor_of example_submitted) = [5]"
  using pool_refines_executor[OF example_pool_init r_into_rtranclp[of pool_step, OF example_submit]]
  by (simp add: example_pool_def example_submitted_def executor_of_def)

text \<open>
  In every reachable state the queue respects its capacity, tasks have been started in exactly
  the order in which \<open>TrySubmit\<close> accepted them, and every accepted task is in exactly one place:
  finished, executing, or queued. No task is lost or run twice.
\<close>

theorem pool_accounts_for_every_task:
  assumes "pool_init s0" and "pool_step\<^sup>*\<^sup>* s0 s"
  shows "PendingTasks (pool s) \<le> queue_capacity (pool s0) \<and>
    accepted s = started s @ tasks (pool s) \<and>
    mset (accepted s) = mset (finished s) + executing (pool s) + mset (tasks (pool s))"
  using pool.reachable_inv[OF assms] pool_steps_sizes[OF assms(2)]
  by (simp add: pool_inv_def PendingTasks_def)

theorem pool_accounts_for_every_task_witness:
  "pool_step\<^sup>*\<^sup>* example_pool example_submitted \<and>
   PendingTasks (pool example_submitted) \<le> queue_capacity (pool example_pool) \<and>
   mset (accepted example_submitted) = {#5#}"
  using pool_accounts_for_every_task[OF example_pool_init r_into_rtranclp[of pool_step, OF example_submit]]
    example_submit
  by (auto simp: example_submitted_def executing_def)

text \<open>
  C27: No wake-up is lost: whenever a task is queued, either some worker is awake (testing the
  predicate or running a task), or a \<open>notify_one\<close> or the shutdown broadcast is still to come; so the
  pool can always move without a new submission or a spurious wake-up.
\<close>

theorem pool_no_lost_wakeup:
  assumes "pool_init s0" and "pool_step\<^sup>*\<^sup>* s0 s" and "tasks (pool s) \<noteq> []"
  shows "(\<exists>w \<in> set (workers (pool s)). w = Checking \<or> (\<exists>t. w = Executing t)) \<or>
    (unnotified s > 0 \<and> Waiting \<in> set (workers (pool s))) \<or> phase s = Closed"
proof -
  have inv: "pool_inv s" using pool.reachable_inv[OF assms(1,2)] .
  then have "workers (pool s) \<noteq> []" "Exited \<notin> set (workers (pool s))"
    using assms(3) by (auto simp: pool_inv_def)
  then have "\<exists>w \<in> set (workers (pool s)). w \<noteq> Exited" by (cases "workers (pool s)") auto
  with inv \<open>Exited \<notin> _\<close> assms(3) show ?thesis
    unfolding pool_inv_def by (metis worker.exhaust)
qed

theorem pool_no_lost_wakeup_witness:
  "tasks (pool example_submitted) \<noteq> [] \<and>
   ((\<exists>w \<in> set (workers (pool example_submitted)). w = Checking \<or> (\<exists>t. w = Executing t)) \<or>
    (unnotified example_submitted > 0 \<and> Waiting \<in> set (workers (pool example_submitted))) \<or>
    phase example_submitted = Closed)"
  using pool_no_lost_wakeup[OF example_pool_init r_into_rtranclp[of pool_step, OF example_submit]]
  by (simp add: example_submitted_def)

text \<open>
  C28: \<open>Shutdown\<close> drains: once it has closed the pool, every step that changes the state brings
  \<open>work_left\<close> down, a run to completion exists from every such state, and when all workers have been
  joined every task that was ever accepted has run exactly once.
\<close>

theorem shutdown_drains:
  assumes "pool_init s0" and "pool_step\<^sup>*\<^sup>* s0 s" and "phase s \<noteq> Running"
  shows "(\<forall>s'. pool_step s s' \<longrightarrow> s' \<noteq> s \<longrightarrow> work_left s' < work_left s) \<and>
    (\<exists>s'. pool_step\<^sup>*\<^sup>* s s' \<and> phase s' = Joined) \<and>
    (phase s = Joined \<longrightarrow>
       mset (finished s) = mset (accepted s) \<and> tasks (pool s) = [] \<and> workers (pool s) = [])"
proof -
  have inv: "pool_inv s" using pool.reachable_inv[OF assms(1,2)] .
  moreover have "phase s = Joined \<Longrightarrow> executing (pool s) = {#}"
    using inv by (intro executing_no_task) (auto simp: pool_inv_def)
  ultimately show ?thesis
    using work_left_decreases[OF inv assms(3)] shutdown_reaches_joined[OF inv assms(3)]
    by (auto simp: pool_inv_def)
qed

definition example_closed :: "nat pool_sys" where
  "example_closed =
     \<lparr>pool = \<lparr>queue_capacity = 1, tasks = [5], workers = [Checking], accepting_tasks = False\<rparr>,
      unnotified = 1, phase = Closed, accepted = [5], started = [], finished = []\<rparr>"

theorem shutdown_drains_witness:
  "pool_step\<^sup>*\<^sup>* example_pool example_closed \<and> tasks (pool example_closed) = [5] \<and>
   (\<exists>s'. pool_step\<^sup>*\<^sup>* example_closed s' \<and> phase s' = Joined)"
proof -
  have "pool_step example_submitted example_closed"
    using pool_step.close[of example_submitted]
    by (simp add: Shutdown_close_def example_submitted_def example_closed_def)
  with example_submit have run: "pool_step\<^sup>*\<^sup>* example_pool example_closed" by simp
  show ?thesis
    using run shutdown_drains[OF example_pool_init run] by (simp add: example_closed_def)
qed

end
