(* ===== verification/Completion_Queue.thy ===== *)
theory Completion_Queue
  imports Mmo_Prelude
begin

text \<open>
  \<open>src/concurrency/completion_queue.cpp\<close> and \<open>src/concurrency/event_fd_wakeup.cpp\<close>: the way results of
  database workers get back to the event-loop thread. Workers \<open>Push\<close> and, when the queue was empty,
  write to an eventfd; the loop thread, when epoll reports the eventfd readable, runs the callback
  that \<open>GameServer\<close> registers: \<open>Consume\<close>, then \<open>Drain\<close>.
\<close>

section \<open>EventFdWakeup\<close>

text \<open>
  The kernel's eventfd is a counter: \<open>write\<close> of 1 adds one, and fails with \<open>EAGAIN\<close> when the counter is
  at its maximum; \<open>read\<close> resets it, and fails with \<open>EAGAIN\<close> when it is zero. \<open>interrupts\<close> tells for the
  successive calls of the retry loop whether a signal interrupts them (\<open>EINTR\<close>).
\<close>

definition eventfd_max :: nat where
  "eventfd_max = 2 ^ 64 - 2"

definition eventfd_write :: "nat \<Rightarrow> nat" where
  "eventfd_write n = (if n < eventfd_max then Suc n else n)"

definition eventfd_read :: "nat \<Rightarrow> nat" where
  "eventfd_read n = 0"

fun Notify :: "bool list \<Rightarrow> nat \<Rightarrow> nat" where
  "Notify [] n = eventfd_write n"
| "Notify (interrupted # interrupts) n =
     (if interrupted then Notify interrupts n else eventfd_write n)"

fun Consume :: "bool list \<Rightarrow> nat \<Rightarrow> nat" where
  "Consume [] n = eventfd_read n"
| "Consume (interrupted # interrupts) n =
     (if interrupted then Consume interrupts n else eventfd_read n)"

lemma Notify_eq [simp]: "Notify interrupts n = eventfd_write n"
  by (induction interrupts) auto

lemma Consume_eq [simp]: "Consume interrupts n = 0"
  by (induction interrupts) (auto simp: eventfd_read_def)

lemma eventfd_write_pos [simp]: "0 < eventfd_write n"
  by (auto simp: eventfd_write_def eventfd_max_def)

section \<open>CompletionQueue\<close>

record 'c CompletionQueue =
  completions :: "'c list"
  has_notifier :: bool

definition CompletionQueue_new :: "bool \<Rightarrow> 'c CompletionQueue" where
  "CompletionQueue_new notifier = \<lparr>completions = [], has_notifier = notifier\<rparr>"

text \<open>The first component of \<open>Push\<close> says whether the caller goes on to run the notifier.\<close>

definition Push :: "'c option \<Rightarrow> 'c CompletionQueue \<Rightarrow> bool \<times> 'c CompletionQueue" where
  "Push completion q =
     (case completion of
        None \<Rightarrow> (False, q)
      | Some c \<Rightarrow>
          let should_notify = (completions q = [])
          in (should_notify \<and> has_notifier q, q\<lparr>completions := completions q @ [c]\<rparr>))"

text \<open>One iteration of the loop of \<open>Drain\<close>, up to the point where the completion is called.\<close>

definition Drain_pop :: "nat \<Rightarrow> nat \<Rightarrow> 'c CompletionQueue \<Rightarrow> ('c \<times> 'c CompletionQueue) option" where
  "Drain_pop maximum completed q =
     (if completed < maximum
      then (case completions q of [] \<Rightarrow> None | c # rest \<Rightarrow> Some (c, q\<lparr>completions := rest\<rparr>))
      else None)"

definition CompletionQueue_Size :: "'c CompletionQueue \<Rightarrow> nat" where
  "CompletionQueue_Size q = length (completions q)"

text \<open>
  A whole \<open>Drain\<close> during which no other thread pushes: the number of completions that ran, the queue
  left, and the effect of running them in order on the state \<open>x\<close> of the loop thread.
\<close>

function Drain ::
  "nat \<Rightarrow> nat \<Rightarrow> ('c \<Rightarrow> 'x \<Rightarrow> 'x outcome) \<Rightarrow> 'c CompletionQueue \<Rightarrow> 'x \<Rightarrow> (nat \<times> 'c CompletionQueue \<times> 'x) outcome" where
  "Drain maximum completed call q x =
     (case Drain_pop maximum completed q of
        None \<Rightarrow> Inr (completed, q, x)
      | Some (c, q') \<Rightarrow> outcome_bind (call c x) (\<lambda>x'. Drain maximum (Suc completed) call q' x'))"
  by pat_completeness auto
termination
  by (relation "measure (\<lambda>(_, _, _, q, _). length (completions q))")
    (auto simp: Drain_pop_def split: if_splits list.splits)

declare Drain.simps [simp del]

section \<open>Workers, notifications and the loop thread\<close>

datatype 'c loop_state =
    Polling \<comment> \<open>in \<open>epoll_wait\<close>\<close>
  | Woken \<comment> \<open>the eventfd callback has been entered\<close>
  | Draining nat
  | Calling 'c nat

text \<open>
  \<open>notifying\<close> counts the \<open>Push\<close> calls that have left the critical section with the duty to notify.
  \<open>pushed\<close> and \<open>called\<close> are histories.
\<close>

record 'c cq_sys =
  cq :: "'c CompletionQueue"
  notifying :: nat
  counter :: nat
  loop :: "'c loop_state"
  pushed :: "'c list"
  called :: "'c list"

definition cq_init :: "'c cq_sys \<Rightarrow> bool" where
  "cq_init s \<longleftrightarrow> cq s = CompletionQueue_new True \<and> notifying s = 0 \<and> counter s = 0 \<and> loop s = Polling \<and>
     pushed s = [] \<and> called s = []"

text \<open>The steps of notifying workers and of the loop, for a \<open>Drain\<close> called with bound \<open>maximum\<close>.\<close>

inductive cq_internal :: "nat \<Rightarrow> 'c cq_sys \<Rightarrow> 'c cq_sys \<Rightarrow> bool" for maximum where
  notify: "notifying s = Suc n \<Longrightarrow>
    cq_internal maximum s (s\<lparr>notifying := n, counter := Notify interrupts (counter s)\<rparr>)"
| poll: "loop s = Polling \<Longrightarrow> 0 < counter s \<Longrightarrow> cq_internal maximum s (s\<lparr>loop := Woken\<rparr>)"
| consume: "loop s = Woken \<Longrightarrow>
    cq_internal maximum s (s\<lparr>counter := Consume interrupts (counter s), loop := Draining 0\<rparr>)"
| pop: "loop s = Draining k \<Longrightarrow> Drain_pop maximum k (cq s) = Some (c, q) \<Longrightarrow>
    cq_internal maximum s (s\<lparr>cq := q, loop := Calling c k\<rparr>)"
| stop: "loop s = Draining k \<Longrightarrow> Drain_pop maximum k (cq s) = None \<Longrightarrow>
    cq_internal maximum s (s\<lparr>loop := Polling\<rparr>)"
| return: "loop s = Calling c k \<Longrightarrow>
    cq_internal maximum s (s\<lparr>called := called s @ [c], loop := Draining (Suc k)\<rparr>)"

inductive cq_step :: "nat \<Rightarrow> 'c cq_sys \<Rightarrow> 'c cq_sys \<Rightarrow> bool" for maximum where
  push: "Push (Some c) (cq s) = (b, q) \<Longrightarrow>
    cq_step maximum s (s\<lparr>cq := q, pushed := pushed s @ [c],
      notifying := if b then Suc (notifying s) else notifying s\<rparr>)"
| internal: "cq_internal maximum s s' \<Longrightarrow> cq_step maximum s s'"

fun in_call :: "'c loop_state \<Rightarrow> 'c list" where
  "in_call (Calling c k) = [c]"
| "in_call _ = []"

fun drained :: "'c loop_state \<Rightarrow> nat" where
  "drained (Draining k) = k"
| "drained (Calling c k) = k"
| "drained _ = 0"

definition cq_inv :: "nat \<Rightarrow> 'c cq_sys \<Rightarrow> bool" where
  "cq_inv maximum s \<longleftrightarrow>
     has_notifier (cq s) \<and>
     pushed s = called s @ in_call (loop s) @ completions (cq s) \<and>
     drained (loop s) \<le> length (called s) \<and>
     (loop s = Woken \<longrightarrow> 0 < counter s) \<and>
     (length (pushed s) < maximum \<longrightarrow> completions (cq s) \<noteq> [] \<longrightarrow>
        loop s \<noteq> Polling \<or> 0 < counter s \<or> 0 < notifying s)"

lemma cq_inv_init: "cq_init s \<Longrightarrow> cq_inv maximum s"
  by (simp add: cq_init_def cq_inv_def CompletionQueue_new_def)

lemma cq_inv_internal: "cq_inv maximum s \<Longrightarrow> cq_internal maximum s s' \<Longrightarrow> cq_inv maximum s'"
  by (erule cq_internal.cases)
    (auto simp: cq_inv_def Drain_pop_def split: if_splits list.splits)

lemma cq_inv_step: "cq_inv maximum s \<Longrightarrow> cq_step maximum s s' \<Longrightarrow> cq_inv maximum s'"
proof (erule cq_step.cases, goal_cases)
  case (1 c s'' b q)
  then show ?case
    by (cases "loop s") (auto simp: cq_inv_def Push_def Let_def split: if_splits)
qed (simp add: cq_inv_internal)

interpretation cq: step_invariant cq_init "cq_step maximum" "cq_inv maximum"
  by unfold_locales (auto intro: cq_inv_init cq_inv_step)

interpretation cq_int: step_invariant cq_init "cq_internal maximum" "cq_inv maximum"
  by unfold_locales (auto intro: cq_inv_init cq_inv_internal)

section \<open>Draining\<close>

fun call_all :: "('c \<Rightarrow> 'x \<Rightarrow> 'x outcome) \<Rightarrow> 'c list \<Rightarrow> 'x \<Rightarrow> 'x outcome" where
  "call_all call [] x = Inr x"
| "call_all call (c # cs) x = outcome_bind (call c x) (call_all call cs)"

lemma Drain_eq:
  "Drain maximum completed call q x =
     outcome_bind (call_all call (take (maximum - completed) (completions q)) x) (\<lambda>x'.
       Inr (completed + min (maximum - completed) (length (completions q)),
            q\<lparr>completions := drop (maximum - completed) (completions q)\<rparr>, x'))"
proof (induction maximum completed call q x rule: Drain.induct)
  case (1 maximum completed call q x)
  show ?case
  proof (cases "Drain_pop maximum completed q")
    case None
    then show ?thesis
      by (subst Drain.simps) (auto simp: Drain_pop_def split: if_splits list.splits)
  next
    case (Some cq')
    then obtain c rest where q: "completions q = c # rest" "completed < maximum"
        "cq' = (c, q\<lparr>completions := rest\<rparr>)"
      by (auto simp: Drain_pop_def split: if_splits list.splits)
    then obtain m where m: "maximum - completed = Suc m" "maximum - Suc completed = m"
      by (metis Suc_diff_Suc)
    show ?thesis
    proof (cases "call c x")
      case (Inr x')
      then show ?thesis
        using 1[OF Some q(3)[symmetric] Inr] q m by (subst Drain.simps) (simp add: Some)
    qed (use q m Some in \<open>subst Drain.simps, simp\<close>)
  qed
qed

section \<open>Progress\<close>

fun loop_weight :: "'c loop_state \<Rightarrow> nat" where
  "loop_weight Polling = 0"
| "loop_weight (Draining _) = 1"
| "loop_weight (Calling _ _) = 2"
| "loop_weight Woken = 3"

definition pending_work :: "'c cq_sys \<Rightarrow> nat" where
  "pending_work s = 5 * notifying s + (if 0 < counter s \<and> loop s \<noteq> Woken then 4 else 0) +
     loop_weight (loop s) + 3 * length (completions (cq s))"

lemma pending_work_decreases: "cq_internal maximum s s' \<Longrightarrow> pending_work s' < pending_work s"
  by (erule cq_internal.cases)
    (auto simp: pending_work_def Drain_pop_def split: if_splits list.splits)

lemma internal_keeps_pushed: "cq_internal maximum s s' \<Longrightarrow> pushed s' = pushed s"
  by (erule cq_internal.cases) auto

lemma loop_progress:
  assumes "cq_inv maximum s" "length (pushed s) < maximum" "called s \<noteq> pushed s"
  shows "\<exists>s'. cq_internal maximum s s'"
proof (cases "loop s")
  case Polling
  then show ?thesis
    using assms cq_internal.poll[OF Polling] cq_internal.notify[of s _ maximum]
    by (auto simp: cq_inv_def gr0_conv_Suc)
next
  case (Draining k)
  then show ?thesis
    using cq_internal.pop[OF Draining] cq_internal.stop[OF Draining]
    by (cases "Drain_pop maximum k (cq s)") (blast, force)
next
  case (Calling c k)
  from cq_internal.return[OF this] show ?thesis by (rule exI)
next
  case Woken
  from cq_internal.consume[OF this] show ?thesis by (rule exI)
qed

lemma all_called_eventually:
  assumes "cq_inv maximum s" "length (pushed s) < maximum"
  shows "\<exists>s'. (cq_internal maximum)\<^sup>*\<^sup>* s s' \<and> called s' = pushed s'"
proof (rule cq_int.reaches_goal[where cls = "\<lambda>s. length (pushed s) < maximum" and measure_of = pending_work])
  show "\<exists>s'. cq_internal maximum s s' \<and> s' \<noteq> s"
    if "cq_inv maximum s" "length (pushed s) < maximum" "called s \<noteq> pushed s" for s :: "'a cq_sys"
    using loop_progress[OF that] pending_work_decreases by fast
qed (use assms in \<open>auto simp: internal_keeps_pushed intro: pending_work_decreases\<close>)

section \<open>Properties of the completion path\<close>

text \<open>
  C15: Completions run on the loop thread in exactly the order in which workers pushed them, each
  once, and no wake-up is lost: with the unbounded \<open>Drain\<close> of the server, whenever a completion is
  queued the loop is already awake, the eventfd is readable, or a worker is about to write it. This
  holds although \<open>Push\<close> notifies only on the transition from empty to non-empty.
\<close>

theorem completions_fifo_no_lost_wakeup:
  assumes "cq_init s0" and "(cq_step maximum)\<^sup>*\<^sup>* s0 s" and "length (pushed s) < maximum"
  shows "pushed s = called s @ in_call (loop s) @ completions (cq s) \<and>
    (completions (cq s) \<noteq> [] \<longrightarrow> loop s \<noteq> Polling \<or> 0 < counter s \<or> 0 < notifying s)"
  using cq.reachable_inv[OF assms(1,2)] assms(3) by (simp add: cq_inv_def)

definition example_cq :: "nat cq_sys" where
  "example_cq = \<lparr>cq = CompletionQueue_new True, notifying = 0, counter = 0, loop = Polling,
     pushed = [], called = []\<rparr>"

definition example_cq_pushed :: "nat cq_sys" where
  "example_cq_pushed = \<lparr>cq = \<lparr>completions = [7, 8], has_notifier = True\<rparr>, notifying = 1, counter = 0,
     loop = Polling, pushed = [7, 8], called = []\<rparr>"

lemma example_cq_run: "cq_init example_cq" "(cq_step m)\<^sup>*\<^sup>* example_cq example_cq_pushed"
proof -
  let ?mid = "example_cq\<lparr>cq := \<lparr>completions = [7], has_notifier = True\<rparr>, pushed := [7], notifying := 1\<rparr>"
  show "cq_init example_cq" by (simp add: cq_init_def example_cq_def)
  have "cq_step m example_cq ?mid"
    using cq_step.push[of 7 example_cq]
    by (simp add: Push_def Let_def example_cq_def CompletionQueue_new_def)
  moreover have "cq_step m ?mid example_cq_pushed"
    using cq_step.push[of 8 ?mid False]
    by (simp add: Push_def Let_def example_cq_def example_cq_pushed_def)
  ultimately show "(cq_step m)\<^sup>*\<^sup>* example_cq example_cq_pushed" by simp
qed

theorem completions_fifo_no_lost_wakeup_witness:
  "(cq_step (2 ^ 64 - 1))\<^sup>*\<^sup>* example_cq example_cq_pushed \<and> completions (cq example_cq_pushed) = [7, 8] \<and>
   0 < notifying example_cq_pushed"
  using completions_fifo_no_lost_wakeup[OF example_cq_run, of "2 ^ 64 - 1"] example_cq_run
  by (simp add: example_cq_pushed_def)

text \<open>
  C29: Every pushed completion is eventually called: from every reachable state the steps of the
  loop and of the notifying workers alone lead to a state in which everything pushed has been
  called, and no infinite sequence of such steps exists because each lowers \<open>pending_work\<close>.
\<close>

theorem every_completion_is_called:
  assumes "cq_init s0" and "(cq_step maximum)\<^sup>*\<^sup>* s0 s" and "length (pushed s) < maximum"
  shows "(\<exists>s'. (cq_internal maximum)\<^sup>*\<^sup>* s s' \<and> called s' = pushed s \<and> completions (cq s') = []) \<and>
    (\<forall>t t'. cq_internal maximum t t' \<longrightarrow> pending_work t' < pending_work t) \<and>
    (called s \<noteq> pushed s \<longrightarrow> (\<exists>s'. cq_internal maximum s s'))"
proof -
  have inv: "cq_inv maximum s" using cq.reachable_inv[OF assms(1,2)] .
  obtain s' where s': "(cq_internal maximum)\<^sup>*\<^sup>* s s'" "called s' = pushed s'"
    using all_called_eventually[OF inv assms(3)] by blast
  have "pushed s' = pushed s"
    using s'(1) by (induction rule: rtranclp_induct) (auto simp: internal_keeps_pushed)
  moreover have "completions (cq s') = []"
    using cq_int.steps_inv[OF s'(1) inv] s'(2) by (simp add: cq_inv_def)
  ultimately show ?thesis
    using s' pending_work_decreases loop_progress[OF inv assms(3)] by metis
qed

theorem every_completion_is_called_witness:
  "\<exists>s'. (cq_internal (2 ^ 64 - 1))\<^sup>*\<^sup>* example_cq_pushed s' \<and> called s' = [7, 8] \<and> completions (cq s') = []"
  using every_completion_is_called[OF example_cq_run, of "2 ^ 64 - 1", THEN conjunct1]
  by (simp add: example_cq_pushed_def)

text \<open>
  \<open>Drain\<close> with a bound runs exactly the first \<open>maximum\<close> queued completions, in order, reports how
  many ran, and leaves the rest queued; a completion that throws stops it there.
\<close>

theorem Drain_runs_prefix:
  "Drain maximum 0 call q x =
     outcome_bind (call_all call (take maximum (completions q)) x) (\<lambda>x'.
       Inr (min maximum (CompletionQueue_Size q), q\<lparr>completions := drop maximum (completions q)\<rparr>, x'))"
  by (simp add: Drain_eq CompletionQueue_Size_def)

end
