(* ===== verification/Async_Data.thy ===== *)
theory Async_Data
  imports Data_Store Thread_Pool Completion_Queue
begin

text \<open>
  \<open>src/data/async_data_service.cpp\<close>: each call submits to the worker pool a task that performs one
  store operation and pushes the callback, applied to the result, to the completion queue. A
  \<open>std::function\<close> argument is a value of a type \<open>'cb\<close> of callback names chosen by the client (\<open>None\<close>
  is the empty function); a completion is a callback together with the result it will be given.
\<close>

section \<open>Tasks and completions\<close>

datatype 'cb data_task =
    LoadPlayerTask string 'cb
  | SavePlayerTask PlayerRecord 'cb
  | DeletePlayerTask string 'cb
  | StoreSessionTask SessionRecord int 'cb
  | LoadSessionTask u64 'cb
  | RemoveSessionTask u64 'cb

datatype 'cb data_completion =
    PlayerResult 'cb "PlayerRecord DataResult"
  | SessionResult 'cb "SessionRecord DataResult"
  | OperationDone 'cb OperationResult

text \<open>
  The service holds references to a \<open>PlayerRepository\<close> and a \<open>SessionStore\<close>: their virtual methods,
  over a state \<open>'d\<close> of both stores.
\<close>

record 'd data_backend =
  be_LoadByAccount :: "string \<Rightarrow> 'd \<Rightarrow> (PlayerRecord DataResult \<times> 'd) outcome"
  be_Save :: "PlayerRecord \<Rightarrow> 'd \<Rightarrow> (OperationResult \<times> 'd) outcome"
  be_DeleteByAccount :: "string \<Rightarrow> 'd \<Rightarrow> (OperationResult \<times> 'd) outcome"
  be_Store :: "SessionRecord \<Rightarrow> int \<Rightarrow> 'd \<Rightarrow> (OperationResult \<times> 'd) outcome"
  be_Load :: "u64 \<Rightarrow> 'd \<Rightarrow> (SessionRecord DataResult \<times> 'd) outcome"
  be_Remove :: "u64 \<Rightarrow> 'd \<Rightarrow> (OperationResult \<times> 'd) outcome"

definition LoadPlayer ::
  "string \<Rightarrow> 'cb option \<Rightarrow> 'cb data_task BoundedThreadPool \<Rightarrow> bool \<times> 'cb data_task BoundedThreadPool" where
  "LoadPlayer account callback p =
     (case callback of
        None \<Rightarrow> (False, p)
      | Some cb \<Rightarrow> TrySubmit (Some (LoadPlayerTask account cb)) p)"

definition SavePlayer ::
  "PlayerRecord \<Rightarrow> 'cb option \<Rightarrow> 'cb data_task BoundedThreadPool \<Rightarrow> bool \<times> 'cb data_task BoundedThreadPool" where
  "SavePlayer player callback p =
     (case callback of
        None \<Rightarrow> (False, p)
      | Some cb \<Rightarrow> TrySubmit (Some (SavePlayerTask player cb)) p)"

definition DeletePlayer ::
  "string \<Rightarrow> 'cb option \<Rightarrow> 'cb data_task BoundedThreadPool \<Rightarrow> bool \<times> 'cb data_task BoundedThreadPool" where
  "DeletePlayer account callback p =
     (case callback of
        None \<Rightarrow> (False, p)
      | Some cb \<Rightarrow> TrySubmit (Some (DeletePlayerTask account cb)) p)"

definition StoreSession ::
  "SessionRecord \<Rightarrow> int \<Rightarrow> 'cb option \<Rightarrow> 'cb data_task BoundedThreadPool \<Rightarrow>
   bool \<times> 'cb data_task BoundedThreadPool" where
  "StoreSession session ttl callback p =
     (case callback of
        None \<Rightarrow> (False, p)
      | Some cb \<Rightarrow> TrySubmit (Some (StoreSessionTask session ttl cb)) p)"

definition LoadSession ::
  "u64 \<Rightarrow> 'cb option \<Rightarrow> 'cb data_task BoundedThreadPool \<Rightarrow> bool \<times> 'cb data_task BoundedThreadPool" where
  "LoadSession player_id callback p =
     (case callback of
        None \<Rightarrow> (False, p)
      | Some cb \<Rightarrow> TrySubmit (Some (LoadSessionTask player_id cb)) p)"

definition RemoveSession ::
  "u64 \<Rightarrow> 'cb option \<Rightarrow> 'cb data_task BoundedThreadPool \<Rightarrow> bool \<times> 'cb data_task BoundedThreadPool" where
  "RemoveSession player_id callback p =
     (case callback of
        None \<Rightarrow> (False, p)
      | Some cb \<Rightarrow> TrySubmit (Some (RemoveSessionTask player_id cb)) p)"

lemmas async_defs = LoadPlayer_def SavePlayer_def DeletePlayer_def StoreSession_def LoadSession_def
  RemoveSession_def

text \<open>The bodies of the six task lambdas: the store operation, and what is pushed afterwards.\<close>

fun run_task :: "'d data_backend \<Rightarrow> 'cb data_task \<Rightarrow> 'd \<Rightarrow> ('cb data_completion \<times> 'd) outcome" where
  "run_task be (LoadPlayerTask account cb) d =
     outcome_bind (be_LoadByAccount be account d) (\<lambda>(r, d). Inr (PlayerResult cb r, d))"
| "run_task be (SavePlayerTask player cb) d =
     outcome_bind (be_Save be player d) (\<lambda>(r, d). Inr (OperationDone cb r, d))"
| "run_task be (DeletePlayerTask account cb) d =
     outcome_bind (be_DeleteByAccount be account d) (\<lambda>(r, d). Inr (OperationDone cb r, d))"
| "run_task be (StoreSessionTask session ttl cb) d =
     outcome_bind (be_Store be session ttl d) (\<lambda>(r, d). Inr (OperationDone cb r, d))"
| "run_task be (LoadSessionTask player_id cb) d =
     outcome_bind (be_Load be player_id d) (\<lambda>(r, d). Inr (SessionResult cb r, d))"
| "run_task be (RemoveSessionTask player_id cb) d =
     outcome_bind (be_Remove be player_id d) (\<lambda>(r, d). Inr (OperationDone cb r, d))"

fun task_callback :: "'cb data_task \<Rightarrow> 'cb" where
  "task_callback (LoadPlayerTask _ cb) = cb"
| "task_callback (SavePlayerTask _ cb) = cb"
| "task_callback (DeletePlayerTask _ cb) = cb"
| "task_callback (StoreSessionTask _ _ cb) = cb"
| "task_callback (LoadSessionTask _ cb) = cb"
| "task_callback (RemoveSessionTask _ cb) = cb"

fun completion_callback :: "'cb data_completion \<Rightarrow> 'cb" where
  "completion_callback (PlayerResult cb _) = cb"
| "completion_callback (SessionResult cb _) = cb"
| "completion_callback (OperationDone cb _) = cb"

lemma run_task_callback: "run_task be t d = Inr (c, d') \<Longrightarrow> completion_callback c = task_callback t"
  by (cases t) (auto simp: outcome_bind_Inr_iff)

section \<open>The in-memory backend\<close>

record memory_db =
  db_players :: MemoryPlayerRepository
  db_sessions :: MemorySessionStore
  db_now :: int

definition memory_backend :: "memory_db data_backend" where
  "memory_backend =
     \<lparr>be_LoadByAccount = (\<lambda>a d. Inr (MemoryPlayerRepository_LoadByAccount a (db_players d), d)),
      be_Save = (\<lambda>p d. let (r, ps) = MemoryPlayerRepository_Save p (db_players d) in Inr (r, d\<lparr>db_players := ps\<rparr>)),
      be_DeleteByAccount = (\<lambda>a d. let (r, ps) = MemoryPlayerRepository_DeleteByAccount a (db_players d)
         in Inr (r, d\<lparr>db_players := ps\<rparr>)),
      be_Store = (\<lambda>s ttl d. outcome_bind (MemorySessionStore_Store (db_now d) s ttl (db_sessions d))
         (\<lambda>(r, ss). Inr (r, d\<lparr>db_sessions := ss\<rparr>))),
      be_Load = (\<lambda>k d. let (r, ss) = MemorySessionStore_Load (db_now d) k (db_sessions d)
         in Inr (r, d\<lparr>db_sessions := ss\<rparr>)),
      be_Remove = (\<lambda>k d. let (r, ss) = MemorySessionStore_Remove k (db_sessions d)
         in Inr (r, d\<lparr>db_sessions := ss\<rparr>))\<rparr>"

section \<open>Requests through pool, stores and completion queue\<close>

text \<open>
  The composition: a worker that executes a task first performs the store operation, keeps the
  completion in \<open>produced\<close>, then pushes it and returns to its loop. A task that throws (the pool
  swallows the exception) pushes nothing and is recorded in \<open>dropped\<close>. The stores may change in any
  way between these steps: other clients, and time.
\<close>

record ('cb, 'd) async_sys =
  as_pool :: "'cb data_task pool_sys"
  as_db :: 'd
  as_cq :: "'cb data_completion cq_sys"
  produced :: "nat \<Rightarrow> 'cb data_completion option"
  dropped :: "'cb data_task list"

abbreviation runs :: "('cb, 'd) async_sys \<Rightarrow> nat \<Rightarrow> 'cb data_task \<Rightarrow> bool" where
  "runs s i t \<equiv> i < length (workers (pool (as_pool s))) \<and> workers (pool (as_pool s)) ! i = Executing t"

definition worker_returns :: "nat \<Rightarrow> 'task \<Rightarrow> 'task pool_sys \<Rightarrow> 'task pool_sys" where
  "worker_returns i t p = p\<lparr>pool := WorkerLoop_done i (pool p), finished := finished p @ [t]\<rparr>"

definition push_completion :: "'c \<Rightarrow> 'c cq_sys \<Rightarrow> 'c cq_sys" where
  "push_completion c s =
     (let (notify, q) = Push (Some c) (cq s)
      in s\<lparr>cq := q, pushed := pushed s @ [c], notifying := if notify then Suc (notifying s) else notifying s\<rparr>)"

inductive async_step ::
  "'d data_backend \<Rightarrow> nat \<Rightarrow> ('cb, 'd) async_sys \<Rightarrow> ('cb, 'd) async_sys \<Rightarrow> bool"
  for be maximum where
  pool_moves: "pool_step (as_pool s) p \<Longrightarrow> finished p = finished (as_pool s) \<Longrightarrow>
    async_step be maximum s (s\<lparr>as_pool := p\<rparr>)"
| perform: "runs s i t \<Longrightarrow> produced s i = None \<Longrightarrow> run_task be t (as_db s) = Inr (c, d) \<Longrightarrow>
    async_step be maximum s (s\<lparr>as_db := d, produced := (produced s)(i := Some c)\<rparr>)"
| push: "runs s i t \<Longrightarrow> produced s i = Some c \<Longrightarrow>
    async_step be maximum s (s\<lparr>as_pool := worker_returns i t (as_pool s),
      as_cq := push_completion c (as_cq s), produced := (produced s)(i := None)\<rparr>)"
| throw: "runs s i t \<Longrightarrow> produced s i = None \<Longrightarrow> run_task be t (as_db s) = Inl (Throw e) \<Longrightarrow>
    async_step be maximum s (s\<lparr>as_pool := worker_returns i t (as_pool s), dropped := dropped s @ [t]\<rparr>)"
| loop_moves: "cq_internal maximum (as_cq s) q \<Longrightarrow> async_step be maximum s (s\<lparr>as_cq := q\<rparr>)"
| stores_change: "async_step be maximum s (s\<lparr>as_db := d\<rparr>)"

definition async_init :: "('cb, 'd) async_sys \<Rightarrow> bool" where
  "async_init s \<longleftrightarrow> pool_init (as_pool s) \<and> cq_init (as_cq s) \<and> produced s = Map.empty \<and> dropped s = []"

definition produced_ok :: "('cb, 'd) async_sys \<Rightarrow> bool" where
  "produced_ok s \<longleftrightarrow>
     (\<forall>i c. produced s i = Some c \<longrightarrow> (\<exists>t. runs s i t \<and> completion_callback c = task_callback t))"

definition async_inv :: "'d data_backend \<Rightarrow> nat \<Rightarrow> ('cb, 'd) async_sys \<Rightarrow> bool" where
  "async_inv be maximum s \<longleftrightarrow> pool_inv (as_pool s) \<and> cq_inv maximum (as_cq s) \<and>
     produced_ok s \<and>
     image_mset task_callback (mset (finished (as_pool s))) =
       image_mset completion_callback (mset (pushed (as_cq s))) + image_mset task_callback (mset (dropped s)) \<and>
     (\<forall>t \<in> set (dropped s). \<exists>d e. run_task be t d = Inl (Throw e))"

lemma worker_returns_step:
  "i < length (workers (pool p)) \<Longrightarrow> workers (pool p) ! i = Executing t \<Longrightarrow> pool_step p (worker_returns i t p)"
  unfolding worker_returns_def by (rule pool_step.finish)

lemma push_completion_step: "cq_step maximum s (push_completion c s)"
  unfolding push_completion_def Let_def by (cases "Push (Some c) (cq s)") (simp only: prod.case cq_step.push)

lemmas worker_returns_inv = pool_inv_step[OF _ worker_returns_step]
  and push_completion_inv = cq_inv_step[OF _ push_completion_step]

lemma executing_stable:
  assumes "pool_step p p'" "finished p' = finished p"
    and "i < length (workers (pool p))" "workers (pool p) ! i = Executing t"
  shows "i < length (workers (pool p')) \<and> workers (pool p') ! i = Executing t"
  using assms
proof (induction rule: pool_step.induct)
  case (join s)
  then show ?case by (metis nth_mem worker.distinct(11))
qed (auto simp: TrySubmit_def Shutdown_close_def nth_list_update split: if_splits option.splits)

lemma push_completion_pushed [simp]: "pushed (push_completion c s) = pushed s @ [c]"
  by (simp add: push_completion_def split: prod.splits)

lemma worker_returns_fields [simp]:
  "finished (worker_returns i t p) = finished p @ [t]"
  "workers (pool (worker_returns i t p)) = (workers (pool p))[i := Checking]"
  by (simp_all add: worker_returns_def)

lemma async_inv_step:
  assumes inv: "async_inv be maximum s" and step: "async_step be maximum s s'"
  shows "async_inv be maximum s'"
  using step
proof cases
  case (pool_moves p)
  then have "pool_inv p" using inv pool_inv_step by (auto simp: async_inv_def)
  moreover have "produced_ok s'"
    using inv executing_stable[OF pool_moves(2,3)] unfolding pool_moves(1) async_inv_def produced_ok_def
    by simp metis
  ultimately show ?thesis using pool_moves inv by (simp add: async_inv_def)
next
  case (perform i t c d)
  then show ?thesis using inv run_task_callback[OF perform(4)]
    by (auto simp: async_inv_def produced_ok_def)
next
  case (push i t c)
  then have "pool_inv (worker_returns i t (as_pool s))" "cq_inv maximum (push_completion c (as_cq s))"
    using inv by (simp_all add: async_inv_def worker_returns_inv push_completion_inv)
  moreover have "produced_ok s'"
    using inv push by (auto simp: async_inv_def produced_ok_def nth_list_update)
  moreover have "completion_callback c = task_callback t"
    using inv push(2,3) unfolding async_inv_def produced_ok_def by (metis worker.inject)
  ultimately show ?thesis using push inv by (simp add: async_inv_def)
next
  case (throw i t e)
  then have "pool_inv (worker_returns i t (as_pool s))"
    using inv by (simp add: async_inv_def worker_returns_inv)
  moreover have "produced_ok s'"
    using inv throw by (auto simp: async_inv_def produced_ok_def nth_list_update)
  ultimately show ?thesis using throw inv by (auto simp: async_inv_def)
next
  case (loop_moves q)
  then show ?thesis
    using inv cq_inv_internal[OF _ loop_moves(2)] internal_keeps_pushed[OF loop_moves(2)]
    by (auto simp: async_inv_def produced_ok_def)
next
  case (stores_change d)
  then show ?thesis using inv by (simp add: async_inv_def produced_ok_def)
qed

lemma async_inv_init: "async_init s \<Longrightarrow> async_inv be maximum s"
  using pool_inv_init[of "as_pool s"] cq_inv_init[of "as_cq s" maximum]
  by (simp add: async_init_def async_inv_def produced_ok_def pool_init_def cq_init_def)

interpretation async: step_invariant async_init "async_step be maximum" "async_inv be maximum"
  by unfold_locales (rule async_inv_init async_inv_step; assumption)+

section \<open>Properties of asynchronous requests\<close>

text \<open>
  C16: Every accepted request is answered exactly once, under every interleaving of submissions,
  workers, stores and event loop: the callbacks of all accepted requests are, counted with
  multiplicity, the callbacks already called, being called, waiting in the completion queue, or
  belonging to a task that is still queued or executing; a request goes unanswered only when its
  store operation throws.
\<close>

theorem every_request_is_answered_once:
  assumes "async_init s0" and "(async_step be maximum)\<^sup>*\<^sup>* s0 s"
  shows "image_mset task_callback (mset (accepted (as_pool s))) =
      image_mset completion_callback
        (mset (called (as_cq s)) + mset (in_call (loop (as_cq s))) + mset (completions (cq (as_cq s)))) +
      image_mset task_callback
        (executing (pool (as_pool s)) + mset (tasks (pool (as_pool s))) + mset (dropped s)) \<and>
    (\<forall>t \<in> set (dropped s). \<exists>d e. run_task be t d = Inl (Throw e))"
proof -
  have inv: "async_inv be maximum s" using async.reachable_inv[OF assms] .
  then have "pool_inv (as_pool s)" "cq_inv maximum (as_cq s)" by (simp_all add: async_inv_def)
  then have "mset (accepted (as_pool s)) =
      mset (finished (as_pool s)) + executing (pool (as_pool s)) + mset (tasks (pool (as_pool s)))"
    and "mset (pushed (as_cq s)) =
      mset (called (as_cq s)) + mset (in_call (loop (as_cq s))) + mset (completions (cq (as_cq s)))"
    by (simp_all add: pool_inv_def cq_inv_def)
  with inv show ?thesis by (simp add: async_inv_def)
qed

definition example_async :: "(nat, memory_db) async_sys" where
  "example_async =
     \<lparr>as_pool = \<lparr>pool = \<lparr>queue_capacity = 1, tasks = [], workers = [Checking], accepting_tasks = True\<rparr>,
        unnotified = 0, phase = Running, accepted = [], started = [], finished = []\<rparr>,
      as_db = \<lparr>db_players = um_empty, db_sessions = um_empty, db_now = 0\<rparr>,
      as_cq = \<lparr>cq = CompletionQueue_new True, notifying = 0, counter = 0, loop = Polling,
        pushed = [], called = []\<rparr>,
      produced = Map.empty, dropped = []\<rparr>"

definition example_requested :: "(nat, memory_db) async_sys" where
  "example_requested =
     example_async\<lparr>as_pool := \<lparr>pool = \<lparr>queue_capacity = 1, tasks = [LoadPlayerTask ''a'' 9],
         workers = [Checking], accepting_tasks = True\<rparr>,
        unnotified = 1, phase = Running, accepted = [LoadPlayerTask ''a'' 9], started = [], finished = []\<rparr>\<rparr>"

lemma example_async_init: "async_init example_async"
  unfolding async_init_def pool_init_def BoundedThreadPool_new_Inr_iff cq_init_def
  by (auto simp: example_async_def intro!: exI[of _ "\<lambda>_. True"] exI[of _ 1])

lemma example_async_run: "(async_step memory_backend m)\<^sup>*\<^sup>* example_async example_requested"
proof -
  have "pool_step (as_pool example_async) (as_pool example_requested)"
    using pool_step.submit[of "LoadPlayerTask ''a'' 9" "as_pool example_async"]
    by (simp add: TrySubmit_def example_async_def example_requested_def)
  then have "async_step memory_backend m example_async (example_async\<lparr>as_pool := as_pool example_requested\<rparr>)"
    by (rule async_step.pool_moves) (simp add: example_async_def example_requested_def)
  then show ?thesis by (simp add: example_requested_def r_into_rtranclp)
qed

theorem every_request_is_answered_once_witness:
  "(async_step memory_backend (2 ^ 64 - 1))\<^sup>*\<^sup>* example_async example_requested \<and>
   image_mset task_callback (mset (accepted (as_pool example_requested))) =
     image_mset task_callback (mset (tasks (pool (as_pool example_requested)))) \<and>
   accepted (as_pool example_requested) = [LoadPlayerTask ''a'' 9]"
  using every_request_is_answered_once[OF example_async_init example_async_run[of "2 ^ 64 - 1"]]
    example_async_run
  by (simp add: example_requested_def example_async_def)

end
