(* ===== verification/Protobuf_Codec.thy ===== *)
theory Protobuf_Codec
  imports Frame_Codec Ieee_Double
begin

text \<open>
  The messages of \<open>proto/game_messages.proto\<close> and \<open>src/protocol/protobuf_codec.cpp\<close>, which puts a
  serialised message into a frame and takes it out again. Serialisation itself is the protobuf
  library's: a \<open>protobuf\<close> record of its entry points is an argument of the definitions, and the
  documented behaviour the code relies on is \<open>codec_law\<close>. A field of message type is an option
  (proto3 tracks its presence); strings are byte strings.
\<close>

section \<open>Messages\<close>

record PositionMsg =
  msg_x :: dbl
  msg_y :: dbl

record PlayerView =
  view_player_id :: u64
  view_nickname :: string
  view_position :: "PositionMsg option"

record LoginResponseMsg =
  lr_success :: bool
  lr_error :: string
  lr_self :: "PlayerView option"
  lr_nearby_players :: "PlayerView list"
  lr_session_token :: string

datatype Message =
    LoginRequest string string \<comment> \<open>account, session token\<close>
  | LoginResponse LoginResponseMsg
  | ChatRequest string
  | MoveRequest "PositionMsg option"
  | Heartbeat
  | PlayerEnter "PlayerView option"
  | PlayerLeave u64
  | PlayerMove u64 "PositionMsg option"
  | ChatBroadcast u64 string string
  | NearbyPlayers "PlayerView list"

text \<open>The message type that the C++ argument \<open>message\<close> of a parse has: its \<open>MessageType\<close> number.\<close>

fun message_type :: "Message \<Rightarrow> MessageType" where
  "message_type (LoginRequest _ _) = kLoginRequest"
| "message_type (LoginResponse _) = kLoginResponse"
| "message_type (ChatRequest _) = kChatRequest"
| "message_type (MoveRequest _) = kMoveRequest"
| "message_type Heartbeat = kHeartbeat"
| "message_type (PlayerEnter _) = kPlayerEnter"
| "message_type (PlayerLeave _) = kPlayerLeave"
| "message_type (PlayerMove _ _) = kPlayerMove"
| "message_type (ChatBroadcast _ _ _) = kChatBroadcast"
| "message_type (NearbyPlayers _) = kNearbyPlayers"

section \<open>Framing of messages\<close>

record protobuf =
  ByteSizeLong :: "Message \<Rightarrow> nat"
  SerializeToArray :: "Message \<Rightarrow> nat \<Rightarrow> byte list option"
  ParseFromArray :: "MessageType \<Rightarrow> byte list \<Rightarrow> Message option"

definition EncodeProtobufFrame :: "protobuf \<Rightarrow> MessageType \<Rightarrow> Message \<Rightarrow> u32 \<Rightarrow> byte list outcome" where
  "EncodeProtobufFrame pb type message max_payload_size =
     (let byte_size = ByteSizeLong pb message in
      if byte_size > unat max_payload_size \<or> byte_size > INT_MAX \<or> byte_size > UINT32_MAX
      then Inl (Throw (length_error ''Protobuf payload exceeds frame limit''))
      else if byte_size > 0 then
        (case SerializeToArray pb message byte_size of
           None \<Rightarrow> Inl (Throw (runtime_error ''failed to serialize Protobuf message''))
         | Some bytes \<Rightarrow> EncodeFrame type bytes max_payload_size)
      else EncodeFrame type [] max_payload_size)"

text \<open>
  \<open>None\<close> is the result \<open>false\<close>; \<open>kind\<close> is the static type of the message object that is parsed into.
\<close>

definition ParseProtobufPayload :: "protobuf \<Rightarrow> Frame \<Rightarrow> MessageType \<Rightarrow> MessageType \<Rightarrow> Message option" where
  "ParseProtobufPayload pb frame expected_type kind =
     (if message_id frame \<noteq> expected_type \<or> length (payload frame) > INT_MAX then None
      else ParseFromArray pb kind (payload frame))"

text \<open>
  What the protobuf documentation promises for a message with valid UTF-8 strings: serialising into
  an array of \<open>ByteSizeLong\<close> bytes fills it, and parsing those bytes as the same message type gives
  the message back.
\<close>

definition codec_law :: "protobuf \<Rightarrow> Message \<Rightarrow> bool" where
  "codec_law pb m \<longleftrightarrow>
     (\<exists>bytes. SerializeToArray pb m (ByteSizeLong pb m) = Some bytes \<and> length bytes = ByteSizeLong pb m \<and>
        ParseFromArray pb (message_type m) bytes = Some m)"

definition parses_as_type :: "protobuf \<Rightarrow> bool" where
  "parses_as_type pb \<longleftrightarrow> (\<forall>kind bytes m. ParseFromArray pb kind bytes = Some m \<longrightarrow> message_type m = kind)"

lemma message_type_known: "IsKnownMessageId (message_type m)"
  by (cases m) (simp_all add: IsKnownMessageId_def message_ids)

lemma EncodeProtobufFrame_fits:
  assumes "codec_law pb m" "ByteSizeLong pb m \<le> unat limit" "ByteSizeLong pb m \<le> INT_MAX"
  obtains bytes and frame :: Frame where "EncodeProtobufFrame pb (message_type m) m limit = Inr bytes"
    and "EncodeFrame (message_id frame) (payload frame) limit = Inr bytes"
    and "message_id frame = message_type m"
    and "ParseFromArray pb (message_type m) (payload frame) = Some m"
    and "length (payload frame) \<le> INT_MAX"
proof -
  obtain b where b: "SerializeToArray pb m (ByteSizeLong pb m) = Some b" "length b = ByteSizeLong pb m"
      "ParseFromArray pb (message_type m) b = Some m"
    using assms(1) by (auto simp: codec_law_def)
  have small: "ByteSizeLong pb m \<le> UINT32_MAX"
    using assms(3) by (simp add: INT_MAX_def UINT32_MAX_def)
  then obtain bytes where e: "EncodeFrame (message_type m) b limit = Inr bytes"
    using b(2) assms(2) by (auto simp: EncodeFrame_def message_type_known)
  moreover have "EncodeProtobufFrame pb (message_type m) m limit = Inr bytes"
    using e b assms(2,3) small by (auto simp: EncodeProtobufFrame_def Let_def)
  ultimately show ?thesis
    using that[of bytes "\<lparr>message_id = message_type m, payload = b\<rparr>"] b assms(3) by simp
qed

lemma single_frame_received:
  assumes "FrameDecoder_new limit = Inr d"
    and "EncodeFrame (message_id frame) (payload frame) limit = Inr bytes" "concat chunks = bytes"
  shows "\<exists>d'. receive_chunks chunks d = Inr ([frame], d') \<and> pending d' = [] \<and> \<not> dec_failed d'"
proof -
  have "parse_stream limit (concat chunks) = ([frame], kNeedMoreData, [])"
    using EncodeFrame_list_all2[of limit "[frame]" "[bytes]"] assms(2,3)
      parse_stream_concat_encode[of limit "[frame]"] by simp
  then show ?thesis
    using receive_chunks_parse[of d chunks "[frame]" kNeedMoreData "[]"] decoder_wf_new[OF assms(1)]
    by auto
qed

section \<open>Properties of message framing\<close>

text \<open>
  A protobuf message that fits the frame limit survives the wire: \<open>EncodeProtobufFrame\<close> under
  the message's own type succeeds, and a receiver that gets the bytes in any chunks obtains exactly
  one frame, from which \<open>ParseProtobufPayload\<close> with that type recovers the message and with any
  other expected type refuses.
\<close>

theorem protobuf_frame_roundtrip:
  assumes "codec_law pb m" and "ByteSizeLong pb m \<le> unat limit" and "ByteSizeLong pb m \<le> INT_MAX"
    and "FrameDecoder_new limit = Inr d"
  shows "\<exists>bytes. EncodeProtobufFrame pb (message_type m) m limit = Inr bytes \<and>
    (\<forall>chunks. concat chunks = bytes \<longrightarrow>
       (\<exists>frame d'. receive_chunks chunks d = Inr ([frame], d') \<and> FrameDecoder_BufferedBytes d' = 0 \<and>
          ParseProtobufPayload pb frame (message_type m) (message_type m) = Some m \<and>
          (\<forall>other kind. other \<noteq> message_type m \<longrightarrow> ParseProtobufPayload pb frame other kind = None)))"
proof -
  obtain bytes and frame :: Frame where
    enc: "EncodeProtobufFrame pb (message_type m) m limit = Inr bytes"
      "EncodeFrame (message_id frame) (payload frame) limit = Inr bytes"
    and frame: "message_id frame = message_type m"
      "ParseFromArray pb (message_type m) (payload frame) = Some m" "length (payload frame) \<le> INT_MAX"
    using EncodeProtobufFrame_fits[OF assms(1-3)] by metis
  have "\<exists>d'. receive_chunks chunks d = Inr ([frame], d') \<and> FrameDecoder_BufferedBytes d' = 0"
    if "concat chunks = bytes" for chunks
    using single_frame_received[OF assms(4) enc(2) that] by (metis length_pending list.size(3))
  then show ?thesis
    using enc(1) frame by (auto simp: ParseProtobufPayload_def not_less)
qed

text \<open>A codec that knows only chat requests: the text's bytes are the payload.\<close>

definition text_codec :: protobuf where
  "text_codec =
     \<lparr>ByteSizeLong = (\<lambda>m. case m of ChatRequest t \<Rightarrow> length t | _ \<Rightarrow> 0),
      SerializeToArray = (\<lambda>m n. case m of ChatRequest t \<Rightarrow> Some (map (\<lambda>c. of_char c) t) | _ \<Rightarrow> Some []),
      ParseFromArray = (\<lambda>kind bytes. if kind = kChatRequest
         then Some (ChatRequest (map (\<lambda>b. char_of (unat b)) bytes)) else None)\<rparr>"

lemma text_codec_law: "codec_law text_codec (ChatRequest ''hi'')"
  by (simp add: codec_law_def text_codec_def) code_simp

theorem protobuf_frame_roundtrip_witness:
  "\<exists>d frame d'. FrameDecoder_new 16 = Inr d \<and>
     EncodeProtobufFrame text_codec kChatRequest (ChatRequest ''hi'') 16 =
       Inr [0, 0, 0, 2, 0, 0, 0, 2, 104, 105] \<and>
     receive_chunks [[0, 0, 0, 2, 0], [0, 0, 2, 104], [105]] d = Inr ([frame], d') \<and>
     ParseProtobufPayload text_codec frame kChatRequest kChatRequest = Some (ChatRequest ''hi'')"
proof -
  obtain d where d: "FrameDecoder_new 16 = Inr d" by (simp add: FrameDecoder_new_def)
  have size: "ByteSizeLong text_codec (ChatRequest ''hi'') = 2" by (simp add: text_codec_def)
  have bytes: "EncodeProtobufFrame text_codec kChatRequest (ChatRequest ''hi'') 16 =
      Inr [0, 0, 0, 2, 0, 0, 0, 2, 104, 105]"
    by (simp add: EncodeProtobufFrame_def text_codec_def EncodeFrame_def IsKnownMessageId_def
        message_ids AppendNetworkUint32_def UINT32_MAX_def INT_MAX_def)
  show ?thesis
    using protobuf_frame_roundtrip[OF text_codec_law, of 16 d] d bytes
    by (auto simp: size INT_MAX_def dest!: spec[of _ "[[0, 0, 0, 2, 0], [0, 0, 2, 104], [105]]"])
qed

text \<open>
  Encoding refuses instead of truncating: for every message and limit \<open>EncodeProtobufFrame\<close>
  throws \<open>length_error\<close> exactly when the serialised size exceeds the limit or \<open>INT_MAX\<close>, and a frame it
  does return is eight bytes longer than the payload the library produced.
\<close>

theorem EncodeProtobufFrame_size:
  assumes "\<forall>b. SerializeToArray pb m (ByteSizeLong pb m) = Some b \<longrightarrow> length b = ByteSizeLong pb m"
  shows "(\<exists>e. EncodeProtobufFrame pb type m limit = Inl (Throw (length_error e))) =
      (ByteSizeLong pb m > unat limit \<or> ByteSizeLong pb m > INT_MAX) \<and>
    (\<forall>bytes. EncodeProtobufFrame pb type m limit = Inr bytes \<longrightarrow>
       length bytes = kFrameHeaderSize + ByteSizeLong pb m \<and> IsKnownMessageId type)"
proof -
  have "INT_MAX \<le> UINT32_MAX" by (simp add: INT_MAX_def UINT32_MAX_def)
  then show ?thesis
    using assms
    by (auto simp: EncodeProtobufFrame_def EncodeFrame_def AppendNetworkUint32_def kFrameHeaderSize_def
        Let_def split: option.splits if_splits)
qed

theorem EncodeProtobufFrame_size_witness:
  "EncodeProtobufFrame text_codec kChatRequest (ChatRequest ''hello'') 4 =
     Inl (Throw (length_error ''Protobuf payload exceeds frame limit'')) \<and>
   (\<exists>bytes. EncodeProtobufFrame text_codec kChatRequest (ChatRequest ''hello'') 5 = Inr bytes \<and> length bytes = 13)"
proof -
  have law: "\<forall>b. SerializeToArray text_codec (ChatRequest ''hello'')
      (ByteSizeLong text_codec (ChatRequest ''hello'')) = Some b \<longrightarrow>
      length b = ByteSizeLong text_codec (ChatRequest ''hello'')"
    by (simp add: text_codec_def)
  have ok: "\<exists>bytes. EncodeProtobufFrame text_codec kChatRequest (ChatRequest ''hello'') 5 = Inr bytes"
    by (simp add: EncodeProtobufFrame_def text_codec_def EncodeFrame_def IsKnownMessageId_def
        message_ids UINT32_MAX_def INT_MAX_def)
  show ?thesis
    using EncodeProtobufFrame_size[OF law, of kChatRequest 4] EncodeProtobufFrame_size[OF law, of kChatRequest 5] ok
    by (auto simp: text_codec_def kFrameHeaderSize_def EncodeProtobufFrame_def)
qed

end
