(* ===== verification/Tcp_Connection.thy ===== *)
theory Tcp_Connection
  imports Frame_Codec
begin

text \<open>
  \<open>src/net/tcp_connection.cpp\<close>: a non-blocking socket with an incremental frame decoder on its input
  and a bounded buffer on its output. The system calls \<open>recv\<close> and \<open>send\<close> answer from a script, one
  entry per call; a script that has run out means that the call would block.
\<close>

section \<open>State\<close>

datatype IoStatus = kOpen | kPeerClosed | kProtocolError | kIoError | kSlowConsumer

record TcpConnection =
  tcp_descriptor :: int
  tcp_decoder :: FrameDecoder
  tcp_output :: "byte list"
  tcp_output_offset :: nat
  tcp_maximum_pending_bytes :: nat

text \<open>
  \<open>Received bs\<close>: \<open>recv\<close> returned the number of bytes \<open>bs\<close>, which is zero when the peer has shut down.
  \<open>Sent n\<close>: \<open>send\<close> accepted \<open>n\<close> bytes; the kernel never accepts more than it was offered.
\<close>

datatype recv_result = Received "byte list" | RecvInterrupted | RecvWouldBlock | RecvFailed

datatype send_result = Sent nat | SendInterrupted | SendWouldBlock | SendFailed

definition TcpConnection_new :: "int \<Rightarrow> nat \<Rightarrow> TcpConnection outcome" where
  "TcpConnection_new descriptor maximum =
     (if descriptor < 0 \<or> maximum = 0
      then Inl (Throw (invalid_argument ''invalid TCP connection configuration''))
      else outcome_bind (FrameDecoder_new kDefaultMaxPayloadSize) (\<lambda>d.
        Inr \<lparr>tcp_descriptor = descriptor, tcp_decoder = d, tcp_output = [], tcp_output_offset = 0,
             tcp_maximum_pending_bytes = maximum\<rparr>))"

section \<open>Input\<close>

text \<open>
  The receiving loop of \<open>ReadAvailable\<close>: \<open>Some peer_closed\<close> when it breaks, \<open>None\<close> for an I/O error.
  The buffer of a call holds 16 KiB, so a script entry does not exceed that.
\<close>

definition recv_buffer_size :: nat where
  "recv_buffer_size = 16 * 1024"

fun receive_loop :: "recv_result list \<Rightarrow> FrameDecoder \<Rightarrow> (bool option \<times> FrameDecoder \<times> recv_result list) outcome" where
  "receive_loop [] d = Inr (Some False, d, [])"
| "receive_loop (Received bs # rs) d =
     (if bs = [] then Inr (Some True, d, rs)
      else outcome_bind (FrameDecoder_Append_ptr (Some bs) (length bs) d) (\<lambda>d. receive_loop rs d))"
| "receive_loop (RecvInterrupted # rs) d = receive_loop rs d"
| "receive_loop (RecvWouldBlock # rs) d = Inr (Some False, d, rs)"
| "receive_loop (RecvFailed # rs) d = Inr (None, d, rs)"

definition ReadAvailable ::
  "recv_result list \<Rightarrow> TcpConnection \<Rightarrow> (IoStatus \<times> Frame list \<times> TcpConnection \<times> recv_result list) outcome" where
  "ReadAvailable rs c =
     outcome_bind (receive_loop rs (tcp_decoder c)) (\<lambda>(peer_closed, d, rs').
       case peer_closed of
         None \<Rightarrow> Inr (kIoError, [], c\<lparr>tcp_decoder := d\<rparr>, rs')
       | Some closed \<Rightarrow>
           let (status, frames, d) = decode_loop d []
           in Inr (if status \<noteq> kNeedMoreData then kProtocolError
                   else if closed then kPeerClosed else kOpen,
                   frames, c\<lparr>tcp_decoder := d\<rparr>, rs'))"

section \<open>Output\<close>

definition PendingBytes :: "TcpConnection \<Rightarrow> nat" where
  "PendingBytes c = length (tcp_output c) - tcp_output_offset c"

definition WantsWrite :: "TcpConnection \<Rightarrow> bool" where
  "WantsWrite c \<longleftrightarrow> tcp_output_offset c < length (tcp_output c)"

definition CompactOutput :: "TcpConnection \<Rightarrow> TcpConnection" where
  "CompactOutput c =
     (if tcp_output_offset c = 0 then c
      else if tcp_output_offset c = length (tcp_output c)
      then c\<lparr>tcp_output := [], tcp_output_offset := 0\<rparr>
      else c\<lparr>tcp_output := drop (tcp_output_offset c) (tcp_output c), tcp_output_offset := 0\<rparr>)"

text \<open>Subtraction of \<open>std::size_t\<close> values wraps around.\<close>

definition size_t_minus :: "nat \<Rightarrow> nat \<Rightarrow> nat" where
  "size_t_minus a b = (if b \<le> a then a - b else 2 ^ 64 + a - b)"

definition QueueBytes :: "byte list \<Rightarrow> TcpConnection \<Rightarrow> bool \<times> TcpConnection" where
  "QueueBytes bytes c =
     (if bytes = [] then (True, c)
      else
        let c = CompactOutput c in
        if length bytes > size_t_minus (tcp_maximum_pending_bytes c) (PendingBytes c) then (False, c)
        else (True, c\<lparr>tcp_output := tcp_output c @ bytes\<rparr>))"

text \<open>
  \<open>Flush\<close> returns its status, the bytes the kernel has taken over, the connection and the rest of the
  script.
\<close>

definition flushed :: "TcpConnection \<Rightarrow> TcpConnection" where
  "flushed c = c\<lparr>tcp_output := [], tcp_output_offset := 0\<rparr>"

fun Flush :: "send_result list \<Rightarrow> TcpConnection \<Rightarrow> IoStatus \<times> byte list \<times> TcpConnection \<times> send_result list" where
  "Flush [] c = (if WantsWrite c then (kOpen, [], c, []) else (kOpen, [], flushed c, []))"
| "Flush (r # rs) c =
     (if \<not> WantsWrite c then (kOpen, [], flushed c, r # rs)
      else case r of
        Sent n \<Rightarrow>
          let n = min n (PendingBytes c);
              bytes = take n (drop (tcp_output_offset c) (tcp_output c))
          in if n = 0 then (kIoError, [], c, rs)
             else let (status, more, c', rs') = Flush rs (c\<lparr>tcp_output_offset := tcp_output_offset c + n\<rparr>)
                  in (status, bytes @ more, c', rs')
      | SendInterrupted \<Rightarrow> Flush rs c
      | SendWouldBlock \<Rightarrow> (kOpen, [], c, rs)
      | SendFailed \<Rightarrow> (kIoError, [], c, rs))"

text \<open>The bytes that are queued and not yet taken by the kernel.\<close>

definition unsent :: "TcpConnection \<Rightarrow> byte list" where
  "unsent c = drop (tcp_output_offset c) (tcp_output c)"

definition output_ok :: "TcpConnection \<Rightarrow> bool" where
  "output_ok c \<longleftrightarrow> tcp_output_offset c \<le> length (tcp_output c) \<and>
     length (unsent c) \<le> tcp_maximum_pending_bytes c"

lemma PendingBytes_unsent: "PendingBytes c = length (unsent c)"
  by (simp add: PendingBytes_def unsent_def)

lemma WantsWrite_unsent: "WantsWrite c \<longleftrightarrow> unsent c \<noteq> []"
  by (auto simp: WantsWrite_def unsent_def)

lemma CompactOutput_fields [simp]:
  "unsent (CompactOutput c) = unsent c" "tcp_maximum_pending_bytes (CompactOutput c) = tcp_maximum_pending_bytes c"
  "tcp_decoder (CompactOutput c) = tcp_decoder c" "tcp_descriptor (CompactOutput c) = tcp_descriptor c"
  by (auto simp: CompactOutput_def unsent_def)

lemma output_ok_Compact [simp]: "output_ok c \<Longrightarrow> output_ok (CompactOutput c)"
  by (auto simp: CompactOutput_def output_ok_def unsent_def)

lemma unsent_append:
  "tcp_output_offset c \<le> length (tcp_output c) \<Longrightarrow> unsent (c\<lparr>tcp_output := tcp_output c @ bs\<rparr>) = unsent c @ bs"
  by (simp add: unsent_def)

lemma QueueBytes_spec:
  assumes ok: "output_ok c"
  shows "\<exists>c'. QueueBytes bytes c =
      (length (unsent c) + length bytes \<le> tcp_maximum_pending_bytes c, c') \<and> output_ok c' \<and>
    unsent c' = (if length (unsent c) + length bytes \<le> tcp_maximum_pending_bytes c then unsent c @ bytes else unsent c) \<and>
    tcp_decoder c' = tcp_decoder c \<and> tcp_descriptor c' = tcp_descriptor c \<and>
    tcp_maximum_pending_bytes c' = tcp_maximum_pending_bytes c"
proof (cases "bytes = []")
  case True
  then show ?thesis using ok by (simp add: QueueBytes_def output_ok_def)
next
  case False
  let ?c = "CompactOutput c"
  have c: "output_ok ?c" using ok by simp
  then have le: "PendingBytes ?c \<le> tcp_maximum_pending_bytes ?c"
    by (simp add: output_ok_def PendingBytes_unsent)
  have app: "unsent (?c\<lparr>tcp_output := tcp_output ?c @ bytes\<rparr>) = unsent c @ bytes"
    using unsent_append[of ?c bytes] c by (simp add: output_ok_def)
  show ?thesis
    using False c le app
    by (auto simp: QueueBytes_def Let_def size_t_minus_def PendingBytes_unsent output_ok_def)
qed

lemma Flush_spec:
  "output_ok c \<Longrightarrow> Flush rs c = (status, bytes, c', rs') \<Longrightarrow>
     output_ok c' \<and> unsent c = bytes @ unsent c' \<and> tcp_decoder c' = tcp_decoder c \<and>
     tcp_descriptor c' = tcp_descriptor c \<and> tcp_maximum_pending_bytes c' = tcp_maximum_pending_bytes c \<and>
     (status = kOpen \<or> status = kIoError)"
proof (induction rs arbitrary: c status bytes c' rs')
  case Nil
  then show ?case
    by (auto simp: output_ok_def flushed_def WantsWrite_unsent unsent_def split: if_splits)
next
  case (Cons r rs)
  show ?case
  proof (cases "WantsWrite c")
    case False
    then show ?thesis using Cons.prems
      by (auto simp: output_ok_def flushed_def WantsWrite_unsent unsent_def)
  next
    case True
    show ?thesis
    proof (cases r)
      case (Sent n)
      let ?n = "min n (PendingBytes c)"
      let ?c = "c\<lparr>tcp_output_offset := tcp_output_offset c + ?n\<rparr>"
      have u: "unsent c = take ?n (unsent c) @ unsent ?c"
        using append_take_drop_id[of ?n "unsent c", symmetric] by (simp add: unsent_def add.commute)
      have ok: "output_ok ?c"
        using Cons.prems(1) by (auto simp: output_ok_def unsent_def PendingBytes_def)
      show ?thesis
      proof (cases "?n = 0")
        case True
        then show ?thesis using Cons.prems \<open>WantsWrite c\<close> Sent by (auto simp: Let_def)
      next
        case False
        obtain more rs1 where "Flush rs ?c = (status, more, c', rs1)" "bytes = take ?n (unsent c) @ more"
          using Cons.prems(2) False \<open>WantsWrite c\<close> Sent
          by (auto simp: Let_def unsent_def split: prod.splits if_splits)
        with Cons.IH[OF ok this(1)] u show ?thesis by simp
      qed
    next
      case SendInterrupted
      then have "Flush rs c = (status, bytes, c', rs')" using Cons.prems(2) True by simp
      then show ?thesis by (rule Cons.IH[OF Cons.prems(1)])
    qed (use Cons.prems True in simp_all)
  qed
qed

section \<open>A connection in use\<close>

text \<open>
  The life of the output side: a sequence of \<open>QueueBytes\<close> and \<open>Flush\<close> calls, with the bytes that were
  accepted and the bytes that went to the kernel.
\<close>

datatype tcp_op = TQueue "byte list" | TFlush "send_result list"

fun tcp_run :: "tcp_op list \<Rightarrow> TcpConnection \<Rightarrow> byte list \<times> byte list \<times> TcpConnection" where
  "tcp_run [] c = ([], [], c)"
| "tcp_run (TQueue bs # ops) c =
     (let (ok, c) = QueueBytes bs c; (q, s, c) = tcp_run ops c in ((if ok then bs else []) @ q, s, c))"
| "tcp_run (TFlush rs # ops) c =
     (let (_, bs, c, _) = Flush rs c; (q, s, c) = tcp_run ops c in (q, bs @ s, c))"

lemma tcp_run_spec:
  "output_ok c \<Longrightarrow> tcp_run ops c = (queued, sent, c') \<Longrightarrow>
     unsent c @ queued = sent @ unsent c' \<and> output_ok c' \<and>
     tcp_maximum_pending_bytes c' = tcp_maximum_pending_bytes c"
proof (induction ops arbitrary: c queued sent)
  case (Cons op ops)
  show ?case
  proof (cases op)
    case (TQueue bs)
    obtain ok c1 where q: "QueueBytes bs c = (ok, c1)" by (cases "QueueBytes bs c")
    obtain q2 c2 where r: "tcp_run ops c1 = (q2, sent, c')" "queued = (if ok then bs else []) @ q2"
      using Cons.prems(2) TQueue q by (auto split: prod.splits)
    with Cons.IH[of c1 q2 sent] QueueBytes_spec[OF Cons.prems(1), of bs] q show ?thesis by auto
  next
    case (TFlush rs)
    obtain st bs c1 rs1 where f: "Flush rs c = (st, bs, c1, rs1)" by (cases "Flush rs c")
    obtain s2 where r: "tcp_run ops c1 = (queued, s2, c')" "sent = bs @ s2"
      using Cons.prems(2) TFlush f by (auto split: prod.splits)
    with Cons.IH[of c1 queued s2] Flush_spec[OF Cons.prems(1) f] show ?thesis by auto
  qed
qed auto

lemma output_ok_new: "TcpConnection_new fd m = Inr c \<Longrightarrow> output_ok c \<and> unsent c = []"
  by (auto simp: TcpConnection_new_def outcome_bind_Inr_iff output_ok_def unsent_def split: if_splits)

text \<open>What \<open>receive_loop\<close> reads: the concatenation of the data up to the entry that ends it.\<close>

fun script_data :: "recv_result list \<Rightarrow> byte list" where
  "script_data [] = []"
| "script_data (Received bs # rs) = (if bs = [] then [] else bs @ script_data rs)"
| "script_data (RecvInterrupted # rs) = script_data rs"
| "script_data (RecvWouldBlock # rs) = []"
| "script_data (RecvFailed # rs) = []"

fun script_end :: "recv_result list \<Rightarrow> bool option" where
  "script_end [] = Some False"
| "script_end (Received bs # rs) = (if bs = [] then Some True else script_end rs)"
| "script_end (RecvInterrupted # rs) = script_end rs"
| "script_end (RecvWouldBlock # rs) = Some False"
| "script_end (RecvFailed # rs) = None"

lemma receive_loop_spec:
  "\<exists>rs'. receive_loop rs d = Inr (script_end rs, d\<lparr>dec_buffer := dec_buffer d @ script_data rs\<rparr>, rs')"
proof (induction rs d rule: receive_loop.induct)
  case (2 bs rs d)
  then show ?case by (auto simp: FrameDecoder_Append_ptr_def)
qed auto

text \<open>A peer reading with \<open>ReadAvailable\<close> over a sequence of readiness events.\<close>

fun read_events :: "recv_result list list \<Rightarrow> TcpConnection \<Rightarrow> (IoStatus list \<times> Frame list \<times> TcpConnection) outcome" where
  "read_events [] c = Inr ([], [], c)"
| "read_events (rs # rss) c =
     outcome_bind (ReadAvailable rs c) (\<lambda>(st, fs, c, _).
       outcome_bind (read_events rss c) (\<lambda>(sts, fs', c). Inr (st # sts, fs @ fs', c)))"

lemma read_events_receive:
  "\<forall>rs \<in> set rss. script_end rs \<noteq> None \<Longrightarrow>
   receive_chunks (map script_data rss) (tcp_decoder c) = Inr (fs, d) \<Longrightarrow>
   \<exists>sts. read_events rss c = Inr (sts, fs, c\<lparr>tcp_decoder := d\<rparr>)"
proof (induction rss arbitrary: c fs)
  case (Cons rs rss)
  let ?d = "(tcp_decoder c)\<lparr>dec_buffer := dec_buffer (tcp_decoder c) @ script_data rs\<rparr>"
  obtain rs' b where l: "receive_loop rs (tcp_decoder c) = Inr (Some b, ?d, rs')"
    using receive_loop_spec[of rs "tcp_decoder c"] Cons.prems(1) by auto
  obtain s1 f1 d1 where dl: "decode_loop ?d [] = (s1, f1, d1)" by (cases "decode_loop ?d []")
  have app: "FrameDecoder_Append (script_data rs) (tcp_decoder c) = Inr ?d"
    by (auto simp: FrameDecoder_Append_def FrameDecoder_Append_ptr_def)
  obtain f2 where f2: "receive_chunks (map script_data rss) (tcp_decoder (c\<lparr>tcp_decoder := d1\<rparr>)) = Inr (f2, d)"
      "fs = f1 @ f2"
    using Cons.prems(2) by (auto simp: app dl outcome_bind_Inr_iff)
  obtain sts where "read_events rss (c\<lparr>tcp_decoder := d1\<rparr>) = Inr (sts, f2, c\<lparr>tcp_decoder := d\<rparr>)"
    using Cons.IH[OF _ f2(1)] Cons.prems(1) by auto
  then show ?case by (simp add: ReadAvailable_def l dl f2(2))
qed (simp add: prod_eq_iff)

section \<open>Properties of a connection\<close>

text \<open>
  C17: The output buffer of a connection is a bounded FIFO of bytes: for every sequence of
  \<open>QueueBytes\<close> and \<open>Flush\<close> calls and every behaviour of \<open>send\<close> (partial writes, interruptions,
  errors), the accepted bytes are exactly the bytes sent followed by the bytes pending, in order;
  no more than the configured maximum is ever pending; and the next \<open>QueueBytes\<close> is refused exactly
  when it would exceed that maximum, so the \<open>std::size_t\<close> subtraction it uses never wraps.
\<close>

theorem output_is_bounded_fifo:
  assumes "TcpConnection_new fd maximum = Inr c" and "tcp_run ops c = (queued, sent, c')"
  shows "queued = sent @ unsent c' \<and> PendingBytes c' = length queued - length sent \<and>
    PendingBytes c' \<le> maximum \<and>
    (fst (QueueBytes bytes c') \<longleftrightarrow> PendingBytes c' + length bytes \<le> maximum)"
proof -
  have m: "tcp_maximum_pending_bytes c = maximum"
    using assms(1) by (auto simp: TcpConnection_new_def outcome_bind_Inr_iff split: if_splits)
  have "queued = sent @ unsent c' \<and> output_ok c' \<and> tcp_maximum_pending_bytes c' = maximum"
    using tcp_run_spec[of c ops queued sent c'] output_ok_new[OF assms(1)] assms(2) m by simp
  then show ?thesis
    using QueueBytes_spec[of c' bytes] by (auto simp: PendingBytes_unsent output_ok_def)
qed

theorem output_is_bounded_fifo_witness:
  "\<exists>c c'. TcpConnection_new 7 4 = Inr c \<and>
     tcp_run [TQueue [1, 2, 3], TQueue [4, 5], TFlush [SendInterrupted, Sent 2], TQueue [6]] c =
       ([1, 2, 3, 6], [1, 2], c') \<and>
     unsent c' = [3, 6] \<and> fst (QueueBytes [7, 8] c') \<and> \<not> fst (QueueBytes [7, 8, 9] c')"
proof -
  obtain c where c: "TcpConnection_new 7 4 = Inr c"
    by (simp add: TcpConnection_new_def FrameDecoder_new_def kDefaultMaxPayloadSize_def)
  then have c_eq: "tcp_output c = []" "tcp_output_offset c = 0" "tcp_maximum_pending_bytes c = 4"
    by (auto simp: TcpConnection_new_def outcome_bind_Inr_iff split: if_splits)
  obtain c' where run: "tcp_run [TQueue [1, 2, 3], TQueue [4, 5], TFlush [SendInterrupted, Sent 2], TQueue [6]] c =
      ([1, 2, 3, 6], [1, 2], c')"
    by (simp add: c_eq QueueBytes_def CompactOutput_def PendingBytes_def WantsWrite_def size_t_minus_def)
  have u: "unsent c' = [3, 6]" using output_is_bounded_fifo[OF c run] by simp
  have "fst (QueueBytes bs c') \<longleftrightarrow> PendingBytes c' + length bs \<le> 4" for bs
    using output_is_bounded_fifo[OF c run] by blast
  then have "fst (QueueBytes [7, 8] c')" "\<not> fst (QueueBytes [7, 8, 9] c')"
    by (simp_all add: PendingBytes_unsent u)
  with u c run show ?thesis by blast
qed

text \<open>
  C18: Two connections back to back deliver frames: when the frames queued on one side (as
  \<open>EncodeFrame\<close> writes them) have all gone to the kernel, and the other side reads those bytes in
  whatever portions, over however many readiness events, \<open>ReadAvailable\<close> hands out exactly these
  frames in order and keeps nothing back.
\<close>

theorem connection_delivers_frames:
  assumes "TcpConnection_new fd maximum = Inr c" and "tcp_run ops c = (queued, sent, c')"
    and "list_all2 (\<lambda>f bs. EncodeFrame (message_id f) (payload f) kDefaultMaxPayloadSize = Inr bs) fs encs"
    and "queued = concat encs" and "\<not> WantsWrite c'"
    and "TcpConnection_new fd2 maximum2 = Inr peer"
    and "\<forall>rs \<in> set rss. script_end rs \<noteq> None" and "concat (map script_data rss) = sent"
  shows "\<exists>sts peer'. read_events rss peer = Inr (sts, fs, peer') \<and>
    FrameDecoder_BufferedBytes (tcp_decoder peer') = 0 \<and> \<not> FrameDecoder_Failed (tcp_decoder peer')"
proof -
  have "sent = concat encs"
    using tcp_run_spec[of c ops queued sent c'] output_ok_new[OF assms(1)] assms(2,4,5)
    by (simp add: WantsWrite_unsent)
  then have ps: "parse_stream kDefaultMaxPayloadSize (concat (map script_data rss)) = (fs, kNeedMoreData, [])"
    using EncodeFrame_list_all2[OF assms(3)] assms(8) by (simp add: parse_stream_concat_encode)
  obtain d where d: "FrameDecoder_new kDefaultMaxPayloadSize = Inr d" "tcp_decoder peer = d"
    using assms(6) by (auto simp: TcpConnection_new_def outcome_bind_Inr_iff split: if_splits)
  obtain d' where d': "receive_chunks (map script_data rss) d = Inr (fs, d')" "pending d' = []" "\<not> dec_failed d'"
    using receive_chunks_parse[of d "map script_data rss" fs kNeedMoreData "[]"] decoder_wf_new[OF d(1)] ps
    by auto
  then show ?thesis
    using read_events_receive[OF assms(7), of peer fs d'] d(2) length_pending[of d']
    by (auto simp: FrameDecoder_Failed_def)
qed

theorem connection_delivers_frames_witness:
  "\<exists>peer sts peer'. TcpConnection_new 8 64 = Inr peer \<and>
     read_events [[Received [0, 0, 0, 1, 0], RecvInterrupted, Received [0]], [Received [0, 2, 65]]] peer =
       Inr (sts, [\<lparr>message_id = 2, payload = [65]\<rparr>], peer')"
proof -
  obtain c where c: "TcpConnection_new 7 64 = Inr c"
    by (simp add: TcpConnection_new_def FrameDecoder_new_def kDefaultMaxPayloadSize_def)
  obtain p where p: "TcpConnection_new 8 64 = Inr p"
    by (simp add: TcpConnection_new_def FrameDecoder_new_def kDefaultMaxPayloadSize_def)
  have c_eq: "tcp_output c = []" "tcp_output_offset c = 0" "tcp_maximum_pending_bytes c = 64"
    using c by (auto simp: TcpConnection_new_def outcome_bind_Inr_iff split: if_splits)
  let ?bs = "[0, 0, 0, 1, 0, 0, 0, 2, 65] :: byte list"
  obtain c' where run: "tcp_run [TQueue ?bs, TFlush [Sent 4, Sent 5]] c = (?bs, ?bs, c')" "\<not> WantsWrite c'"
    by (simp add: c_eq QueueBytes_def CompactOutput_def PendingBytes_def WantsWrite_def size_t_minus_def flushed_def)
  have enc: "list_all2 (\<lambda>f bs. EncodeFrame (message_id f) (payload f) kDefaultMaxPayloadSize = Inr bs)
      [\<lparr>message_id = 2, payload = [65]\<rparr>] [?bs]"
    by (simp add: EncodeFrame_def IsKnownMessageId_def message_ids AppendNetworkUint32_def UINT32_MAX_def
        kDefaultMaxPayloadSize_def)
  show ?thesis
    using connection_delivers_frames[OF c run(1) enc _ run(2) p,
        of "[[Received [0, 0, 0, 1, 0], RecvInterrupted, Received [0]], [Received [0, 2, 65]]]"] p
    by auto
qed

end
