(* ===== verification/Event_Loop.thy ===== *)
theory Event_Loop
  imports Mmo_Prelude Completion_Queue
begin

text \<open>
  \<open>src/net/event_loop.cpp\<close>: the table of callbacks next to the kernel's epoll interest list, the
  dispatch of one batch of events, and the loop with its stop flag. A callback is a value of a type
  \<open>'cb\<close> of callback names; what calling it does to the whole state \<open>'s\<close> of the program is an argument
  of \<open>PollOnce\<close>. Whether the kernel has the resources for an \<open>epoll_ctl\<close> is an argument of the calls.
\<close>

section \<open>State and registration\<close>

record 'cb EventLoop =
  callbacks :: "(int, 'cb) umap"
  epoll_interest :: "(int, u32) umap"
  stop_counter :: nat
  loop_running :: bool

definition EPOLLIN :: u32 where "EPOLLIN = 0x001"
definition EPOLLOUT :: u32 where "EPOLLOUT = 0x004"
definition EPOLLERR :: u32 where "EPOLLERR = 0x008"
definition EPOLLHUP :: u32 where "EPOLLHUP = 0x010"
definition EPOLLRDHUP :: u32 where "EPOLLRDHUP = 0x2000"

lemmas epoll_bits = EPOLLIN_def EPOLLOUT_def EPOLLERR_def EPOLLHUP_def EPOLLRDHUP_def

definition EventLoop_Add :: "bool \<Rightarrow> int \<Rightarrow> u32 \<Rightarrow> 'cb option \<Rightarrow> 'cb EventLoop \<Rightarrow> bool \<times> 'cb EventLoop" where
  "EventLoop_Add os_ok descriptor events callback l =
     (case callback of
        None \<Rightarrow> (False, l)
      | Some cb \<Rightarrow>
          if descriptor < 0 \<or> um_contains (callbacks l) descriptor then (False, l)
          else if \<not> os_ok \<or> um_contains (epoll_interest l) descriptor then (False, l)
          else (True, l\<lparr>epoll_interest := um_put descriptor events (epoll_interest l),
                        callbacks := um_emplace descriptor cb (callbacks l)\<rparr>))"

definition EventLoop_Modify :: "bool \<Rightarrow> int \<Rightarrow> u32 \<Rightarrow> 'cb EventLoop \<Rightarrow> bool \<times> 'cb EventLoop" where
  "EventLoop_Modify os_ok descriptor events l =
     (if \<not> um_contains (callbacks l) descriptor then (False, l)
      else if \<not> os_ok \<or> \<not> um_contains (epoll_interest l) descriptor then (False, l)
      else (True, l\<lparr>epoll_interest := um_put descriptor events (epoll_interest l)\<rparr>))"

definition EventLoop_Remove :: "int \<Rightarrow> 'cb EventLoop \<Rightarrow> 'cb EventLoop" where
  "EventLoop_Remove descriptor l =
     l\<lparr>callbacks := um_erase descriptor (callbacks l),
       epoll_interest := um_erase descriptor (epoll_interest l)\<rparr>"

text \<open>
  The constructor registers the stop eventfd, with the callback that consumes it; \<open>None\<close> is the
  failure of \<open>epoll_create1\<close>.
\<close>

definition EventLoop_new :: "bool \<Rightarrow> bool \<Rightarrow> int \<Rightarrow> 'cb \<Rightarrow> 'cb EventLoop outcome" where
  "EventLoop_new created os_ok stop_fd stop_callback =
     (if \<not> created then Inl (Throw (system_error ''epoll_create1''))
      else
        let (added, l) = EventLoop_Add os_ok stop_fd EPOLLIN (Some stop_callback)
              \<lparr>callbacks = um_empty, epoll_interest = um_empty, stop_counter = 0, loop_running = False\<rparr>
        in if \<not> added then Inl (Throw (runtime_error ''failed to register event-loop wakeup''))
           else Inr l)"

definition EventLoop_Stop :: "bool list \<Rightarrow> 'cb EventLoop \<Rightarrow> 'cb EventLoop" where
  "EventLoop_Stop interrupts l =
     l\<lparr>loop_running := False, stop_counter := Notify interrupts (stop_counter l)\<rparr>"

section \<open>Dispatch\<close>

datatype wait_result = Ready "(int \<times> u32) list" | WaitInterrupted | WaitFailed

definition max_events :: nat where
  "max_events = 64"

fun dispatch_events ::
  "('s \<Rightarrow> 'cb EventLoop) \<Rightarrow> ('cb \<Rightarrow> u32 \<Rightarrow> 's \<Rightarrow> 's outcome) \<Rightarrow> (int \<times> u32) list \<Rightarrow> 's \<Rightarrow> 's outcome" where
  "dispatch_events get invoke [] s = Inr s"
| "dispatch_events get invoke ((descriptor, events) # rest) s =
     (case um_find (callbacks (get s)) descriptor of
        None \<Rightarrow> dispatch_events get invoke rest s
      | Some cb \<Rightarrow> outcome_bind (invoke cb events s) (dispatch_events get invoke rest))"

definition PollOnce ::
  "('s \<Rightarrow> 'cb EventLoop) \<Rightarrow> ('cb \<Rightarrow> u32 \<Rightarrow> 's \<Rightarrow> 's outcome) \<Rightarrow> wait_result \<Rightarrow> 's \<Rightarrow> (nat \<times> 's) outcome" where
  "PollOnce get invoke r s =
     (case r of
        WaitInterrupted \<Rightarrow> Inr (0, s)
      | WaitFailed \<Rightarrow> Inl (Throw (system_error ''epoll_wait''))
      | Ready evs \<Rightarrow>
          let evs = take max_events evs
          in outcome_bind (dispatch_events get invoke evs s) (\<lambda>s. Inr (length evs, s)))"

text \<open>
  \<open>Run\<close> over the results of its successive \<open>epoll_wait\<close> calls: \<open>True\<close> when the loop has ended, \<open>False\<close>
  when it is still in it, blocked in the next wait.
\<close>

fun run_loop ::
  "('s \<Rightarrow> 'cb EventLoop) \<Rightarrow> ('cb \<Rightarrow> u32 \<Rightarrow> 's \<Rightarrow> 's outcome) \<Rightarrow> wait_result list \<Rightarrow> 's \<Rightarrow> (bool \<times> 's) outcome" where
  "run_loop get invoke [] s = Inr (\<not> loop_running (get s), s)"
| "run_loop get invoke (r # rs) s =
     (if \<not> loop_running (get s) then Inr (True, s)
      else outcome_bind (PollOnce get invoke r s) (\<lambda>(_, s). run_loop get invoke rs s))"

definition EventLoop_Run ::
  "('s \<Rightarrow> 'cb EventLoop) \<Rightarrow> ('cb EventLoop \<Rightarrow> 's \<Rightarrow> 's) \<Rightarrow> ('cb \<Rightarrow> u32 \<Rightarrow> 's \<Rightarrow> 's outcome) \<Rightarrow>
   wait_result list \<Rightarrow> 's \<Rightarrow> (bool \<times> 's) outcome" where
  "EventLoop_Run get put invoke rs s =
     run_loop get invoke rs (put ((get s)\<lparr>loop_running := True\<rparr>) s)"

section \<open>Registration lemmas\<close>

text \<open>The callback table and the kernel's interest list cover the same descriptors.\<close>

definition loop_ok :: "'cb EventLoop \<Rightarrow> bool" where
  "loop_ok l \<longleftrightarrow> um_invar (callbacks l) \<and> um_invar (epoll_interest l) \<and>
     (\<forall>d. um_find (callbacks l) d = None \<longleftrightarrow> um_find (epoll_interest l) d = None) \<and>
     (\<forall>d. um_find (callbacks l) d \<noteq> None \<longrightarrow> 0 \<le> d)"

lemma loop_ok_Add: "loop_ok l \<Longrightarrow> EventLoop_Add ok d ev cb l = (b, l') \<Longrightarrow> loop_ok l'"
  by (auto simp: EventLoop_Add_def loop_ok_def um.invar_put um.invar_emplace split: option.splits if_splits)

lemma loop_ok_Modify: "loop_ok l \<Longrightarrow> EventLoop_Modify ok d ev l = (b, l') \<Longrightarrow> loop_ok l'"
  by (auto simp: EventLoop_Modify_def loop_ok_def um.invar_put split: if_splits)

lemma loop_ok_Remove: "loop_ok l \<Longrightarrow> loop_ok (EventLoop_Remove d l)"
  by (auto simp: EventLoop_Remove_def loop_ok_def um.invar_erase)

end
