(* ===== verification/Game_Service.thy ===== *)
theory Game_Service
  imports Aoi_World Protobuf_Codec Async_Data
begin

text \<open>
  \<open>src/game/game_service.cpp\<close>: login, chat, movement, heartbeat and disconnection. The state is the
  class's fields. The two collaborators it holds references to are arguments: the \<open>GameTransport\<close> it
  sends through (a record of its virtual methods over a transport state \<open>'t\<close>, which is a field of the
  state) and the protobuf library. The \<open>AsyncDataService\<close> is the worker pool its requests go to. The
  callbacks the class passes to it are the constructors of \<open>game_callback\<close>, whose arguments are what
  the C++ lambdas capture; \<open>run_completion\<close> is their bodies.

  Draws of \<open>std::mt19937_64\<close> and readings of the clocks are arbitrary sequences, consumed in program
  order. A loop over an \<open>unordered_set\<close> visits the players in increasing order of their ids, one of
  the orders C++ allows; statements about messages do not depend on it.
\<close>

section \<open>Types\<close>

type_synonym ConnectionId = u64

record OnlinePlayer =
  on_record :: PlayerRecord
  on_connection_id :: ConnectionId
  on_session_token :: string

record GameConfig =
  gc_aoi :: AoiConfig
  gc_session_ttl :: int
  gc_maximum_chat_bytes :: nat

definition default_game_config :: GameConfig where
  "default_game_config = \<lparr>gc_aoi = default_aoi_config, gc_session_ttl = 300, gc_maximum_chat_bytes = 256\<rparr>"

datatype game_callback =
    LoadPlayerCallback ConnectionId string string \<comment> \<open>connection, account, requested token\<close>
  | SavePlayerCallback ConnectionId string PlayerRecord
  | LoadSessionCallback ConnectionId string PlayerRecord string bool
  | StoreSessionCallback ConnectionId string PlayerRecord string bool
  | IgnoreCallback

type_synonym data_pool = "game_callback data_task BoundedThreadPool"

record 't GameService =
  transport :: 't
  data_service :: data_pool
  config :: GameConfig
  world :: AoiWorld
  online_players :: "(PlayerId, OnlinePlayer) umap"
  connection_players :: "(ConnectionId, PlayerId) umap"
  pending_connections :: "(ConnectionId, string) umap"
  pending_accounts :: "string set"
  random_draws :: "nat \<Rightarrow> u64"
  random_used :: nat
  clock_ms :: "nat \<Rightarrow> u64"
  clock_used :: nat
  player_sequence :: u64

type_synonym 't sender = "ConnectionId \<Rightarrow> MessageType \<Rightarrow> Message \<Rightarrow> 't \<Rightarrow> bool \<times> 't"

record 't GameTransport =
  Send :: "'t sender"
  IsConnected :: "'t \<Rightarrow> ConnectionId \<Rightarrow> bool"
  Disconnect :: "ConnectionId \<Rightarrow> 't GameService \<Rightarrow> 't GameService outcome"

definition GameService_new ::
  "'t \<Rightarrow> data_pool \<Rightarrow> GameConfig \<Rightarrow> (nat \<Rightarrow> u64) \<Rightarrow> (nat \<Rightarrow> u64) \<Rightarrow> 't GameService outcome" where
  "GameService_new t p cfg draws clock =
     outcome_bind (AoiWorld_new (gc_aoi cfg)) (\<lambda>w.
       Inr \<lparr>transport = t, data_service = p, config = cfg, world = w, online_players = um_empty,
            connection_players = um_empty, pending_connections = um_empty, pending_accounts = {},
            random_draws = draws, random_used = 0, clock_ms = clock, clock_used = 0,
            player_sequence = 0\<rparr>)"

section \<open>Helpers\<close>

definition send_message :: "'t sender \<Rightarrow> ConnectionId \<Rightarrow> MessageType \<Rightarrow> Message \<Rightarrow> 't GameService \<Rightarrow> 't GameService" where
  "send_message send c type m g = g\<lparr>transport := snd (send c type m (transport g))\<rparr>"

definition FillView :: "PlayerRecord \<Rightarrow> PlayerView" where
  "FillView player =
     \<lparr>view_player_id = pr_player_id player, view_nickname = pr_nickname player,
      view_position = Some \<lparr>msg_x = pr_position_x player, msg_y = pr_position_y player\<rparr>\<rparr>"

definition record_position :: "PlayerRecord \<Rightarrow> Position" where
  "record_position player = \<lparr>pos_x = pr_position_x player, pos_y = pr_position_y player\<rparr>"

definition PlayerForConnection :: "ConnectionId \<Rightarrow> 't GameService \<Rightarrow> OnlinePlayer option" where
  "PlayerForConnection connection_id g =
     (case um_find (connection_players g) connection_id of
        None \<Rightarrow> None
      | Some player_id \<Rightarrow> um_find (online_players g) player_id)"

definition PlayerById :: "PlayerId \<Rightarrow> 't GameService \<Rightarrow> OnlinePlayer option" where
  "PlayerById player_id g = um_find (online_players g) player_id"

definition OnlinePlayerCount :: "'t GameService \<Rightarrow> nat" where
  "OnlinePlayerCount g = um_size (online_players g)"

definition random_next :: "'t GameService \<Rightarrow> u64 \<times> 't GameService" where
  "random_next g = (random_draws g (random_used g), g\<lparr>random_used := Suc (random_used g)\<rparr>)"

definition clock_next :: "'t GameService \<Rightarrow> u64 \<times> 't GameService" where
  "clock_next g = (clock_ms g (clock_used g), g\<lparr>clock_used := Suc (clock_used g)\<rparr>)"

text \<open>\<open>std::time(nullptr)\<close>: whole seconds.\<close>

definition unix_time :: "'t GameService \<Rightarrow> s64 \<times> 't GameService" where
  "unix_time g = (let (ms, g) = clock_next g in (ms div 1000, g))"

definition kNames :: "string list" where
  "kNames = [''Nova'', ''Atlas'', ''Echo'', ''Luna'', ''Orion'', ''Pixel'',
     ''River'', ''Comet'', ''Maple'', ''Mango'', ''Quartz'', ''Sparrow'']"

definition new_player_id :: "u64 \<Rightarrow> u64 \<Rightarrow> PlayerId" where
  "new_player_id milliseconds seq = push_bit 20 milliseconds OR (seq AND 0xFFFFF)"

definition NewPlayer :: "string \<Rightarrow> 't GameService \<Rightarrow> PlayerRecord \<times> 't GameService" where
  "NewPlayer account g =
     (let (milliseconds, g) = clock_next g;
          g = g\<lparr>player_sequence := player_sequence g + 1\<rparr>;
          player_id = new_player_id milliseconds (player_sequence g);
          (draw, g) = random_next g;
          nickname = kNames ! unat (draw mod 12) @ ''-'' @ to_string (unat (player_id mod 100000));
          aoi = gc_aoi (config g);
          (now, g) = unix_time g
      in (\<lparr>pr_player_id = player_id, pr_account = account, pr_nickname = nickname,
           pr_position_x = d_div (d_add (min_x aoi) (max_x aoi)) (DFin 2),
           pr_position_y = d_div (d_add (min_y aoi) (max_y aoi)) (DFin 2),
           pr_position_z = DFin 0, pr_last_login_unix = now\<rparr>, g))"

definition NewSessionToken :: "'t GameService \<Rightarrow> string \<times> 't GameService" where
  "NewSessionToken g =
     (let (a, g) = random_next g; (b, g) = random_next g in (hex16 a @ hex16 b, g))"

text \<open>Sends one message to the connection of every listed player that is online.\<close>

definition send_to_players :: "'t sender \<Rightarrow> MessageType \<Rightarrow> Message \<Rightarrow> PlayerId list \<Rightarrow> 't GameService \<Rightarrow> 't GameService" where
  "send_to_players send type m ids g =
     fold (\<lambda>i g. case PlayerById i g of
        None \<Rightarrow> g
      | Some nearby \<Rightarrow> send_message send (on_connection_id nearby) type m g) ids g"

section \<open>Login\<close>

text \<open>The clean-up that four places of the login path share when the connection is gone.\<close>

definition abandon_login :: "ConnectionId \<Rightarrow> string \<Rightarrow> 't GameService \<Rightarrow> 't GameService" where
  "abandon_login connection_id account g =
     g\<lparr>pending_accounts := pending_accounts g - {account},
       pending_connections := um_erase connection_id (pending_connections g)\<rparr>"

definition login_is_dead :: "'t GameTransport \<Rightarrow> ConnectionId \<Rightarrow> 't GameService \<Rightarrow> bool" where
  "login_is_dead tr connection_id g \<longleftrightarrow>
     \<not> IsConnected tr (transport g) connection_id \<or> \<not> um_contains (pending_connections g) connection_id"

definition FailLogin :: "'t GameTransport \<Rightarrow> ConnectionId \<Rightarrow> string \<Rightarrow> string \<Rightarrow> 't GameService \<Rightarrow> 't GameService" where
  "FailLogin tr connection_id account error g =
     (let g = (if account \<noteq> [] then g\<lparr>pending_accounts := pending_accounts g - {account}\<rparr> else g);
          g = (case um_find (pending_connections g) connection_id of
                 None \<Rightarrow> g
               | Some pending_account \<Rightarrow>
                   g\<lparr>pending_accounts := pending_accounts g - {pending_account},
                     pending_connections := um_erase connection_id (pending_connections g)\<rparr>)
      in if \<not> IsConnected tr (transport g) connection_id then g
         else send_message (Send tr) connection_id kLoginResponse
           (LoginResponse \<lparr>lr_success = False, lr_error = error, lr_self = None, lr_nearby_players = [],
              lr_session_token = ''''\<rparr>) g)"

text \<open>\<open>FinishLogin\<close> from \<open>world_.AddPlayer\<close> on; \<open>account\<close> was read off the record passed in.\<close>

definition enter_world ::
  "'t GameTransport \<Rightarrow> ConnectionId \<Rightarrow> string \<Rightarrow> PlayerRecord \<Rightarrow> string \<Rightarrow> 't GameService \<Rightarrow> 't GameService outcome" where
  "enter_world tr connection_id account player session_token g =
     outcome_bind (AddPlayer (pr_player_id player) (record_position player) (world g)) (\<lambda>(added, w).
       let g = g\<lparr>world := w\<rparr> in
       if \<not> added then Inr (FailLogin tr connection_id account ''player position is outside the world'' g)
       else
         let g = g\<lparr>connection_players := um_put connection_id (pr_player_id player) (connection_players g),
                   online_players := um_emplace (pr_player_id player)
                     \<lparr>on_record = player, on_connection_id = connection_id, on_session_token = session_token\<rparr>
                     (online_players g),
                   pending_accounts := pending_accounts g - {account},
                   pending_connections := um_erase connection_id (pending_connections g)\<rparr>
         in outcome_bind (outcome_bind (VisiblePlayers (world g) (pr_player_id player)) optional_value)
           (\<lambda>visible.
              let ids = sorted_list_of_set visible;
                  response = LoginResponse
                    \<lparr>lr_success = True, lr_error = '''', lr_self = Some (FillView player),
                     lr_nearby_players = map (FillView \<circ> on_record) (List.map_filter (\<lambda>i. PlayerById i g) ids),
                     lr_session_token = session_token\<rparr>;
                  g = send_message (Send tr) connection_id kLoginResponse response g
              in Inr (send_to_players (Send tr) kPlayerEnter (PlayerEnter (Some (FillView player))) ids g)))"

definition FinishLogin ::
  "'t GameTransport \<Rightarrow> ConnectionId \<Rightarrow> PlayerRecord \<Rightarrow> string \<Rightarrow> bool \<Rightarrow> 't GameService \<Rightarrow> 't GameService outcome" where
  "FinishLogin tr connection_id player session_token allow_replacement g =
     (let account = pr_account player in
      if login_is_dead tr connection_id g then Inr (abandon_login connection_id account g)
      else
        case um_find (online_players g) (pr_player_id player) of
          None \<Rightarrow> enter_world tr connection_id account player session_token g
        | Some existing \<Rightarrow>
            if \<not> allow_replacement then Inr (FailLogin tr connection_id account ''player is already online'' g)
            else outcome_bind (Disconnect tr (on_connection_id existing) g)
              (enter_world tr connection_id account (on_record existing) session_token))"

definition StoreSessionAndFinish ::
  "'t GameTransport \<Rightarrow> ConnectionId \<Rightarrow> PlayerRecord \<Rightarrow> bool \<Rightarrow> 't GameService \<Rightarrow> 't GameService" where
  "StoreSessionAndFinish tr connection_id player allow_replacement g =
     (let account = pr_account player in
      if login_is_dead tr connection_id g then abandon_login connection_id account g
      else if um_contains (online_players g) (pr_player_id player) \<and> \<not> allow_replacement
      then FailLogin tr connection_id account ''player is already online'' g
      else
        let (token, g) = NewSessionToken g;
            (submitted, p) = StoreSession \<lparr>sr_player_id = pr_player_id player, sr_token = token\<rparr>
              (gc_session_ttl (config g))
              (Some (StoreSessionCallback connection_id account player token allow_replacement))
              (data_service g);
            g = g\<lparr>data_service := p\<rparr>
        in if submitted then g else FailLogin tr connection_id account ''database queue is full'' g)"

definition ContinueLogin ::
  "'t GameTransport \<Rightarrow> ConnectionId \<Rightarrow> PlayerRecord \<Rightarrow> string \<Rightarrow> bool \<Rightarrow> 't GameService \<Rightarrow> 't GameService" where
  "ContinueLogin tr connection_id player requested_token newly_created g =
     (let account = pr_account player in
      if login_is_dead tr connection_id g then abandon_login connection_id account g
      else
        let (now, g) = unix_time g;
            player = player\<lparr>pr_last_login_unix := now\<rparr>
        in if requested_token = [] then StoreSessionAndFinish tr connection_id player False g
           else
             let (submitted, p) = LoadSession (pr_player_id player)
                   (Some (LoadSessionCallback connection_id account player requested_token newly_created))
                   (data_service g);
                 g = g\<lparr>data_service := p\<rparr>
             in if submitted then g else FailLogin tr connection_id account ''database queue is full'' g)"

definition HandleLogin ::
  "'t GameTransport \<Rightarrow> protobuf \<Rightarrow> ConnectionId \<Rightarrow> Frame \<Rightarrow> 't GameService \<Rightarrow> 't GameService" where
  "HandleLogin tr pb connection_id frame g =
     (case ParseProtobufPayload pb frame kLoginRequest kLoginRequest of
        Some (LoginRequest account requested_token) \<Rightarrow>
          if account = [] \<or> length account > 64 \<or> um_contains (connection_players g) connection_id \<or>
             um_contains (pending_connections g) connection_id
          then FailLogin tr connection_id [] ''invalid or duplicate login request'' g
          else if account \<in> pending_accounts g
          then FailLogin tr connection_id [] ''account login is already pending'' g
          else
            let g = g\<lparr>pending_connections := um_put connection_id account (pending_connections g),
                      pending_accounts := insert account (pending_accounts g)\<rparr>;
                (submitted, p) = LoadPlayer account
                  (Some (LoadPlayerCallback connection_id account requested_token)) (data_service g);
                g = g\<lparr>data_service := p\<rparr>
            in if submitted then g else FailLogin tr connection_id account ''database queue is full'' g
      | _ \<Rightarrow> FailLogin tr connection_id [] ''invalid or duplicate login request'' g)"

text \<open>The callbacks of the login path, by the result they are given.\<close>

definition on_player_loaded ::
  "'t GameTransport \<Rightarrow> ConnectionId \<Rightarrow> string \<Rightarrow> string \<Rightarrow> PlayerRecord DataResult \<Rightarrow> 't GameService \<Rightarrow> 't GameService" where
  "on_player_loaded tr connection_id account requested_token result g =
     (if login_is_dead tr connection_id g then abandon_login connection_id account g
      else
        case (DataResult_Ok result, dr_value result) of
          (True, Some player) \<Rightarrow> ContinueLogin tr connection_id player requested_token False g
        | _ \<Rightarrow>
            if dr_status result \<noteq> kNotFound
            then FailLogin tr connection_id account ''failed to load player'' g
            else
              let (player, g) = NewPlayer account g
              in if requested_token \<noteq> []
                 then FailLogin tr connection_id account ''session does not exist'' g
                 else
                   let (submitted, p) = SavePlayer player
                         (Some (SavePlayerCallback connection_id account player)) (data_service g);
                       g = g\<lparr>data_service := p\<rparr>
                   in if submitted then g
                      else FailLogin tr connection_id account ''database queue is full'' g)"

definition on_player_saved ::
  "'t GameTransport \<Rightarrow> ConnectionId \<Rightarrow> string \<Rightarrow> PlayerRecord \<Rightarrow> OperationResult \<Rightarrow> 't GameService \<Rightarrow> 't GameService" where
  "on_player_saved tr connection_id account player result g =
     (if \<not> OperationResult_Ok result
      then FailLogin tr connection_id account ''failed to create player'' g
      else ContinueLogin tr connection_id player [] True g)"

definition on_session_loaded ::
  "'t GameTransport \<Rightarrow> ConnectionId \<Rightarrow> string \<Rightarrow> PlayerRecord \<Rightarrow> string \<Rightarrow> bool \<Rightarrow> SessionRecord DataResult \<Rightarrow>
   't GameService \<Rightarrow> 't GameService" where
  "on_session_loaded tr connection_id account player requested_token newly_created result g =
     (if newly_created \<or> \<not> DataResult_Ok result \<or>
         map_option sr_token (dr_value result) \<noteq> Some requested_token
      then FailLogin tr connection_id account ''invalid or expired session'' g
      else StoreSessionAndFinish tr connection_id player True g)"

definition on_session_stored ::
  "'t GameTransport \<Rightarrow> ConnectionId \<Rightarrow> string \<Rightarrow> PlayerRecord \<Rightarrow> string \<Rightarrow> bool \<Rightarrow> OperationResult \<Rightarrow>
   't GameService \<Rightarrow> 't GameService outcome" where
  "on_session_stored tr connection_id account player token allow_replacement result g =
     (if \<not> OperationResult_Ok result
      then Inr (FailLogin tr connection_id account ''failed to store session'' g)
      else FinishLogin tr connection_id player token allow_replacement g)"

section \<open>Chat, movement, heartbeat\<close>

definition HandleChat ::
  "'t GameTransport \<Rightarrow> protobuf \<Rightarrow> ConnectionId \<Rightarrow> Frame \<Rightarrow> 't GameService \<Rightarrow> 't GameService" where
  "HandleChat tr pb connection_id frame g =
     (case (PlayerForConnection connection_id g, ParseProtobufPayload pb frame kChatRequest kChatRequest) of
        (Some sender, Some (ChatRequest text)) \<Rightarrow>
          if text = [] \<or> length text > gc_maximum_chat_bytes (config g) then g
          else
            fold (\<lambda>(_, player). send_message (Send tr) (on_connection_id player) kChatBroadcast
                (ChatBroadcast (pr_player_id (on_record sender)) (pr_nickname (on_record sender)) text))
              (um_entries (online_players g)) g
      | _ \<Rightarrow> g)"

text \<open>The loops over \<open>delta->entered\<close> and \<open>delta->left\<close>: a message to the other player and one back.\<close>

definition notify_entered :: "'t sender \<Rightarrow> ConnectionId \<Rightarrow> PlayerRecord \<Rightarrow> PlayerId list \<Rightarrow> 't GameService \<Rightarrow> 't GameService" where
  "notify_entered send connection_id mover ids g =
     fold (\<lambda>i g. case PlayerById i g of
        None \<Rightarrow> g
      | Some player \<Rightarrow>
          send_message send connection_id kPlayerEnter (PlayerEnter (Some (FillView (on_record player))))
            (send_message send (on_connection_id player) kPlayerEnter (PlayerEnter (Some (FillView mover))) g)) ids g"

definition notify_left :: "'t sender \<Rightarrow> ConnectionId \<Rightarrow> PlayerId \<Rightarrow> PlayerId list \<Rightarrow> 't GameService \<Rightarrow> 't GameService" where
  "notify_left send connection_id mover_id ids g =
     fold (\<lambda>i g. case PlayerById i g of
        None \<Rightarrow> g
      | Some player \<Rightarrow>
          send_message send connection_id kPlayerLeave (PlayerLeave i)
            (send_message send (on_connection_id player) kPlayerLeave (PlayerLeave mover_id) g)) ids g"

definition HandleMove ::
  "'t GameTransport \<Rightarrow> protobuf \<Rightarrow> ConnectionId \<Rightarrow> Frame \<Rightarrow> 't GameService \<Rightarrow> 't GameService outcome" where
  "HandleMove tr pb connection_id frame g =
     (case (PlayerForConnection connection_id g, ParseProtobufPayload pb frame kMoveRequest kMoveRequest) of
        (Some mover, Some (MoveRequest (Some pos))) \<Rightarrow>
          let player_id = pr_player_id (on_record mover);
              target = \<lparr>pos_x = msg_x pos, pos_y = msg_y pos\<rparr>
          in outcome_bind (MovePlayer player_id target (world g)) (\<lambda>(delta, w).
               let g = g\<lparr>world := w\<rparr> in
               case delta of
                 None \<Rightarrow> Inr g
               | Some d \<Rightarrow>
                   let moved = (on_record mover)\<lparr>pr_position_x := pos_x target, pr_position_y := pos_y target\<rparr>;
                       g = g\<lparr>online_players := um_put player_id (mover\<lparr>on_record := moved\<rparr>) (online_players g)\<rparr>;
                       g = send_to_players (Send tr) kPlayerMove (PlayerMove player_id (Some pos))
                             (sorted_list_of_set (stayed d)) g;
                       g = notify_entered (Send tr) connection_id moved (sorted_list_of_set (entered d)) g
                   in Inr (notify_left (Send tr) connection_id player_id (sorted_list_of_set (left d)) g))
      | _ \<Rightarrow> Inr g)"

definition HandleHeartbeat ::
  "'t GameTransport \<Rightarrow> protobuf \<Rightarrow> ConnectionId \<Rightarrow> Frame \<Rightarrow> 't GameService \<Rightarrow> 't GameService" where
  "HandleHeartbeat tr pb connection_id frame g =
     (case ParseProtobufPayload pb frame kHeartbeat kHeartbeat of
        None \<Rightarrow> g
      | Some heartbeat \<Rightarrow> send_message (Send tr) connection_id kHeartbeat heartbeat g)"

section \<open>Disconnection\<close>

definition OnDisconnected :: "'t sender \<Rightarrow> ConnectionId \<Rightarrow> 't GameService \<Rightarrow> 't GameService outcome" where
  "OnDisconnected send connection_id g =
     (let g = (case um_find (pending_connections g) connection_id of
                 None \<Rightarrow> g
               | Some account \<Rightarrow>
                   g\<lparr>pending_accounts := pending_accounts g - {account},
                     pending_connections := um_erase connection_id (pending_connections g)\<rparr>)
      in case um_find (connection_players g) connection_id of
           None \<Rightarrow> Inr g
         | Some player_id \<Rightarrow>
             case um_find (online_players g) player_id of
               None \<Rightarrow> Inr (g\<lparr>connection_players := um_erase connection_id (connection_players g)\<rparr>)
             | Some online \<Rightarrow>
                 outcome_bind (outcome_bind (VisiblePlayers (world g) player_id) optional_value) (\<lambda>visible.
                 outcome_bind (RemovePlayer player_id (world g)) (\<lambda>(_, w).
                   let g = g\<lparr>world := w, online_players := um_erase player_id (online_players g),
                             connection_players := um_erase connection_id (connection_players g)\<rparr>;
                       g = send_to_players send kPlayerLeave (PlayerLeave player_id)
                             (sorted_list_of_set visible) g;
                       (_, p) = SavePlayer (on_record online) (Some IgnoreCallback) (data_service g)
                   in Inr (g\<lparr>data_service := p\<rparr>))))"

section \<open>Dispatch\<close>

definition HandleFrame ::
  "'t GameTransport \<Rightarrow> protobuf \<Rightarrow> ConnectionId \<Rightarrow> Frame \<Rightarrow> 't GameService \<Rightarrow> 't GameService outcome" where
  "HandleFrame tr pb connection_id frame g =
     (if message_id frame = kLoginRequest then Inr (HandleLogin tr pb connection_id frame g)
      else if message_id frame = kChatRequest then Inr (HandleChat tr pb connection_id frame g)
      else if message_id frame = kMoveRequest then HandleMove tr pb connection_id frame g
      else if message_id frame = kHeartbeat then Inr (HandleHeartbeat tr pb connection_id frame g)
      else Disconnect tr connection_id g)"

text \<open>
  What \<open>Drain\<close> runs for a completion: the callback's body on its result. C++ types rule out a
  callback that is given a result of another kind.
\<close>

fun run_completion :: "'t GameTransport \<Rightarrow> game_callback data_completion \<Rightarrow> 't GameService \<Rightarrow> 't GameService outcome" where
  "run_completion tr (PlayerResult (LoadPlayerCallback c account token) r) g =
     Inr (on_player_loaded tr c account token r g)"
| "run_completion tr (OperationDone (SavePlayerCallback c account player) r) g =
     Inr (on_player_saved tr c account player r g)"
| "run_completion tr (SessionResult (LoadSessionCallback c account player token newly) r) g =
     Inr (on_session_loaded tr c account player token newly r g)"
| "run_completion tr (OperationDone (StoreSessionCallback c account player token allow) r) g =
     on_session_stored tr c account player token allow r g"
| "run_completion tr _ g = Inr g"

section \<open>Invariant\<close>

text \<open>
  The three tables and the world describe the same set of players: each online player is stored
  under its own id, owns exactly the connection that maps to it, and stands in the world where its
  record says; a connection that is logging in is not yet anyone's.
\<close>

definition tables_agree ::
  "(PlayerId \<rightharpoonup> Position) \<Rightarrow> (PlayerId \<rightharpoonup> OnlinePlayer) \<Rightarrow> (ConnectionId \<rightharpoonup> PlayerId) \<Rightarrow>
   (ConnectionId \<rightharpoonup> string) \<Rightarrow> bool" where
  "tables_agree placed online cp pc \<longleftrightarrow>
     (\<forall>p. placed p = map_option (record_position \<circ> on_record) (online p)) \<and>
     (\<forall>p q. online p = Some q \<longrightarrow> pr_player_id (on_record q) = p) \<and>
     (\<forall>c p. cp c = Some p \<longleftrightarrow> map_option on_connection_id (online p) = Some c) \<and>
     (\<forall>c. pc c \<noteq> None \<longrightarrow> cp c = None)"

definition game_inv :: "'t GameService \<Rightarrow> bool" where
  "game_inv g \<longleftrightarrow> aoi_inv (world g) \<and> um_invar (online_players g) \<and> um_invar (connection_players g) \<and>
     um_invar (pending_connections g) \<and>
     tables_agree (tracked (world g)) (um_find (online_players g)) (um_find (connection_players g))
       (um_find (pending_connections g))"

lemma send_message_fields [simp]:
  "data_service (send_message send c ty m g) = data_service g" "config (send_message send c ty m g) = config g"
  "world (send_message send c ty m g) = world g"
  "online_players (send_message send c ty m g) = online_players g"
  "connection_players (send_message send c ty m g) = connection_players g"
  "pending_connections (send_message send c ty m g) = pending_connections g"
  "pending_accounts (send_message send c ty m g) = pending_accounts g"
  by (simp_all add: send_message_def)

text \<open>Equal up to the transport.\<close>

definition same_game :: "'t GameService \<Rightarrow> 't GameService \<Rightarrow> bool" where
  "same_game g h \<longleftrightarrow> (\<exists>t. h = g\<lparr>transport := t\<rparr>)"

lemma same_game_refl [simp, intro]: "same_game g g"
  unfolding same_game_def by (rule exI[of _ "transport g"]) simp

lemma same_game_trans [trans]: "same_game g h \<Longrightarrow> same_game h k \<Longrightarrow> same_game g k"
  by (auto simp: same_game_def)

lemma same_game_sym: "same_game g h \<Longrightarrow> same_game h g"
  unfolding same_game_def by (auto intro!: exI[of _ "transport g"])

lemma same_game_send [simp, intro]: "same_game g (send_message send c ty m g)"
  by (auto simp: same_game_def send_message_def)

lemma same_game_fold:
  "(\<And>x g. same_game g (f x g)) \<Longrightarrow> same_game g (fold f xs g)"
proof (induction xs arbitrary: g)
  case (Cons x xs)
  then show ?case using same_game_trans[of g "f x g"] by simp
qed simp

lemma same_game_send_to_players [simp, intro]: "same_game g (send_to_players send ty m ids g)"
  unfolding send_to_players_def by (rule same_game_fold) (auto split: option.splits)

lemma same_game_notify_entered [simp, intro]: "same_game g (notify_entered send c mover ids g)"
  unfolding notify_entered_def by (rule same_game_fold) (auto split: option.splits intro: same_game_trans)

lemma same_game_notify_left [simp, intro]: "same_game g (notify_left send c mover ids g)"
  unfolding notify_left_def by (rule same_game_fold) (auto split: option.splits intro: same_game_trans)

lemma same_game_inv: "same_game g h \<Longrightarrow> game_inv h \<longleftrightarrow> game_inv g"
  unfolding same_game_def by (elim exE) (simp add: game_inv_def)

section \<open>How the tables change\<close>

lemma tables_drop_pending:
  "tables_agree w online cp pc \<Longrightarrow> tables_agree w online cp (pc(c := None))"
  by (auto simp: tables_agree_def)

lemma tables_add_pending:
  "tables_agree w online cp pc \<Longrightarrow> cp c = None \<Longrightarrow> tables_agree w online cp (pc(c \<mapsto> a))"
  by (auto simp: tables_agree_def)

lemma tables_enter:
  assumes "tables_agree w online cp pc" "online p = None" "cp c = None" "pr_player_id r = p"
  shows "tables_agree (w(p \<mapsto> record_position r))
    (online(p \<mapsto> \<lparr>on_record = r, on_connection_id = c, on_session_token = t\<rparr>)) (cp(c \<mapsto> p)) (pc(c := None))"
  using assms by (auto simp: tables_agree_def) (metis option.inject option.distinct(1))

lemma tables_leave:
  assumes "tables_agree w online cp pc" "online p = Some q" "cp c = Some p"
  shows "tables_agree (w(p := None)) (online(p := None)) (cp(c := None)) pc"
  using assms by (auto simp: tables_agree_def) (metis option.inject option.distinct(1))

lemma tables_move:
  assumes "tables_agree w online cp pc" "online p = Some q" "pr_player_id r = p"
  shows "tables_agree (w(p \<mapsto> record_position r)) (online(p \<mapsto> q\<lparr>on_record := r\<rparr>)) cp pc"
  using assms by (auto simp: tables_agree_def)

lemma game_inv_irrelevant [simp]:
  "game_inv (g\<lparr>transport := t\<rparr>) = game_inv g" "game_inv (g\<lparr>data_service := p\<rparr>) = game_inv g"
  "game_inv (g\<lparr>random_used := n\<rparr>) = game_inv g" "game_inv (g\<lparr>clock_used := n\<rparr>) = game_inv g"
  "game_inv (g\<lparr>player_sequence := w\<rparr>) = game_inv g" "game_inv (g\<lparr>pending_accounts := A\<rparr>) = game_inv g"
  by (simp_all add: game_inv_def)

lemma game_inv_send [simp]: "game_inv (send_message send c ty m g) = game_inv g"
  by (simp add: send_message_def)

lemma game_inv_erase_pending [intro]:
  "game_inv g \<Longrightarrow> game_inv (g\<lparr>pending_connections := um_erase c (pending_connections g)\<rparr>)"
  by (simp add: game_inv_def tables_drop_pending um.invar_erase)

lemma game_inv_abandon: "game_inv g \<Longrightarrow> game_inv (abandon_login c a g)"
  using game_inv_erase_pending[of "g\<lparr>pending_accounts := pending_accounts g - {a}\<rparr>" c]
  by (simp add: abandon_login_def)

text \<open>
  Handlers other than the ones that move, add or remove a player leave the world alone. \<open>keeps\<close> is
  what a handler guarantees: it keeps the invariant, or it ends in the fault that locating one of
  the positions \<open>P\<close> supplied to it gives.
\<close>

definition keeps :: "Position set \<Rightarrow> 't GameService \<Rightarrow> 't GameService outcome \<Rightarrow> bool" where
  "keeps P g r \<longleftrightarrow>
     (case r of
        Inr g' \<Rightarrow> game_inv g' \<and> GridIndexFor (world g') = GridIndexFor (world g)
      | Inl e \<Rightarrow> \<exists>pos \<in> P. GridIndexFor (world g) pos = Inl e)"

lemma keeps_Inr [simp]: "keeps P g (Inr g') \<longleftrightarrow> game_inv g' \<and> GridIndexFor (world g') = GridIndexFor (world g)"
  by (simp add: keeps_def)

lemma keeps_mono: "keeps P g r \<Longrightarrow> P \<subseteq> Q \<Longrightarrow> keeps Q g r"
  by (auto simp: keeps_def split: sum.splits)

lemma keeps_from: "keeps P h r \<Longrightarrow> GridIndexFor (world h) = GridIndexFor (world g) \<Longrightarrow> keeps P g r"
  by (cases r) (simp_all add: keeps_def)

lemma keeps_bind:
  assumes "keeps P g m" and "\<And>h. m = Inr h \<Longrightarrow> game_inv h \<Longrightarrow> GridIndexFor (world h) = GridIndexFor (world g) \<Longrightarrow> keeps P h (f h)"
  shows "keeps P g (outcome_bind m f)"
  using assms by (cases m) (auto simp: keeps_def split: sum.splits)

lemma FailLogin_inv: "game_inv g \<Longrightarrow> game_inv (FailLogin tr c a e g)"
  using game_inv_erase_pending[of g c]
  by (auto simp: FailLogin_def Let_def game_inv_def split: option.splits)

lemma FailLogin_world [simp]:
  "world (FailLogin tr c a e g) = world g" "online_players (FailLogin tr c a e g) = online_players g"
  "connection_players (FailLogin tr c a e g) = connection_players g"
  by (simp_all add: FailLogin_def Let_def split: option.splits)

lemma abandon_world [simp]: "world (abandon_login c a g) = world g"
  by (simp add: abandon_login_def)

lemma NewSessionToken_same:
  "NewSessionToken g = (tok, g') \<Longrightarrow> game_inv g' = game_inv g \<and> world g' = world g"
  by (auto simp: NewSessionToken_def random_next_def Let_def split: prod.splits)

lemma unix_time_same: "unix_time g = (n, g') \<Longrightarrow> game_inv g' = game_inv g \<and> world g' = world g"
  by (auto simp: unix_time_def clock_next_def Let_def)

lemma NewPlayer_same: "NewPlayer a g = (p, g') \<Longrightarrow> game_inv g' = game_inv g \<and> world g' = world g"
  by (auto simp: NewPlayer_def clock_next_def random_next_def unix_time_def Let_def split: prod.splits)

lemma StoreSessionAndFinish_keeps:
  "game_inv g \<Longrightarrow> keeps P g (Inr (StoreSessionAndFinish tr c r allow g))"
  by (auto simp: StoreSessionAndFinish_def Let_def FailLogin_inv game_inv_abandon
      dest: NewSessionToken_same split: prod.splits)

lemma ContinueLogin_keeps: "game_inv g \<Longrightarrow> keeps P g (Inr (ContinueLogin tr c r tok new g))"
proof -
  assume inv: "game_inv g"
  obtain n h where u: "unix_time g = (n, h)" by (cases "unix_time g")
  then have h: "game_inv h" "world h = world g" using inv unix_time_same by auto
  then show ?thesis
    using inv StoreSessionAndFinish_keeps[OF h(1)]
    by (auto simp: ContinueLogin_def Let_def u FailLogin_inv game_inv_abandon split: prod.splits)
qed

lemma HandleLogin_keeps: "game_inv g \<Longrightarrow> keeps P g (Inr (HandleLogin tr pb c f g))"
proof -
  assume inv: "game_inv g"
  have "um_find (connection_players g) c = None \<Longrightarrow>
      game_inv (g\<lparr>pending_connections := um_put c a (pending_connections g)\<rparr>)" for a
    using inv by (simp add: game_inv_def tables_add_pending um.invar_put)
  then show ?thesis
    using inv by (auto simp: HandleLogin_def Let_def FailLogin_inv split: option.splits Message.splits prod.splits)
qed

lemma on_player_loaded_keeps:
  assumes inv: "game_inv g"
  shows "keeps P g (Inr (on_player_loaded tr c a tok res g))"
proof -
  obtain r h where n: "NewPlayer a g = (r, h)" by (cases "NewPlayer a g")
  then have h: "game_inv h" "world h = world g" using inv NewPlayer_same by auto
  have "keeps P g (Inr (ContinueLogin tr c r' tok False g))" for r'
    using ContinueLogin_keeps[OF inv] .
  with inv h show ?thesis
    by (auto simp: on_player_loaded_def Let_def n FailLogin_inv game_inv_abandon
        split: prod.splits option.splits bool.splits)
qed

lemma on_player_saved_keeps: "game_inv g \<Longrightarrow> keeps P g (Inr (on_player_saved tr c a r res g))"
  using ContinueLogin_keeps[of g P tr c r] by (auto simp: on_player_saved_def FailLogin_inv)

lemma on_session_loaded_keeps: "game_inv g \<Longrightarrow> keeps P g (Inr (on_session_loaded tr c a r tok new res g))"
  using StoreSessionAndFinish_keeps[of g P tr c r] by (auto simp: on_session_loaded_def FailLogin_inv)

lemma HandleChat_same: "same_game g (HandleChat tr pb c f g)"
  by (auto simp: HandleChat_def split: option.splits Message.splits intro!: same_game_fold)

lemma HandleHeartbeat_same: "same_game g (HandleHeartbeat tr pb c f g)"
  by (auto simp: HandleHeartbeat_def split: option.splits)

lemma same_game_world: "same_game g h \<Longrightarrow> world h = world g"
  by (auto simp: same_game_def)

lemma same_game_keeps: "game_inv g \<Longrightarrow> same_game g h \<Longrightarrow> keeps P g (Inr h)"
  by (simp add: same_game_inv same_game_world)

lemma keeps_then_same: "keeps P g (Inr g1) \<Longrightarrow> same_game g1 h \<Longrightarrow> keeps P g (Inr h)"
  by (simp add: same_game_inv same_game_world)

lemma game_inv_online:
  "game_inv g \<Longrightarrow> PlayerForConnection c g = Some q \<Longrightarrow>
     um_find (connection_players g) c = Some (pr_player_id (on_record q)) \<and>
     um_find (online_players g) (pr_player_id (on_record q)) = Some q \<and> on_connection_id q = c \<and>
     tracked (world g) (pr_player_id (on_record q)) = Some (record_position (on_record q))"
  by (auto simp: PlayerForConnection_def game_inv_def tables_agree_def split: option.splits)

text \<open>The position a frame asks to move to.\<close>

definition requested_position :: "protobuf \<Rightarrow> Frame \<Rightarrow> Position set" where
  "requested_position pb frame =
     (case ParseProtobufPayload pb frame kMoveRequest kMoveRequest of
        Some (MoveRequest (Some pos)) \<Rightarrow> {\<lparr>pos_x = msg_x pos, pos_y = msg_y pos\<rparr>}
      | _ \<Rightarrow> {})"

lemma HandleMove_cases:
  assumes inv: "game_inv g"
  obtains (ignored) "HandleMove tr pb c f g = Inr g"
  | (fault) pos e where "pos \<in> requested_position pb f" "GridIndexFor (world g) pos = Inl e"
      "HandleMove tr pb c f g = Inl e"
  | (moved) q m pos d w' g1 where "PlayerForConnection c g = Some q"
      "ParseProtobufPayload pb f kMoveRequest kMoveRequest = Some (MoveRequest (Some m))"
      "pos = \<lparr>pos_x = msg_x m, pos_y = msg_y m\<rparr>"
      "MovePlayer (pr_player_id (on_record q)) pos (world g) = Inr (Some d, w')"
      "aoi_inv w'" "tracked w' = (tracked (world g))(pr_player_id (on_record q) \<mapsto> pos)"
      "GridIndexFor w' = GridIndexFor (world g)"
      "g1 = g\<lparr>world := w', online_players := um_put (pr_player_id (on_record q))
         (q\<lparr>on_record := (on_record q)\<lparr>pr_position_x := msg_x m, pr_position_y := msg_y m\<rparr>\<rparr>) (online_players g)\<rparr>"
      "HandleMove tr pb c f g = Inr (notify_left (Send tr) c (pr_player_id (on_record q)) (sorted_list_of_set (left d))
         (notify_entered (Send tr) c ((on_record q)\<lparr>pr_position_x := msg_x m, pr_position_y := msg_y m\<rparr>)
            (sorted_list_of_set (entered d))
            (send_to_players (Send tr) kPlayerMove (PlayerMove (pr_player_id (on_record q)) (Some m))
               (sorted_list_of_set (stayed d)) g1)))"
proof (cases "\<exists>q m. PlayerForConnection c g = Some q \<and>
    ParseProtobufPayload pb f kMoveRequest kMoveRequest = Some (MoveRequest (Some m))")
  case False
  then have "HandleMove tr pb c f g = Inr g"
    by (auto simp: HandleMove_def split: option.splits Message.splits)
  then show ?thesis by (rule ignored)
next
  case True
  then obtain q m where q: "PlayerForConnection c g = Some q"
    and m: "ParseProtobufPayload pb f kMoveRequest kMoveRequest = Some (MoveRequest (Some m))" by blast
  let ?p = "pr_player_id (on_record q)" and ?pos = "\<lparr>pos_x = msg_x m, pos_y = msg_y m\<rparr>"
  have aoi: "aoi_inv (world g)" and placed: "tracked (world g) ?p \<noteq> None"
    using inv game_inv_online[OF inv q] by (auto simp: game_inv_def)
  show ?thesis
  proof (cases "GridIndexFor (world g) ?pos")
    case (Inl e)
    then show ?thesis
      using fault[of ?pos e] aoi.move_fault[OF Inl, of ?p]
      by (simp add: requested_position_def HandleMove_def q m Let_def)
  next
    case (Inr i)
    show ?thesis
    proof (cases i)
      case None
      with Inr aoi.move_none[OF Inr, of ?p] ignored show ?thesis
        by (simp add: HandleMove_def q m Let_def)
    next
      case (Some j)
      with Inr obtain d w' where "MovePlayer ?p ?pos (world g) = Inr (Some d, w')" "aoi_inv w'"
          "tracked w' = (tracked (world g))(?p \<mapsto> ?pos)" "GridIndexFor w' = GridIndexFor (world g)"
        using aoi.move_inside[OF aoi placed, of ?pos j] by auto
      then show ?thesis
        using moved[OF q m refl] by (simp add: HandleMove_def q m Let_def)
    qed
  qed
qed

lemma HandleMove_keeps:
  assumes inv: "game_inv g"
  shows "keeps (requested_position pb f) g (HandleMove tr pb c f g)"
  using inv
proof (cases rule: HandleMove_cases[where tr = tr and pb = pb and c = c and f = f])
  case ignored
  then show ?thesis using inv by simp
next
  case (fault pos e)
  then show ?thesis by (auto simp: keeps_def)
next
  case (moved q m pos d w' g1)
  have "record_position ((on_record q)\<lparr>pr_position_x := msg_x m, pr_position_y := msg_y m\<rparr>) = pos"
    using moved(3) by (simp add: record_position_def)
  then have "game_inv g1"
    using inv game_inv_online[OF inv moved(1)] moved(5,6,8)
      tables_move[of "tracked (world g)" "um_find (online_players g)" "um_find (connection_players g)"
        "um_find (pending_connections g)" "pr_player_id (on_record q)" q
        "(on_record q)\<lparr>pr_position_x := msg_x m, pr_position_y := msg_y m\<rparr>"]
    by (simp add: game_inv_def um.invar_put)
  then have "keeps (requested_position pb f) g (Inr g1)" using moved(7,8) by simp
  moreover have "same_game g1 (notify_left (Send tr) c p1 l1 (notify_entered (Send tr) c r1 l2
      (send_to_players (Send tr) kPlayerMove msg l3 g1)))" for p1 l1 r1 l2 msg l3
    by (meson same_game_trans same_game_notify_left same_game_notify_entered same_game_send_to_players)
  ultimately show ?thesis unfolding moved(9) by (rule keeps_then_same)
qed

text \<open>
  \<open>OnDisconnected\<close> never faults. Either the connection was nobody's, and at most its pending login is
  forgotten; or it was a player's, who is taken out of the tables and the world before the
  messages are sent.
\<close>

lemma pending_disjoint:
  "game_inv g \<Longrightarrow> um_find (connection_players g) c = Some p \<Longrightarrow> um_find (pending_connections g) c = None"
  by (cases "um_find (pending_connections g) c") (auto simp: game_inv_def tables_agree_def)

lemma OnDisconnected_cases:
  assumes inv: "game_inv g"
  obtains (nobody) h where "um_find (connection_players g) c = None" "OnDisconnected send c g = Inr h"
      "h = g\<lparr>pending_accounts := pending_accounts h, pending_connections := um_erase c (pending_connections g)\<rparr> \<or> h = g"
      "um_find (pending_connections h) c = None"
  | (player) p q w' g1 ok pl where "um_find (connection_players g) c = Some p"
      "um_find (online_players g) p = Some q" "on_connection_id q = c" "aoi_inv w'"
      "RemovePlayer p (world g) = Inr (True, w')" "tracked w' = (tracked (world g))(p := None)" "GridIndexFor w' = GridIndexFor (world g)"
      "g1 = g\<lparr>world := w', online_players := um_erase p (online_players g),
         connection_players := um_erase c (connection_players g)\<rparr>"
      "SavePlayer (on_record q) (Some IgnoreCallback) (data_service g) = (ok, pl)"
      "OnDisconnected send c g = Inr ((send_to_players send kPlayerLeave (PlayerLeave p)
         (sorted_list_of_set (sees (world g) p)) g1)\<lparr>data_service := pl\<rparr>)"
proof (cases "um_find (connection_players g) c")
  case None
  then show ?thesis
  proof (cases "um_find (pending_connections g) c")
    case None
    with \<open>um_find (connection_players g) c = None\<close> show ?thesis
      by (intro nobody[of g]) (auto simp: OnDisconnected_def Let_def)
  next
    case (Some a)
    let ?h = "g\<lparr>pending_accounts := pending_accounts g - {a},
      pending_connections := um_erase c (pending_connections g)\<rparr>"
    from Some None show ?thesis
      by (intro nobody[of ?h]) (auto simp: OnDisconnected_def Let_def)
  qed
next
  case (Some p)
  have pc: "um_find (pending_connections g) c = None"
    using pending_disjoint[OF inv Some] .
  obtain q where q: "um_find (online_players g) p = Some q" "on_connection_id q = c"
    using inv Some by (auto simp: game_inv_def tables_agree_def)
  have aoi: "aoi_inv (world g)" and placed: "tracked (world g) p \<noteq> None"
    using inv q by (auto simp: game_inv_def tables_agree_def)
  obtain w' where w': "RemovePlayer p (world g) = Inr (True, w')" "aoi_inv w'"
      "tracked w' = (tracked (world g))(p := None)" "GridIndexFor w' = GridIndexFor (world g)"
    using aoi.remove_law[OF aoi, of p] placed by auto
  obtain ok pl where s: "SavePlayer (on_record q) (Some IgnoreCallback) (data_service g) = (ok, pl)"
    by (cases "SavePlayer (on_record q) (Some IgnoreCallback) (data_service g)")
  let ?g1 = "g\<lparr>world := w', online_players := um_erase p (online_players g),
     connection_players := um_erase c (connection_players g)\<rparr>"
  have ds: "data_service (send_to_players send ty m ids ?g1) = data_service g" for ty m ids
    using same_game_send_to_players[of ?g1 send ty m ids] by (auto simp: same_game_def)
  show ?thesis
    using player[OF Some q w'(2,1,3,4) refl s] Some q(1) pc w'(1) placed aoi.visible_law[OF aoi, of p] s ds
    by (simp add: OnDisconnected_def Let_def optional_value_def)
qed

lemma OnDisconnected_keeps:
  assumes inv: "game_inv g"
  shows "\<exists>h. OnDisconnected send c g = Inr h \<and> game_inv h \<and> GridIndexFor (world h) = GridIndexFor (world g) \<and>
    um_find (connection_players h) = (um_find (connection_players g))(c := None) \<and>
    um_find (pending_connections h) = (um_find (pending_connections g))(c := None) \<and>
    (case um_find (connection_players g) c of
       None \<Rightarrow> um_find (online_players h) = um_find (online_players g) \<and> tracked (world h) = tracked (world g)
     | Some p \<Rightarrow> um_find (online_players h) = (um_find (online_players g))(p := None) \<and>
         tracked (world h) = (tracked (world g))(p := None))"
  using inv
proof (cases rule: OnDisconnected_cases[where send = send and c = c])
  case (nobody h)
  have cp: "(um_find (connection_players g))(c := None) = um_find (connection_players g)"
    using nobody(1) by auto
  from nobody(3) show ?thesis
  proof
    assume h: "h = g\<lparr>pending_accounts := pending_accounts h,
      pending_connections := um_erase c (pending_connections g)\<rparr>"
    have "game_inv h"
      using inv by (subst h) (simp add: game_inv_def tables_drop_pending um.invar_erase)
    moreover have "world h = world g" "connection_players h = connection_players g"
        "online_players h = online_players g"
        "pending_connections h = um_erase c (pending_connections g)" by (subst h; simp)+
    ultimately show ?thesis using nobody cp by simp
  next
    assume "h = g"
    with nobody cp inv show ?thesis by (auto simp: fun_upd_idem)
  qed
next
  case (player p q w' g1 ok pl)
  let ?h = "(send_to_players send kPlayerLeave (PlayerLeave p) (sorted_list_of_set (sees (world g) p)) g1)
    \<lparr>data_service := pl\<rparr>"
  have pc: "(um_find (pending_connections g))(c := None) = um_find (pending_connections g)"
    using pending_disjoint[OF inv player(1)] by (auto simp: fun_eq_iff)
  have "game_inv g1"
    using inv player(1-6,8) tables_leave[of "tracked (world g)" "um_find (online_players g)" "um_find (connection_players g)"
        "um_find (pending_connections g)" p q c]
    by (simp add: game_inv_def um.invar_erase)
  moreover have sg: "same_game g1 (send_to_players send kPlayerLeave (PlayerLeave p)
      (sorted_list_of_set (sees (world g) p)) g1)" by simp
  ultimately have "game_inv ?h" using same_game_inv[OF sg] by simp
  moreover have "world ?h = w'" "online_players ?h = um_erase p (online_players g)"
      "connection_players ?h = um_erase c (connection_players g)"
      "pending_connections ?h = pending_connections g"
    using sg player(8) by (auto simp: same_game_def)
  ultimately show ?thesis using player pc by simp
qed

text \<open>The state in which a player that has entered the world is told of it, and that it is consistent.\<close>

definition entered_state :: "ConnectionId \<Rightarrow> string \<Rightarrow> PlayerRecord \<Rightarrow> string \<Rightarrow> AoiWorld \<Rightarrow> 't GameService \<Rightarrow> 't GameService" where
  "entered_state c a r tok w g =
     g\<lparr>world := w, connection_players := um_put c (pr_player_id r) (connection_players g),
       online_players := um_emplace (pr_player_id r)
         \<lparr>on_record = r, on_connection_id = c, on_session_token = tok\<rparr> (online_players g),
       pending_accounts := pending_accounts g - {a},
       pending_connections := um_erase c (pending_connections g)\<rparr>"

lemma entered_state_inv:
  assumes inv: "game_inv g" and pc: "um_contains (pending_connections g) c"
    and w: "tracked (world g) (pr_player_id r) = None" "aoi_inv w'" "tracked w' = (tracked (world g))(pr_player_id r \<mapsto> record_position r)"
  shows "game_inv (entered_state c a r tok w' g)"
proof -
  have off: "um_find (online_players g) (pr_player_id r) = None" "um_find (connection_players g) c = None"
    using inv pc w(1) by (auto simp: game_inv_def tables_agree_def)
  then show ?thesis
    using inv w(2,3)
      tables_enter[of "tracked (world g)" "um_find (online_players g)" "um_find (connection_players g)"
        "um_find (pending_connections g)" "pr_player_id r" c r tok]
    by (simp add: entered_state_def game_inv_def um.invar_put um.invar_emplace um.invar_erase)
qed

text \<open>Entering the world, for a player that is not online and a connection that is pending.\<close>

lemma enter_world_keeps:
  assumes inv: "game_inv g" and pc: "um_contains (pending_connections g) c"
  shows "keeps {record_position r} g (enter_world tr c a r tok g)"
proof (cases "GridIndexFor (world g) (record_position r)")
  case (Inl e)
  show ?thesis
  proof (cases "tracked (world g) (pr_player_id r)")
    case None
    then show ?thesis using Inl aoi.add_fault[OF None Inl] by (simp add: enter_world_def keeps_def)
  next
    case (Some pos)
    then have "AddPlayer (pr_player_id r) (record_position r) (world g) = Inr (False, world g)"
      by (intro aoi.add_dup) simp
    then show ?thesis using inv by (simp add: enter_world_def FailLogin_inv)
  qed
next
  case (Inr i)
  have aoi: "aoi_inv (world g)" using inv by (simp add: game_inv_def)
  obtain b w' where add: "AddPlayer (pr_player_id r) (record_position r) (world g) = Inr (b, w')"
      "aoi_inv w'" "GridIndexFor w' = GridIndexFor (world g)"
      "b \<longleftrightarrow> tracked (world g) (pr_player_id r) = None \<and> i \<noteq> None"
      "tracked w' = (if b then (tracked (world g))(pr_player_id r \<mapsto> record_position r) else tracked (world g))"
      "b \<or> w' = world g"
    using aoi.add_total[OF aoi Inr, of "pr_player_id r"] by blast
  show ?thesis
  proof (cases b)
    case False
    then have "AddPlayer (pr_player_id r) (record_position r) (world g) = Inr (False, world g)"
      using add(1,6) by simp
    then show ?thesis using inv by (simp add: enter_world_def FailLogin_inv)
  next
    case True
    let ?g1 = "entered_state c a r tok w' g"
    have "game_inv ?g1" using entered_state_inv[OF inv pc _ add(2)] add(4,5) True by simp
    then have "keeps {record_position r} g (Inr ?g1)" using add(3) by (simp add: entered_state_def)
    moreover have "same_game ?g1 (send_to_players (Send tr) ty m ids (send_message (Send tr) c ty' m' ?g1))"
      for ty m ids ty' m' by (meson same_game_trans same_game_send same_game_send_to_players)
    moreover have "VisiblePlayers w' (pr_player_id r) = Inr (Some (sees w' (pr_player_id r)))"
      using aoi.visible_law[OF add(2), of "pr_player_id r"] add(5) True by simp
    ultimately show ?thesis
      using keeps_then_same[of "{record_position r}" g ?g1] add(1) True
      by (simp add: enter_world_def Let_def optional_value_def entered_state_def)
  qed
qed

section \<open>Events\<close>

text \<open>
  What can happen to the service: a frame arrives on a connection, a completion is drained, or the
  server reports a connection as closed.
\<close>

datatype game_event =
    FrameArrived ConnectionId Frame
  | Completed "game_callback data_completion"
  | ConnectionClosed ConnectionId

fun game_exec :: "'t GameTransport \<Rightarrow> protobuf \<Rightarrow> game_event \<Rightarrow> 't GameService \<Rightarrow> 't GameService outcome" where
  "game_exec tr pb (FrameArrived c f) g = HandleFrame tr pb c f g"
| "game_exec tr pb (Completed cb) g = run_completion tr cb g"
| "game_exec tr pb (ConnectionClosed c) g = OnDisconnected (Send tr) c g"

fun game_run :: "'t GameTransport \<Rightarrow> protobuf \<Rightarrow> game_event list \<Rightarrow> 't GameService \<Rightarrow> 't GameService outcome" where
  "game_run tr pb [] g = Inr g"
| "game_run tr pb (ev # evs) g = outcome_bind (game_exec tr pb ev g) (game_run tr pb evs)"

text \<open>The positions that an event brings into the world from outside.\<close>

fun event_positions :: "protobuf \<Rightarrow> game_event \<Rightarrow> Position set" where
  "event_positions pb (FrameArrived c f) = requested_position pb f"
| "event_positions pb (Completed (OperationDone (StoreSessionCallback c a r tok allow) res)) = {record_position r}"
| "event_positions pb _ = {}"

section \<open>The transport contract\<close>

text \<open>
  What the service needs to know of a \<open>GameTransport\<close>: \<open>Disconnect\<close> may call back \<open>OnDisconnected\<close> for
  that connection, as \<open>GameServer\<close> does, or not, and apart from that touches only the transport.
  (\<open>Send\<close> and \<open>IsConnected\<close> can touch nothing else by their types.)
\<close>

locale game_transport =
  fixes tr :: "'t GameTransport"
  assumes disconnect_ok: "Disconnect tr c g = Inr h \<Longrightarrow>
      same_game g h \<or> (\<exists>g1 h1. same_game g g1 \<and> OnDisconnected (Send tr) c g1 = Inr h1 \<and> same_game h1 h)"
    and disconnect_fault: "Disconnect tr c g = Inl e \<Longrightarrow>
      \<exists>g1. same_game g g1 \<and> OnDisconnected (Send tr) c g1 = Inl e"
begin

lemma Disconnect_keeps:
  assumes inv: "game_inv g"
  shows "\<exists>h. Disconnect tr c g = Inr h \<and> game_inv h \<and> GridIndexFor (world h) = GridIndexFor (world g) \<and>
    (\<forall>c'. c' \<noteq> c \<longrightarrow> um_find (pending_connections h) c' = um_find (pending_connections g) c')"
proof (cases "Disconnect tr c g")
  case (Inl e)
  then obtain g1 where "same_game g g1" "OnDisconnected (Send tr) c g1 = Inl e"
    using disconnect_fault by blast
  then show ?thesis using OnDisconnected_keeps[of g1 "Send tr" c] inv same_game_inv[of g g1] by auto
next
  case (Inr h)
  from disconnect_ok[OF this] show ?thesis
  proof (elim disjE exE conjE)
    assume "same_game g h"
    then show ?thesis using Inr inv by (auto simp: same_game_def)
  next
    fix g1 h1
    assume s: "same_game g g1" "OnDisconnected (Send tr) c g1 = Inr h1" "same_game h1 h"
    then have "game_inv g1" using inv same_game_inv by blast
    from OnDisconnected_keeps[OF this, of "Send tr" c] s Inr show ?thesis
      by (auto simp: same_game_def)
  qed
qed

lemma FinishLogin_keeps:
  assumes inv: "game_inv g"
  shows "keeps {record_position r} g (FinishLogin tr c r tok allow g)"
proof (cases "login_is_dead tr c g")
  case True
  then show ?thesis using inv by (simp add: FinishLogin_def game_inv_abandon)
next
  case False
  then have pc: "um_contains (pending_connections g) c" by (simp add: login_is_dead_def)
  show ?thesis
  proof (cases "um_find (online_players g) (pr_player_id r)")
    case None
    then show ?thesis using False enter_world_keeps[OF inv pc, of r tr] by (simp add: FinishLogin_def)
  next
    case (Some q)
    have cq: "um_find (connection_players g) (on_connection_id q) = Some (pr_player_id r)"
      using inv Some by (auto simp: game_inv_def tables_agree_def)
    then have ne: "c \<noteq> on_connection_id q" using pending_disjoint[OF inv cq] pc by auto
    obtain h where h: "Disconnect tr (on_connection_id q) g = Inr h" "game_inv h"
        "GridIndexFor (world h) = GridIndexFor (world g)" "um_contains (pending_connections h) c"
      using Disconnect_keeps[OF inv, of "on_connection_id q"] ne pc by metis
    obtain i where "GridIndexFor (world g) (record_position (on_record q)) = Inr (Some i)"
      using inv Some aoi.placed[of "world g" "pr_player_id r"] by (auto simp: game_inv_def tables_agree_def)
    then have "keeps {record_position r} h (enter_world tr c (pr_account r) (on_record q) tok h)"
      using enter_world_keeps[OF h(2,4), of "on_record q" tr "pr_account r" tok] h(3)
      by (auto simp: keeps_def split: sum.splits)
    then have "keeps {record_position r} g (enter_world tr c (pr_account r) (on_record q) tok h)"
      by (rule keeps_from) (rule h(3))
    then show ?thesis
      using False Some h(1) inv by (cases allow) (simp_all add: FinishLogin_def Let_def FailLogin_inv)
  qed
qed

lemma HandleFrame_keeps:
  assumes inv: "game_inv g"
  shows "keeps (requested_position pb f) g (HandleFrame tr pb c f g)"
proof -
  obtain h where "Disconnect tr c g = Inr h" "game_inv h" "GridIndexFor (world h) = GridIndexFor (world g)"
    using Disconnect_keeps[OF inv] by blast
  then show ?thesis
    using HandleLogin_keeps[OF inv, of "requested_position pb f" tr pb c f]
      same_game_keeps[OF inv HandleChat_same, of "requested_position pb f" tr pb c f]
      HandleMove_keeps[OF inv, of pb f tr c]
      same_game_keeps[OF inv HandleHeartbeat_same, of "requested_position pb f" tr pb c f]
    by (auto simp: HandleFrame_def)
qed

lemma game_exec_keeps:
  assumes inv: "game_inv g"
  shows "keeps (event_positions pb ev) g (game_exec tr pb ev g)"
proof (cases ev)
  case (FrameArrived c f)
  then show ?thesis using HandleFrame_keeps[OF inv] by simp
next
  case (Completed comp)
  have fin: "keeps {record_position r} g (on_session_stored tr c a r tok allow res g)" for c a r tok allow res
    using FinishLogin_keeps[OF inv] inv by (simp add: on_session_stored_def FailLogin_inv)
  show ?thesis
  proof (cases "(tr, comp, g)" rule: run_completion.cases)
    case (1 tr' c a tok r g')
    then show ?thesis using Completed on_player_loaded_keeps[OF inv] by (simp add: game_exec.simps)
  next
    case (2 tr' c a r res g')
    then show ?thesis using Completed on_player_saved_keeps[OF inv] by simp
  next
    case (3 tr' c a r tok new res g')
    then show ?thesis using Completed on_session_loaded_keeps[OF inv] by simp
  next
    case (4 tr' c a r tok allow res g')
    then show ?thesis using Completed fin by simp
  qed (use Completed inv in auto)
next
  case (ConnectionClosed c)
  obtain h where "OnDisconnected (Send tr) c g = Inr h" "game_inv h"
      "GridIndexFor (world h) = GridIndexFor (world g)"
    using OnDisconnected_keeps[OF inv] by blast
  then show ?thesis using ConnectionClosed by simp
qed

lemma game_run_keeps:
  "game_inv g \<Longrightarrow> keeps (\<Union>ev \<in> set evs. event_positions pb ev) g (game_run tr pb evs g)"
proof (induction evs arbitrary: g)
  case (Cons ev evs)
  have "keeps (\<Union>ev \<in> set (ev # evs). event_positions pb ev) g (game_exec tr pb ev g)"
    using keeps_mono[OF game_exec_keeps[OF Cons.prems, of pb ev]] by auto
  then show ?case
    by (simp only: game_run.simps) (rule keeps_bind, assumption, rule keeps_mono[OF Cons.IH], auto)
qed simp

end

end
