(* ===== verification/Unique_Fd.thy ===== *)
theory Unique_Fd
  imports Mmo_Prelude
begin

text \<open>
  \<open>include/mmo/net/unique_fd.h\<close>: the owner of a file descriptor. An object is the descriptor it holds
  (\<open>-1\<close> for none). \<open>close\<close> is an effect on the process's descriptor table, of which the model keeps the
  set of open descriptors and the list of all \<open>close\<close> calls.
\<close>

section \<open>The class\<close>

type_synonym UniqueFd = int

record descriptor_table =
  open_fds :: "int set"
  close_calls :: "int list"

definition no_fd :: UniqueFd where
  "no_fd = - 1"

definition UniqueFd_Get :: "UniqueFd \<Rightarrow> int" where
  "UniqueFd_Get u = u"

definition UniqueFd_valid :: "UniqueFd \<Rightarrow> bool" where
  "UniqueFd_valid u \<longleftrightarrow> u \<ge> 0"

definition close_fd :: "int \<Rightarrow> descriptor_table \<Rightarrow> descriptor_table" where
  "close_fd d os = os\<lparr>open_fds := open_fds os - {d}, close_calls := close_calls os @ [d]\<rparr>"

text \<open>Returns the descriptor and what the object holds afterwards.\<close>

definition UniqueFd_Release :: "UniqueFd \<Rightarrow> int \<times> UniqueFd" where
  "UniqueFd_Release u = (u, no_fd)"

definition UniqueFd_Reset :: "int \<Rightarrow> UniqueFd \<Rightarrow> descriptor_table \<Rightarrow> UniqueFd \<times> descriptor_table" where
  "UniqueFd_Reset d u os = (d, if UniqueFd_valid u then close_fd u os else os)"

text \<open>The destructor.\<close>

definition UniqueFd_destroy :: "UniqueFd \<Rightarrow> descriptor_table \<Rightarrow> descriptor_table" where
  "UniqueFd_destroy u os = snd (UniqueFd_Reset no_fd u os)"

text \<open>Moving out of an object: the new object and what the old one holds.\<close>

definition UniqueFd_move :: "UniqueFd \<Rightarrow> UniqueFd \<times> UniqueFd" where
  "UniqueFd_move other = UniqueFd_Release other"

text \<open>
  Move assignment between two different objects: the assigned one, the other one and the table.
  Assigning an object to itself does nothing, see \<open>ufd_exec\<close>.
\<close>

definition UniqueFd_assign :: "UniqueFd \<Rightarrow> UniqueFd \<Rightarrow> descriptor_table \<Rightarrow> UniqueFd \<times> UniqueFd \<times> descriptor_table" where
  "UniqueFd_assign this other os =
     (let (d, other) = UniqueFd_Release other; (this, os) = UniqueFd_Reset d this os in (this, other, os))"

lemmas unique_fd_defs = no_fd_def UniqueFd_Get_def UniqueFd_valid_def close_fd_def UniqueFd_Release_def UniqueFd_Reset_def
  UniqueFd_destroy_def UniqueFd_move_def UniqueFd_assign_def

section \<open>Programs over objects\<close>

text \<open>
  A program over a set of objects, named by numbers: constructing one from a descriptor that the
  kernel has just opened, resetting one to such a descriptor, moving between objects, destroying one.
\<close>

datatype ufd_op =
    UConstruct nat int
  | UReset nat int
  | UMoveConstruct nat nat \<comment> \<open>target, source\<close>
  | UMoveAssign nat nat
  | UDestroy nat

record ufd_state =
  objects :: "(nat, UniqueFd) umap"
  table :: descriptor_table

text \<open>\<open>None\<close>: the program is not one C++ accepts, or the descriptor is not one the kernel could return.\<close>

fun ufd_exec :: "ufd_op \<Rightarrow> ufd_state \<Rightarrow> ufd_state option" where
  "ufd_exec (UConstruct n d) s =
     (if um_contains (objects s) n \<or> d < 0 \<or> d \<in> open_fds (table s) then None
      else Some \<lparr>objects = um_put n d (objects s), table = (table s)\<lparr>open_fds := insert d (open_fds (table s))\<rparr>\<rparr>)"
| "ufd_exec (UReset n d) s =
     (case um_find (objects s) n of
        None \<Rightarrow> None
      | Some u \<Rightarrow>
          if d < 0 \<or> d \<in> open_fds (table s) then None
          else let (u, os) = UniqueFd_Reset d u ((table s)\<lparr>open_fds := insert d (open_fds (table s))\<rparr>)
               in Some \<lparr>objects = um_put n u (objects s), table = os\<rparr>)"
| "ufd_exec (UMoveConstruct n m) s =
     (case um_find (objects s) m of
        None \<Rightarrow> None
      | Some u \<Rightarrow>
          if um_contains (objects s) n then None
          else let (new, old) = UniqueFd_move u
               in Some (s\<lparr>objects := um_put m old (um_put n new (objects s))\<rparr>))"
| "ufd_exec (UMoveAssign n m) s =
     (case (um_find (objects s) n, um_find (objects s) m) of
        (Some this, Some other) \<Rightarrow>
          if n = m then Some s
          else let (this, other, os) = UniqueFd_assign this other (table s)
               in Some \<lparr>objects = um_put m other (um_put n this (objects s)), table = os\<rparr>
      | _ \<Rightarrow> None)"
| "ufd_exec (UDestroy n) s =
     (case um_find (objects s) n of
        None \<Rightarrow> None
      | Some u \<Rightarrow> Some \<lparr>objects = um_erase n (objects s), table = UniqueFd_destroy u (table s)\<rparr>)"

fun ufd_run :: "ufd_op list \<Rightarrow> ufd_state \<Rightarrow> ufd_state option" where
  "ufd_run [] s = Some s"
| "ufd_run (op # ops) s = Option.bind (ufd_exec op s) (ufd_run ops)"

text \<open>Every open descriptor has exactly one owner, and every owner's descriptor is open.\<close>

definition owns :: "(nat \<rightharpoonup> UniqueFd) \<Rightarrow> int set \<Rightarrow> bool" where
  "owns f opn \<longleftrightarrow>
     (\<forall>d. d \<in> opn \<longleftrightarrow> 0 \<le> d \<and> (\<exists>n. f n = Some d)) \<and> (\<forall>n u. f n = Some u \<longrightarrow> u = no_fd \<or> 0 \<le> u) \<and>
     (\<forall>n m u. f n = Some u \<longrightarrow> f m = Some u \<longrightarrow> 0 \<le> u \<longrightarrow> n = m)"

definition owned :: "ufd_state \<Rightarrow> bool" where
  "owned s \<longleftrightarrow> owns (um_find (objects s)) (open_fds (table s))"

definition ufd_init :: ufd_state where
  "ufd_init = \<lparr>objects = um_empty, table = \<lparr>open_fds = {}, close_calls = []\<rparr>\<rparr>"

lemma owned_init: "owned ufd_init"
  by (simp add: owned_def owns_def ufd_init_def)

fun op_opens :: "ufd_op \<Rightarrow> int list" where
  "op_opens (UConstruct _ d) = [d]"
| "op_opens (UReset _ d) = [d]"
| "op_opens _ = []"

text \<open>How often \<open>d\<close> has been opened so far, when \<open>n\<close> counts the openings.\<close>

definition balanced :: "(int \<Rightarrow> nat) \<Rightarrow> descriptor_table \<Rightarrow> bool" where
  "balanced n os \<longleftrightarrow> (\<forall>d. n d = count_list (close_calls os) d + (if d \<in> open_fds os then 1 else 0))"

lemma balanced_open:
  "balanced n os \<Longrightarrow> d \<notin> open_fds os \<Longrightarrow>
     balanced (\<lambda>x. n x + count_list [d] x) (os\<lparr>open_fds := insert d (open_fds os)\<rparr>)"
  by (auto simp: balanced_def)

lemma balanced_close: "balanced n os \<Longrightarrow> u \<in> open_fds os \<Longrightarrow> balanced n (close_fd u os)"
  by (auto simp: balanced_def close_fd_def)

lemma ufd_exec_balanced:
  assumes "owned s" "balanced n (table s)" "ufd_exec op s = Some s'"
  shows "balanced (\<lambda>d. n d + count_list (op_opens op) d) (table s')"
proof (cases op)
  case (UConstruct k d)
  then show ?thesis using assms balanced_open[of n "table s" d] by (auto split: if_splits)
next
  case (UReset k d)
  then obtain u where u: "um_find (objects s) k = Some u" "\<not> d < 0" "d \<notin> open_fds (table s)"
      "table s' = snd (UniqueFd_Reset d u ((table s)\<lparr>open_fds := insert d (open_fds (table s))\<rparr>))"
    using assms(3) by (auto simp: unique_fd_defs split: option.splits if_splits)
  have "u \<in> open_fds (table s)" if "u \<ge> 0" using assms(1) u(1) that by (auto simp: owned_def owns_def)
  then show ?thesis
    using UReset u(4) balanced_open[OF assms(2) u(3)]
      balanced_close[of _ "(table s)\<lparr>open_fds := insert d (open_fds (table s))\<rparr>" u]
    by (auto simp: UniqueFd_Reset_def UniqueFd_valid_def)
next
  case (UMoveAssign k m)
  then obtain u v where u: "um_find (objects s) k = Some u"
      "table s' = table s \<or> table s' = snd (UniqueFd_Reset v u (table s))"
    using assms(3) by (auto simp: UniqueFd_assign_def UniqueFd_Release_def UniqueFd_Reset_def split: option.splits if_splits)
  have "u \<in> open_fds (table s)" if "u \<ge> 0" using assms(1) u(1) that by (auto simp: owned_def owns_def)
  then show ?thesis using UMoveAssign u(2) assms(2) balanced_close[OF assms(2), of u]
    by (auto simp: UniqueFd_Reset_def UniqueFd_valid_def)
next
  case (UDestroy k)
  then obtain u where u: "um_find (objects s) k = Some u" "table s' = UniqueFd_destroy u (table s)"
    using assms(3) by (auto split: option.splits)
  have "u \<in> open_fds (table s)" if "u \<ge> 0" using assms(1) u(1) that by (auto simp: owned_def owns_def)
  then show ?thesis using UDestroy u(2) assms(2) balanced_close[OF assms(2), of u]
    by (auto simp: UniqueFd_destroy_def UniqueFd_Reset_def UniqueFd_valid_def)
qed (use assms in \<open>auto simp: UniqueFd_move_def UniqueFd_Release_def split: option.splits if_splits\<close>)

lemma ownsI:
  assumes "\<And>d. d \<in> opn \<longleftrightarrow> 0 \<le> d \<and> (\<exists>n. f n = Some d)" and "\<And>n u. f n = Some u \<Longrightarrow> u = no_fd \<or> 0 \<le> u"
    and "\<And>n m u. f n = Some u \<Longrightarrow> f m = Some u \<Longrightarrow> 0 \<le> u \<Longrightarrow> n = m"
  shows "owns f opn"
  using assms by (simp add: owns_def)

lemma ownsD:
  assumes "owns f opn"
  shows "d \<in> opn \<longleftrightarrow> 0 \<le> d \<and> (\<exists>n. f n = Some d)" "f n = Some u \<Longrightarrow> u = no_fd \<or> 0 \<le> u"
    "f n = Some u \<Longrightarrow> f m = Some u \<Longrightarrow> 0 \<le> u \<Longrightarrow> n = m"
  using assms by (simp_all add: owns_def)

lemma no_fd_negative [simp]: "\<not> 0 \<le> no_fd"
  by (simp add: no_fd_def)

text \<open>An object that holds nothing can be added or removed.\<close>

lemma owns_blank:
  assumes "owns f opn" "f n = None \<or> f n = Some no_fd" "e = None \<or> e = Some no_fd"
  shows "owns (f(n := e)) opn"
proof -
  have eq: "(f(n := e)) k = Some x \<longleftrightarrow> f k = Some x" if "0 \<le> x" for k x
    using assms(2,3) that by auto
  show ?thesis
    using ownsD[OF assms(1)] eq assms(3) by (intro ownsI) (metis, auto split: if_splits)
qed

lemma owns_add:
  assumes "owns f opn" "f n = None \<or> f n = Some no_fd" "0 \<le> d" "d \<notin> opn"
  shows "owns (f(n \<mapsto> d)) (insert d opn)"
proof (rule ownsI)
  fix x
  have "(\<exists>k. (f(n \<mapsto> d)) k = Some x) \<longleftrightarrow> x = d \<or> (\<exists>k. f k = Some x)" if "0 \<le> x"
    using assms(2) that by (auto split: if_splits) (metis no_fd_negative option.distinct(1) option.inject)+
  then show "x \<in> insert d opn \<longleftrightarrow> 0 \<le> x \<and> (\<exists>k. (f(n \<mapsto> d)) k = Some x)"
    using ownsD(1)[OF assms(1), of x] assms(3) by blast
next
  fix k m u
  assume "(f(n \<mapsto> d)) k = Some u" "(f(n \<mapsto> d)) m = Some u" "0 \<le> u"
  then show "k = m" using ownsD[OF assms(1)] assms(4) by (auto split: if_splits)
qed (use ownsD[OF assms(1)] assms(3) in \<open>auto split: if_splits\<close>)

lemma owns_drop:
  assumes "owns f opn" "f n = Some u" "e = None \<or> e = Some no_fd"
  shows "owns (f(n := e)) (opn - {u})"
proof (cases "0 \<le> u")
  case True
  have "(\<exists>k. (f(n := e)) k = Some x) \<longleftrightarrow> x \<noteq> u \<and> (\<exists>k. f k = Some x)" if "0 \<le> x" for x
  proof
    assume "\<exists>k. (f(n := e)) k = Some x"
    then obtain k where k: "(f(n := e)) k = Some x" by blast
    then have "k \<noteq> n" using assms(3) that by auto
    then show "x \<noteq> u \<and> (\<exists>k. f k = Some x)" using k ownsD(3)[OF assms(1,2), of k] True by auto
  next
    assume "x \<noteq> u \<and> (\<exists>k. f k = Some x)"
    then obtain k where "f k = Some x" "x \<noteq> u" by blast
    with assms(2) have "(f(n := e)) k = Some x" by auto
    then show "\<exists>k. (f(n := e)) k = Some x" ..
  qed
  note mem = this
  show ?thesis
  proof (rule ownsI)
    show "x \<in> opn - {u} \<longleftrightarrow> 0 \<le> x \<and> (\<exists>k. (f(n := e)) k = Some x)" for x
      using mem[of x] ownsD(1)[OF assms(1), of x] by blast
    show "x = no_fd \<or> 0 \<le> x" if "(f(n := e)) k = Some x" for k x
      using that ownsD(2)[OF assms(1), of k x] assms(3) by (auto split: if_splits)
    show "k = m" if "(f(n := e)) k = Some x" "(f(n := e)) m = Some x" "0 \<le> x" for k m x
      using that ownsD(3)[OF assms(1), of k x m] assms(3) by (auto split: if_splits)
  qed
next
  case False
  then have "u = no_fd" "opn - {u} = opn" using ownsD[OF assms(1)] assms(2) by auto
  then show ?thesis using owns_blank[OF assms(1) _ assms(3), of n] assms(2) by simp
qed

lemma owns_move:
  assumes "owns f opn" "f m = Some u" "f n = None \<or> f n = Some no_fd" "n \<noteq> m"
  shows "owns (f(n \<mapsto> u, m \<mapsto> no_fd)) opn"
proof (cases "0 \<le> u")
  case True
  then have u: "u \<in> opn" using ownsD(1)[OF assms(1)] assms(2) by auto
  have "owns (f(m \<mapsto> no_fd)) (opn - {u})" using owns_drop[OF assms(1,2)] by simp
  from owns_add[OF this, of n u] assms(3,4) True u show ?thesis
    by (simp add: fun_upd_twist insert_absorb)
next
  case False
  then have u: "u = no_fd" using ownsD(2)[OF assms(1,2)] by simp
  have "owns (f(n \<mapsto> no_fd)) opn" using owns_blank[OF assms(1,3)] by simp
  from owns_blank[OF this, of m] assms(2) u show ?thesis by simp
qed

text \<open>What closing the descriptor of one object leaves.\<close>

lemma owned_close:
  assumes "owned s" "um_find (objects s) n = Some u"
  shows "open_fds (table s) - (if 0 \<le> u then {u} else {}) = open_fds (table s) - {u}"
    "owns ((um_find (objects s))(n \<mapsto> no_fd)) (open_fds (table s) - {u})"
    "owns ((um_find (objects s))(n := None)) (open_fds (table s) - {u})"
  using assms ownsD(1)[of "um_find (objects s)" "open_fds (table s)" u]
    owns_drop[of "um_find (objects s)" "open_fds (table s)" n u "Some no_fd"]
    owns_drop[of "um_find (objects s)" "open_fds (table s)" n u None]
  by (auto simp: owned_def)

lemma owned_reset:
  assumes own: "owned s" and ex: "ufd_exec (UReset n d) s = Some s'"
  shows "owned s'"
proof -
  obtain u where u: "um_find (objects s) n = Some u" "0 \<le> d" "d \<notin> open_fds (table s)"
      "um_find (objects s') = (um_find (objects s))(n \<mapsto> d)"
      "open_fds (table s') = (if 0 \<le> u then insert d (open_fds (table s)) - {u} else insert d (open_fds (table s)))"
    using ex by (auto simp: unique_fd_defs split: option.splits if_splits)
  from owns_add[OF owned_close(2)[OF own u(1)], of n d] u(2,3)
  have "owns ((um_find (objects s))(n \<mapsto> d)) (insert d (open_fds (table s) - {u}))" by simp
  moreover have "open_fds (table s') = insert d (open_fds (table s) - {u})"
    using u(2,3,5) owned_close(1)[OF own u(1)] own u(1) ownsD(1)[of "um_find (objects s)" "open_fds (table s)" u]
    by (auto simp: owned_def)
  ultimately show ?thesis using u(4) by (simp add: owned_def)
qed

lemma owned_assign:
  assumes own: "owned s" and ex: "ufd_exec (UMoveAssign n m) s = Some s'" and "n \<noteq> m"
  shows "owned s'"
proof -
  obtain u v where u: "um_find (objects s) n = Some u" "um_find (objects s) m = Some v"
      "um_find (objects s') = (um_find (objects s))(n \<mapsto> v, m \<mapsto> no_fd)"
      "open_fds (table s') = open_fds (table s) - (if 0 \<le> u then {u} else {})"
    using ex assms(3) by (auto simp: unique_fd_defs split: option.splits if_splits)
  from owns_move[OF owned_close(2)[OF own u(1)], of m v n] u(2) assms(3)
  have "owns ((um_find (objects s))(n \<mapsto> v, m \<mapsto> no_fd)) (open_fds (table s) - {u})" by simp
  then show ?thesis using u(3,4) owned_close(1)[OF own u(1)] by (simp add: owned_def)
qed

lemma ufd_exec_owned:
  assumes own: "owned s" and ex: "ufd_exec op s = Some s'"
  shows "owned s'"
proof (cases op)
  case (UConstruct n d)
  then show ?thesis using assms owns_add[of "um_find (objects s)" "open_fds (table s)" n d]
    by (auto simp: owned_def split: if_splits)
next
  case (UReset n d)
  then show ?thesis using owned_reset assms by blast
next
  case (UMoveConstruct n m)
  then obtain u where u: "um_find (objects s) m = Some u" "um_find (objects s) n = None"
      "s' = s\<lparr>objects := um_put m no_fd (um_put n u (objects s))\<rparr>"
    using ex by (auto simp: UniqueFd_move_def UniqueFd_Release_def split: option.splits if_splits)
  then have "n \<noteq> m" by auto
  with u own owns_move[of "um_find (objects s)" "open_fds (table s)" m u n] show ?thesis
    by (simp add: owned_def)
next
  case (UMoveAssign n m)
  then show ?thesis using owned_assign assms by (cases "n = m") (auto split: option.splits)
next
  case (UDestroy n)
  then obtain u where u: "um_find (objects s) n = Some u" "um_find (objects s') = (um_find (objects s))(n := None)"
      "open_fds (table s') = open_fds (table s) - (if 0 \<le> u then {u} else {})"
    using ex by (auto simp: unique_fd_defs split: option.splits if_splits)
  then show ?thesis using owned_close(1,3)[OF own u(1)] unfolding owned_def by simp
qed

section \<open>Property\<close>



end
