(* ===== verification/Posix_Net.thy ===== *)
theory Posix_Net
  imports Mmo_Prelude
begin

text \<open>
  The library functions on addresses and numbers that the servers and clients call: byte order of a
  port, \<open>inet_pton\<close> for IPv4, and \<open>std::stoul\<close>, \<open>std::stoull\<close> and \<open>std::stoi\<close>.
\<close>

unbundle bit_operations_syntax

section \<open>Addresses\<close>

text \<open>\<open>htons\<close> and \<open>ntohs\<close> on a little-endian machine exchange the two bytes.\<close>

definition htons :: "u16 \<Rightarrow> u16" where
  "htons w = push_bit 8 w OR drop_bit 8 w"

definition ntohs :: "u16 \<Rightarrow> u16" where
  "ntohs w = htons w"

lemma ntohs_htons [simp]: "ntohs (htons w) = w"
  unfolding ntohs_def htons_def
  by (rule bit_word_eqI) (auto simp: bit_simps not_less dest: bit_imp_le_length)

text \<open>\<open>std::string::c_str()\<close> read as a C string ends at the first null character.\<close>

definition c_str :: "string \<Rightarrow> string" where
  "c_str s = takeWhile (\<lambda>c. c \<noteq> CHR 0x00) s"

definition is_digit :: "char \<Rightarrow> bool" where
  "is_digit c \<longleftrightarrow> 48 \<le> (of_char c :: nat) \<and> (of_char c :: nat) \<le> 57"

definition digit_value :: "char \<Rightarrow> nat" where
  "digit_value c = of_char c - 48"

text \<open>
  \<open>inet_pton (AF_INET, ...)\<close>: four decimal numbers of at most 255 without leading zeros. \<open>saw_digit\<close>,
  \<open>octets\<close> and the current number as in the C library, the finished numbers in \<open>acc\<close>.
\<close>

fun inet_pton4 :: "string \<Rightarrow> bool \<Rightarrow> nat \<Rightarrow> nat \<Rightarrow> nat list \<Rightarrow> nat list option" where
  "inet_pton4 [] saw_digit octets cur acc = (if octets < 4 then None else Some (acc @ [cur]))"
| "inet_pton4 (ch # src) saw_digit octets cur acc =
     (if is_digit ch then
        let new = cur * 10 + digit_value ch in
        if saw_digit \<and> cur = 0 then None
        else if new > 255 then None
        else if \<not> saw_digit then (if Suc octets > 4 then None else inet_pton4 src True (Suc octets) new acc)
        else inet_pton4 src True octets new acc
      else if ch = CHR ''.'' \<and> saw_digit then
        (if octets = 4 then None else inet_pton4 src False octets 0 (acc @ [cur]))
      else None)"

definition inet_pton :: "string \<Rightarrow> nat list option" where
  "inet_pton s = inet_pton4 (c_str s) False 0 0 []"

section \<open>Numbers\<close>

definition is_space :: "char \<Rightarrow> bool" where
  "is_space c \<longleftrightarrow> (of_char c :: nat) \<in> {9, 10, 11, 12, 13, 32}"

text \<open>
  The common part: optional white space, an optional sign, and the longest run of digits; \<open>None\<close> when
  there is no digit. What follows the digits is ignored.
\<close>

definition scan_number :: "string \<Rightarrow> (bool \<times> nat) option" where
  "scan_number s =
     (let s = dropWhile is_space (c_str s);
          negative = (s \<noteq> [] \<and> hd s = CHR ''-'');
          s = (if s \<noteq> [] \<and> (hd s = CHR ''-'' \<or> hd s = CHR ''+'') then tl s else s);
          digits = takeWhile is_digit s
      in if digits = [] then None
         else Some (negative, fold (\<lambda>c n. 10 * n + digit_value c) digits 0))"

text \<open>
  \<open>std::stoul\<close> and \<open>std::stoull\<close> on a 64-bit platform: a minus sign negates modulo \<open>2 ^ 64\<close>; a magnitude
  beyond that throws \<open>out_of_range\<close>.
\<close>

definition stoul :: "string \<Rightarrow> u64 outcome" where
  "stoul s =
     (case scan_number s of
        None \<Rightarrow> Inl (Throw (invalid_argument ''stoul''))
      | Some (negative, n) \<Rightarrow>
          if n \<ge> 2 ^ 64 then Inl (Throw (out_of_range ''stoul''))
          else Inr (if negative then - of_nat n else of_nat n))"

definition stoi :: "string \<Rightarrow> int outcome" where
  "stoi s =
     (case scan_number s of
        None \<Rightarrow> Inl (Throw (invalid_argument ''stoi''))
      | Some (negative, n) \<Rightarrow>
          let v = (if negative then - int n else int n)
          in if v < - (2 ^ 31) \<or> v \<ge> 2 ^ 31 then Inl (Throw (out_of_range ''stoi'')) else Inr v)"

lemma digits_number_string:
  "set (number_string 10 n) \<subseteq> {c. is_digit c}"
proof
  fix c assume "c \<in> set (number_string 10 n)"
  then obtain d where "d < 10" "c = digit_char d" using number_string_digits[of 10 c n] by auto
  then show "c \<in> {c. is_digit c}" by (simp add: is_digit_def digit_char_def)
qed

lemma digit_value_char: "d < 10 \<Longrightarrow> digit_value (digit_char d) = d"
  by (simp add: digit_value_def digit_char_def)

lemma fold_number_string: "fold (\<lambda>c n. 10 * n + digit_value c) (number_string 10 n) 0 = n"
proof (induction n rule: less_induct)
  case (less n)
  show ?case
  proof (cases "n < 10")
    case True
    then show ?thesis by (subst number_string.simps) (simp add: digit_value_char)
  next
    case False
    then have "n div 10 < n" by simp
    from less[OF this] False show ?thesis
      by (subst number_string.simps) (simp add: digit_value_char)
  qed
qed

lemma scan_number_to_string: "scan_number (to_string n) = Some (False, n)"
proof -
  let ?s = "number_string 10 n"
  have dig: "\<forall>c \<in> set ?s. is_digit c" using digits_number_string by blast
  then have "\<forall>c \<in> set ?s. c \<noteq> CHR 0x00" by (auto simp: is_digit_def)
  then have c: "c_str ?s = ?s" by (simp add: c_str_def takeWhile_eq_all_conv)
  have hd: "is_digit (hd ?s)" using dig by (metis hd_in_set number_string_nonempty)
  then have "\<not> is_space (hd ?s)" "hd ?s \<noteq> CHR ''-''" "hd ?s \<noteq> CHR ''+''"
    by (auto simp: is_digit_def is_space_def)
  moreover have "dropWhile is_space ?s = ?s"
    using calculation(1) by (cases ?s) auto
  moreover have tw: "takeWhile is_digit ?s = ?s" using dig takeWhile_eq_all_conv by blast
  ultimately show ?thesis
    by (simp add: scan_number_def to_string_def c fold_number_string Let_def tw del: takeWhile_eq_all_conv)
qed

lemma stoul_to_string: "n < 2 ^ 64 \<Longrightarrow> stoul (to_string n) = Inr (of_nat n)"
  by (simp add: stoul_def scan_number_to_string)

end
