(* ===== verification/Game_Server.thy ===== *)
theory Game_Server
  imports Game_Service Tcp_Connection Event_Loop Unique_Fd Posix_Net
begin

text \<open>
  \<open>src/server/game_server.cpp\<close>: the owner of everything else and the transport of the game service.
  Its state is the \<open>GameService\<close> record with a \<open>server_transport\<close> in the transport field, so that the
  mutual calls between server and service (\<open>CloseConnection\<close> calls \<open>OnDisconnected\<close>, which sends
  through the server) are functions of one state. What the kernel answers is part of that state:
  the results of \<open>accept4\<close>, \<open>recv\<close>, \<open>send\<close> and \<open>epoll_ctl\<close> still to come, the bytes it has taken per
  connection, and the descriptors of client sockets that are open.
\<close>

section \<open>State\<close>

record Client =
  client_id :: ConnectionId
  client_connection :: TcpConnection

datatype server_callback = StopCallback | AcceptCallback | WakeupCallback | ClientCallback int

record ServerConfig =
  sc_bind_address :: string
  sc_port :: u16
  sc_listen_backlog :: int
  sc_maximum_connections :: nat
  sc_maximum_pending_bytes :: nat
  sc_worker_count :: nat
  sc_queue_capacity :: nat
  sc_game :: GameConfig

definition default_server_config :: ServerConfig where
  "default_server_config =
     \<lparr>sc_bind_address = ''127.0.0.1'', sc_port = 9000, sc_listen_backlog = 128, sc_maximum_connections = 4096, sc_maximum_pending_bytes = 4 * 1024 * 1024, sc_worker_count = 2,
      sc_queue_capacity = 1024, sc_game = default_game_config\<rparr>"

text \<open>\<open>Accepted d\<close>: \<open>accept4\<close> returned the new descriptor \<open>d\<close>.\<close>

datatype accept_result = Accepted int | AcceptInterrupted | AcceptWouldBlock | AcceptFailed

record server_transport =
  server_config :: ServerConfig
  listener :: UniqueFd
  bound_port :: u16
  wakeup_handle :: int
  event_loop :: "server_callback EventLoop"
  completion_queue :: "game_callback data_completion CompletionQueue"
  wakeup_counter :: nat
  clients :: "(int, Client) umap"
  connection_descriptors :: "(ConnectionId, int) umap"
  marked_for_close :: "ConnectionId set"
  next_connection_id :: ConnectionId
  stopped :: bool
  os_table :: descriptor_table
  os_accept :: "accept_result list"
  os_send :: "int \<Rightarrow> send_result list"
  os_recv :: "int \<Rightarrow> recv_result list"
  os_epoll_ok :: "nat \<Rightarrow> bool"
  os_epoll_calls :: nat
  os_taken :: "ConnectionId \<Rightarrow> byte list"

type_synonym GameServer = "server_transport GameService"

abbreviation at_transport :: "(server_transport \<Rightarrow> server_transport) \<Rightarrow> GameServer \<Rightarrow> GameServer" where
  "at_transport f g \<equiv> g\<lparr>transport := f (transport g)\<rparr>"

section \<open>The transport methods\<close>

definition mark_for_close :: "ConnectionId \<Rightarrow> server_transport \<Rightarrow> server_transport" where
  "mark_for_close connection_id t = t\<lparr>marked_for_close := insert connection_id (marked_for_close t)\<rparr>"

definition put_client :: "int \<Rightarrow> Client \<Rightarrow> TcpConnection \<Rightarrow> server_transport \<Rightarrow> server_transport" where
  "put_client descriptor client connection t =
     t\<lparr>clients := um_put descriptor (client\<lparr>client_connection := connection\<rparr>) (clients t)\<rparr>"

definition UpdateInterest :: "Client \<Rightarrow> server_transport \<Rightarrow> server_transport" where
  "UpdateInterest client t =
     (let events = EPOLLIN OR EPOLLRDHUP;
          events = (if WantsWrite (client_connection client) then events OR EPOLLOUT else events);
          (modified, l) = EventLoop_Modify (os_epoll_ok t (os_epoll_calls t))
             (tcp_descriptor (client_connection client)) events (event_loop t);
          t = t\<lparr>event_loop := l, os_epoll_calls := Suc (os_epoll_calls t)\<rparr>
      in if modified then t else mark_for_close (client_id client) t)"

text \<open>\<open>Flush\<close> on a client's connection, with the kernel's side of it.\<close>

definition flush_client :: "int \<Rightarrow> Client \<Rightarrow> server_transport \<Rightarrow> IoStatus \<times> Client \<times> server_transport" where
  "flush_client descriptor client t =
     (let (status, bytes, connection, rest) = Flush (os_send t descriptor) (client_connection client);
          client = client\<lparr>client_connection := connection\<rparr>;
          t = put_client descriptor client connection
            (t\<lparr>os_send := (os_send t)(descriptor := rest),
               os_taken := (os_taken t)(client_id client := os_taken t (client_id client) @ bytes)\<rparr>)
      in (status, client, t))"

definition server_Send :: "protobuf \<Rightarrow> server_transport sender" where
  "server_Send pb connection_id type message t =
     (case um_find (connection_descriptors t) connection_id of
        None \<Rightarrow> (False, t)
      | Some descriptor \<Rightarrow>
          case um_find (clients t) descriptor of
            None \<Rightarrow> (False, t)
          | Some client \<Rightarrow>
              case EncodeProtobufFrame pb type message kDefaultMaxPayloadSize of
                Inl _ \<Rightarrow> (False, mark_for_close connection_id t)
              | Inr bytes \<Rightarrow>
                  let (queued, connection) = QueueBytes bytes (client_connection client);
                      t = put_client descriptor client connection t
                  in if \<not> queued then (False, mark_for_close connection_id t)
                     else
                       let (status, client, t) =
                             flush_client descriptor (client\<lparr>client_connection := connection\<rparr>) t
                       in if status \<noteq> kOpen then (False, mark_for_close connection_id t)
                          else (True, UpdateInterest client t))"

definition server_IsConnected :: "server_transport \<Rightarrow> ConnectionId \<Rightarrow> bool" where
  "server_IsConnected t connection_id \<longleftrightarrow>
     um_contains (connection_descriptors t) connection_id \<and> connection_id \<notin> marked_for_close t"

text \<open>
  \<open>clients_.erase\<close> destroys the client and with it the \<open>UniqueFd\<close> of its connection.
\<close>

definition erase_client :: "int \<Rightarrow> server_transport \<Rightarrow> server_transport" where
  "erase_client descriptor t =
     t\<lparr>clients := um_erase descriptor (clients t),
       os_table := (case um_find (clients t) descriptor of
          None \<Rightarrow> os_table t
        | Some client \<Rightarrow> UniqueFd_destroy (tcp_descriptor (client_connection client)) (os_table t))\<rparr>"

definition forget_connection :: "ConnectionId \<Rightarrow> int \<Rightarrow> server_transport \<Rightarrow> server_transport" where
  "forget_connection connection_id native_handle t =
     (let t = erase_client native_handle t
      in t\<lparr>connection_descriptors := um_erase connection_id (connection_descriptors t),
           marked_for_close := marked_for_close t - {connection_id}\<rparr>)"

definition CloseConnection :: "protobuf \<Rightarrow> ConnectionId \<Rightarrow> GameServer \<Rightarrow> GameServer outcome" where
  "CloseConnection pb connection_id g =
     (case um_find (connection_descriptors (transport g)) connection_id of
        None \<Rightarrow> Inr (at_transport (\<lambda>t. t\<lparr>marked_for_close := marked_for_close t - {connection_id}\<rparr>) g)
      | Some native_handle \<Rightarrow>
          outcome_bind
            (OnDisconnected (server_Send pb) connection_id
               (at_transport (\<lambda>t. t\<lparr>event_loop := EventLoop_Remove native_handle (event_loop t)\<rparr>) g))
            (\<lambda>g. Inr (at_transport (forget_connection connection_id native_handle) g)))"

definition server_transport_ops :: "protobuf \<Rightarrow> server_transport GameTransport" where
  "server_transport_ops pb =
     \<lparr>Send = server_Send pb, IsConnected = server_IsConnected, Disconnect = CloseConnection pb\<rparr>"

interpretation server: game_transport "server_transport_ops pb" for pb
proof
  fix c :: ConnectionId and g h :: GameServer and e
  show "Disconnect (server_transport_ops pb) c g = Inr h \<Longrightarrow>
      same_game g h \<or> (\<exists>g1 h1. same_game g g1 \<and>
        OnDisconnected (Send (server_transport_ops pb)) c g1 = Inr h1 \<and> same_game h1 h)"
    by (auto simp: server_transport_ops_def CloseConnection_def outcome_bind_Inr_iff same_game_def
        split: option.splits)
  show "Disconnect (server_transport_ops pb) c g = Inl e \<Longrightarrow>
      \<exists>g1. same_game g g1 \<and> OnDisconnected (Send (server_transport_ops pb)) c g1 = Inl e"
    by (auto simp: server_transport_ops_def CloseConnection_def outcome_bind_def same_game_def
        split: option.splits sum.splits)
qed

section \<open>What sending does to the transport\<close>

text \<open>A reflexive and transitive relation that every \<open>Send\<close> respects holds across \<open>OnDisconnected\<close>.\<close>

lemma send_to_players_transport:
  assumes "\<And>t. R t t" "\<And>t u v. R t u \<Longrightarrow> R u v \<Longrightarrow> R t v" "\<And>c ty m t. R t (snd (send c ty m t))"
  shows "R (transport g) (transport (send_to_players send ty m ids g))"
proof (induction ids arbitrary: g)
  case (Cons i ids)
  let ?g = "case PlayerById i g of None \<Rightarrow> g | Some q \<Rightarrow> send_message send (on_connection_id q) ty m g"
  have "R (transport g) (transport ?g)"
    using assms(1,3) by (simp add: send_message_def split: option.splits)
  moreover have "R (transport ?g) (transport (send_to_players send ty m ids ?g))" by (rule Cons.IH)
  ultimately show ?case using assms(2)[of "transport g" "transport ?g"] by (simp add: send_to_players_def)
qed (use assms(1) in \<open>simp add: send_to_players_def\<close>)

lemma OnDisconnected_transport:
  assumes R: "\<And>t. R t t" "\<And>t u v. R t u \<Longrightarrow> R u v \<Longrightarrow> R t v" "\<And>c ty m t. R t (snd (send c ty m t))"
    and res: "OnDisconnected send c g = Inr g'"
  shows "R (transport g) (transport g')"
proof -
  define g0 where "g0 = (case um_find (pending_connections g) c of None \<Rightarrow> g
    | Some account \<Rightarrow> g\<lparr>pending_accounts := pending_accounts g - {account},
        pending_connections := um_erase c (pending_connections g)\<rparr>)"
  have t0: "transport g0 = transport g" by (simp add: g0_def split: option.splits)
  have send: "R (transport h) (transport (send_to_players send ty m ids h))" for h ty m ids
    by (rule send_to_players_transport[of R send]) (fact R(1), rule R(2), assumption+, rule R(3))
  show ?thesis
  proof (cases "\<exists>p q. um_find (connection_players g0) c = Some p \<and> um_find (online_players g0) p = Some q")
    case False
    then have "transport g' = transport g0"
      using res by (auto simp: OnDisconnected_def g0_def[symmetric] Let_def split: option.splits)
    then show ?thesis using t0 R(1) by simp
  next
    case True
    then obtain p q w ids where "transport g' = transport (send_to_players send kPlayerLeave (PlayerLeave p) ids
        (g0\<lparr>world := w, online_players := um_erase p (online_players g0),
            connection_players := um_erase c (connection_players g0)\<rparr>))"
      using res by (auto simp: OnDisconnected_def g0_def[symmetric] Let_def outcome_bind_Inr_iff case_prod_unfold)
    then show ?thesis
      using send[of "g0\<lparr>world := w, online_players := um_erase p (online_players g0),
          connection_players := um_erase c (connection_players g0)\<rparr>"] t0 by simp
  qed
qed

lemma UpdateInterest_fields [simp]:
  "connection_descriptors (UpdateInterest client t) = connection_descriptors t"
  "clients (UpdateInterest client t) = clients t" "os_table (UpdateInterest client t) = os_table t"
  by (auto simp: UpdateInterest_def mark_for_close_def Let_def split: prod.splits)

lemma put_client_fields [simp]:
  "connection_descriptors (put_client d client conn t) = connection_descriptors t"
  "marked_for_close (put_client d client conn t) = marked_for_close t"
  "os_table (put_client d client conn t) = os_table t"
  "clients (put_client d client conn t) = um_put d (client\<lparr>client_connection := conn\<rparr>) (clients t)"
  by (simp_all add: put_client_def)

lemma mark_for_close_fields [simp]:
  "connection_descriptors (mark_for_close c t) = connection_descriptors t"
  "clients (mark_for_close c t) = clients t" "os_table (mark_for_close c t) = os_table t"
  "event_loop (mark_for_close c t) = event_loop t"
  "marked_for_close (mark_for_close c t) = insert c (marked_for_close t)"
  by (simp_all add: mark_for_close_def)

lemma flush_client_fields:
  "flush_client d client t = (status, client', t') \<Longrightarrow>
     connection_descriptors t' = connection_descriptors t \<and> marked_for_close t' = marked_for_close t \<and>
     os_table t' = os_table t \<and> client_id client' = client_id client \<and> event_loop t' = event_loop t"
  by (auto simp: flush_client_def put_client_def Let_def split: prod.splits)

lemma server_Send_descriptors [simp]:
  "connection_descriptors (snd (server_Send pb c ty m t)) = connection_descriptors t"
  by (auto simp: server_Send_def Let_def dest!: flush_client_fields split: option.splits sum.splits prod.splits)

lemma CloseConnection_descriptors:
  assumes "CloseConnection pb c g = Inr g'"
  shows "um_find (connection_descriptors (transport g')) = (um_find (connection_descriptors (transport g)))(c := None)"
    "c \<notin> marked_for_close (transport g')"
    "um_find (connection_descriptors (transport g)) c = None \<Longrightarrow>
       marked_for_close (transport g') = marked_for_close (transport g) - {c}"
proof -
  let ?R = "\<lambda>t u. connection_descriptors u = connection_descriptors t"
  have "connection_descriptors (transport h) = connection_descriptors (transport k)"
    if "OnDisconnected (server_Send pb) c k = Inr h" for k h
    by (rule OnDisconnected_transport[of ?R "server_Send pb", OF _ _ _ that]) simp_all
  then show "um_find (connection_descriptors (transport g')) = (um_find (connection_descriptors (transport g)))(c := None)"
    "c \<notin> marked_for_close (transport g')"
    "um_find (connection_descriptors (transport g)) c = None \<Longrightarrow>
       marked_for_close (transport g') = marked_for_close (transport g) - {c}"
    using assms by (auto simp: CloseConnection_def forget_connection_def erase_client_def Let_def outcome_bind_Inr_iff
        fun_eq_iff split: option.splits)
qed

section \<open>The other members\<close>

text \<open>
  The loop ends for every state: each pass takes one connection out of the table, or, when it was
  not there, out of the set of marked ones. \<open>*begin()\<close> of the \<open>unordered_set\<close> is some element; the model
  takes the smallest.
\<close>

function CloseMarkedConnections :: "protobuf \<Rightarrow> GameServer \<Rightarrow> GameServer outcome" where
  "CloseMarkedConnections pb g =
     (if marked_for_close (transport g) = {} then Inr g
      else outcome_bind (CloseConnection pb (Min (marked_for_close (transport g))) g) (CloseMarkedConnections pb))"
  by pat_completeness auto
termination
proof (relation "measures [\<lambda>(_, g). card (dom (um_find (connection_descriptors (transport g)))),
    \<lambda>(_, g). card (marked_for_close (transport g))]")
  fix pb :: protobuf and g g' :: GameServer
  let ?t = "transport g" and ?c = "Min (marked_for_close (transport g))"
  assume ne: "marked_for_close (transport g) \<noteq> {}" and res: "CloseConnection pb ?c g = Inr g'"
  note closed = CloseConnection_descriptors[OF res]
  have c: "?c \<in> marked_for_close ?t" using ne by (intro Min_in) auto
  have dom: "dom (um_find (connection_descriptors (transport g'))) = dom (um_find (connection_descriptors ?t)) - {?c}"
    using closed(1) by auto
  show "((pb, g'), pb, g) \<in> measures [\<lambda>(_, g). card (dom (um_find (connection_descriptors (transport g)))),
    \<lambda>(_, g). card (marked_for_close (transport g))]"
  proof (cases "um_find (connection_descriptors ?t) ?c")
    case None
    then have "marked_for_close (transport g') = marked_for_close ?t - {?c}" using closed(3) by simp
    then have "card (marked_for_close (transport g')) < card (marked_for_close ?t)"
      using c by (simp add: card_Diff1_less del: card_Diff_insert)
    then show ?thesis using None dom by (simp add: domIff)
  next
    case (Some d)
    then have "?c \<in> dom (um_find (connection_descriptors ?t))" by auto
    then have "card (dom (um_find (connection_descriptors (transport g')))) < card (dom (um_find (connection_descriptors ?t)))"
      unfolding dom by (intro card_Diff1_less) simp_all
    then show ?thesis by simp
  qed
qed simp

declare CloseMarkedConnections.simps [simp del]

text \<open>The loop of \<open>ClientReady\<close> over the frames of one read.\<close>

fun handle_frames :: "protobuf \<Rightarrow> ConnectionId \<Rightarrow> Frame list \<Rightarrow> GameServer \<Rightarrow> GameServer outcome" where
  "handle_frames pb connection_id [] g = Inr g"
| "handle_frames pb connection_id (frame # frames) g =
     (if \<not> server_IsConnected (transport g) connection_id then Inr g
      else outcome_bind (HandleFrame (server_transport_ops pb) pb connection_id frame g)
        (handle_frames pb connection_id frames))"

text \<open>The branch for \<open>EPOLLIN\<close>; the first component is the new value of \<open>should_close\<close>.\<close>

definition read_client :: "protobuf \<Rightarrow> int \<Rightarrow> Client \<Rightarrow> bool \<Rightarrow> GameServer \<Rightarrow> (bool \<times> GameServer) outcome" where
  "read_client pb descriptor client should_close g =
     outcome_bind (ReadAvailable (os_recv (transport g) descriptor) (client_connection client))
       (\<lambda>(status, frames, connection, rest).
          let g = at_transport (\<lambda>t. put_client descriptor client connection
                    (t\<lparr>os_recv := (os_recv t)(descriptor := rest)\<rparr>)) g;
              bad = (status = kProtocolError \<or> status = kIoError);
              frames = (if bad then [] else frames);
              should_close = (should_close \<or> bad \<or> status = kPeerClosed)
          in outcome_bind (handle_frames pb (client_id client) frames g) (\<lambda>g. Inr (should_close, g)))"

text \<open>The part of \<open>ClientReady\<close> after the check that the connection is still there.\<close>

definition finish_ready :: "protobuf \<Rightarrow> int \<Rightarrow> ConnectionId \<Rightarrow> u32 \<Rightarrow> bool \<Rightarrow> GameServer \<Rightarrow> GameServer outcome" where
  "finish_ready pb descriptor connection_id events should_close g =
     (let (should_close, client, g) =
            (case um_find (clients (transport g)) descriptor of
               None \<Rightarrow> (should_close, None, g)
             | Some client \<Rightarrow>
                 if events AND EPOLLOUT \<noteq> 0 then
                   let (status, client, t) = flush_client descriptor client (transport g)
                   in (should_close \<or> status \<noteq> kOpen, Some client, g\<lparr>transport := t\<rparr>)
                 else (should_close, Some client, g));
          should_close = (should_close \<or> events AND EPOLLRDHUP \<noteq> 0);
          g = (if should_close then at_transport (mark_for_close connection_id) g
               else case client of None \<Rightarrow> g | Some client \<Rightarrow> at_transport (UpdateInterest client) g)
      in CloseMarkedConnections pb g)"

definition ClientReady :: "protobuf \<Rightarrow> int \<Rightarrow> u32 \<Rightarrow> GameServer \<Rightarrow> GameServer outcome" where
  "ClientReady pb descriptor events g =
     (case um_find (clients (transport g)) descriptor of
        None \<Rightarrow> Inr g
      | Some client \<Rightarrow>
          let connection_id = client_id client;
              should_close = (events AND (EPOLLERR OR EPOLLHUP) \<noteq> 0)
          in outcome_bind
               (if events AND EPOLLIN \<noteq> 0 then read_client pb descriptor client should_close g
                else Inr (should_close, g))
               (\<lambda>(should_close, g).
                  if \<not> server_IsConnected (transport g) connection_id then CloseMarkedConnections pb g
                  else finish_ready pb descriptor connection_id events should_close g))"

text \<open>
  The body of \<open>AcceptReady\<close> for a descriptor that \<open>accept4\<close> has returned. Returning early with
  \<open>continue\<close> destroys \<open>accepted\<close>, which closes the descriptor.
\<close>

definition accept_one :: "protobuf \<Rightarrow> int \<Rightarrow> GameServer \<Rightarrow> GameServer outcome" where
  "accept_one pb descriptor g =
     (let g = at_transport (\<lambda>t. t\<lparr>os_table := (os_table t)\<lparr>open_fds := insert descriptor (open_fds (os_table t))\<rparr>\<rparr>) g
      in if um_size (clients (transport g)) \<ge> sc_maximum_connections (server_config (transport g))
         then Inr (at_transport (\<lambda>t. t\<lparr>os_table := UniqueFd_destroy descriptor (os_table t)\<rparr>) g)
         else
           let g = at_transport (\<lambda>t. t\<lparr>next_connection_id := next_connection_id t + 1\<rparr>) g;
               connection_id = next_connection_id (transport g)
           in outcome_bind (TcpConnection_new descriptor (sc_maximum_pending_bytes (server_config (transport g))))
                (\<lambda>connection.
                   let client_descriptor = tcp_descriptor connection;
                       (added, l) = EventLoop_Add (os_epoll_ok (transport g) (os_epoll_calls (transport g)))
                          client_descriptor (EPOLLIN OR EPOLLRDHUP) (Some (ClientCallback client_descriptor))
                          (event_loop (transport g));
                       g = at_transport (\<lambda>t.
                         t\<lparr>clients := um_emplace client_descriptor
                             \<lparr>client_id = connection_id, client_connection = connection\<rparr> (clients t),
                           connection_descriptors := um_put connection_id client_descriptor (connection_descriptors t),
                           event_loop := l, os_epoll_calls := Suc (os_epoll_calls t)\<rparr>) g
                   in if added then Inr g else CloseConnection pb connection_id g))"

fun accept_loop :: "protobuf \<Rightarrow> accept_result list \<Rightarrow> GameServer \<Rightarrow> GameServer outcome" where
  "accept_loop pb [] g = Inr (at_transport (\<lambda>t. t\<lparr>os_accept := []\<rparr>) g)"
| "accept_loop pb (AcceptInterrupted # rs) g = accept_loop pb rs g"
| "accept_loop pb (AcceptWouldBlock # rs) g = Inr (at_transport (\<lambda>t. t\<lparr>os_accept := rs\<rparr>) g)"
| "accept_loop pb (AcceptFailed # rs) g = Inl (Throw (system_error ''accept4''))"
| "accept_loop pb (Accepted d # rs) g = outcome_bind (accept_one pb d g) (accept_loop pb rs)"

definition AcceptReady :: "protobuf \<Rightarrow> GameServer \<Rightarrow> GameServer outcome" where
  "AcceptReady pb g = accept_loop pb (os_accept (transport g)) g"

text \<open>
  The callback registered for the database eventfd. The completions the workers push while it runs
  are left to the next call.
\<close>

definition WakeupReady :: "protobuf \<Rightarrow> bool list \<Rightarrow> GameServer \<Rightarrow> GameServer outcome" where
  "WakeupReady pb interrupts g =
     (let g = at_transport (\<lambda>t. t\<lparr>wakeup_counter := Consume interrupts (wakeup_counter t)\<rparr>) g
      in outcome_bind
           (Drain (2 ^ 64 - 1) 0 (run_completion (server_transport_ops pb)) (completion_queue (transport g)) g)
           (\<lambda>(_, q, g). CloseMarkedConnections pb (at_transport (\<lambda>t. t\<lparr>completion_queue := q\<rparr>) g)))"

text \<open>What the event loop calls.\<close>

fun invoke_callback :: "protobuf \<Rightarrow> server_callback \<Rightarrow> u32 \<Rightarrow> GameServer \<Rightarrow> GameServer outcome" where
  "invoke_callback pb StopCallback events g =
     Inr (at_transport (\<lambda>t. t\<lparr>event_loop := (event_loop t)\<lparr>stop_counter := Consume [] (stop_counter (event_loop t))\<rparr>\<rparr>) g)"
| "invoke_callback pb AcceptCallback events g = AcceptReady pb g"
| "invoke_callback pb WakeupCallback events g = WakeupReady pb [] g"
| "invoke_callback pb (ClientCallback descriptor) events g = ClientReady pb descriptor events g"

definition server_Run :: "protobuf \<Rightarrow> wait_result list \<Rightarrow> GameServer \<Rightarrow> (bool \<times> GameServer) outcome" where
  "server_Run pb rs g =
     EventLoop_Run (\<lambda>g. event_loop (transport g)) (\<lambda>l. at_transport (\<lambda>t. t\<lparr>event_loop := l\<rparr>)) (invoke_callback pb) rs
       (at_transport (\<lambda>t. t\<lparr>stopped := False\<rparr>) g)"

definition server_Stop :: "server_transport \<Rightarrow> server_transport" where
  "server_Stop t =
     (let was = stopped t; t = t\<lparr>stopped := True\<rparr>
      in if was then t else t\<lparr>event_loop := EventLoop_Stop [] (event_loop t)\<rparr>)"

definition BoundPort :: "server_transport \<Rightarrow> u16" where
  "BoundPort t = bound_port t"

section \<open>Construction and destruction\<close>

text \<open>
  The answers of the kernel to the calls of \<open>OpenListener\<close>: the descriptor (negative for a failure),
  the success of three calls, and the port in network byte order that \<open>getsockname\<close> reports.
\<close>

record listener_answers =
  la_socket :: int
  la_setsockopt :: bool
  la_bind :: "nat list \<Rightarrow> u16 \<Rightarrow> bool"
  la_listen :: "int \<Rightarrow> bool"
  la_getsockname :: "u16 option"

definition OpenListener :: "listener_answers \<Rightarrow> ServerConfig \<Rightarrow> (UniqueFd \<times> u16) outcome" where
  "OpenListener la cfg =
     (let fd = la_socket la in
      if \<not> UniqueFd_valid fd then Inl (Throw (system_error ''socket''))
      else if \<not> la_setsockopt la then Inl (Throw (system_error ''setsockopt''))
      else case inet_pton (sc_bind_address cfg) of
        None \<Rightarrow> Inl (Throw (invalid_argument ''invalid IPv4 bind address''))
      | Some address \<Rightarrow>
          if \<not> la_bind la address (htons (sc_port cfg)) then Inl (Throw (system_error ''bind''))
          else if \<not> la_listen la (sc_listen_backlog cfg) then Inl (Throw (system_error ''listen''))
          else case la_getsockname la of
            None \<Rightarrow> Inl (Throw (system_error ''getsockname''))
          | Some port \<Rightarrow> Inr (fd, ntohs port))"

text \<open>
  The answers to all calls of the constructor, in the order of the members: the event loop's epoll
  and eventfd, the database eventfd, the worker threads, the listener, and the two registrations.
\<close>

record server_os =
  so_epoll :: bool
  so_stop_fd :: int
  so_stop_add :: bool
  so_wakeup_fd :: int
  so_spawn :: "nat \<Rightarrow> bool"
  so_listener :: listener_answers
  so_accept_add :: bool
  so_wakeup_add :: bool

definition eventfd_new :: "int \<Rightarrow> int outcome" where
  "eventfd_new fd = (if fd < 0 then Inl (Throw (system_error ''eventfd'')) else Inr fd)"

definition GameServer_new ::
  "server_os \<Rightarrow> ServerConfig \<Rightarrow> (nat \<Rightarrow> u64) \<Rightarrow> (nat \<Rightarrow> u64) \<Rightarrow> GameServer outcome" where
  "GameServer_new so cfg draws clock =
     outcome_bind (eventfd_new (so_stop_fd so)) (\<lambda>stop_fd.
     outcome_bind (EventLoop_new (so_epoll so) (so_stop_add so) stop_fd StopCallback) (\<lambda>l.
     outcome_bind (eventfd_new (so_wakeup_fd so)) (\<lambda>wakeup_fd.
     outcome_bind (BoundedThreadPool_new (so_spawn so) (sc_worker_count cfg) (sc_queue_capacity cfg)) (\<lambda>pool.
     outcome_bind (GameService_new
         \<lparr>server_config = cfg, listener = no_fd, bound_port = 0, wakeup_handle = wakeup_fd, event_loop = l,
          completion_queue = CompletionQueue_new True, wakeup_counter = 0, clients = um_empty,
          connection_descriptors = um_empty, marked_for_close = {}, next_connection_id = 0, stopped = False,
          os_table = \<lparr>open_fds = {}, close_calls = []\<rparr>, os_accept = [], os_send = (\<lambda>_. []), os_recv = (\<lambda>_. []),
          os_epoll_ok = (\<lambda>_. True), os_epoll_calls = 0, os_taken = (\<lambda>_. [])\<rparr>
         pool (sc_game cfg) draws clock) (\<lambda>g.
     outcome_bind (OpenListener (so_listener so) cfg) (\<lambda>(fd, port).
       let (added, l) = EventLoop_Add (so_accept_add so) fd EPOLLIN (Some AcceptCallback) l in
       if \<not> added then Inl (Throw (runtime_error ''failed to register listening socket''))
       else
         let (added, l) = EventLoop_Add (so_wakeup_add so) wakeup_fd EPOLLIN (Some WakeupCallback) l in
         if \<not> added then Inl (Throw (runtime_error ''failed to register database eventfd''))
         else Inr (at_transport (\<lambda>t. t\<lparr>listener := fd, bound_port := port, event_loop := l\<rparr>) g)))))))"

text \<open>
  The destructor's body. \<open>late\<close> are the completions that the workers push while \<open>Shutdown\<close> waits
  for them; they come after those already queued.
\<close>

fun close_all :: "protobuf \<Rightarrow> ConnectionId list \<Rightarrow> GameServer \<Rightarrow> GameServer outcome" where
  "close_all pb [] g = Inr g"
| "close_all pb (c # cs) g = outcome_bind (CloseConnection pb c g) (close_all pb cs)"

definition GameServer_destroy ::
  "protobuf \<Rightarrow> game_callback data_completion list \<Rightarrow> GameServer \<Rightarrow> GameServer outcome" where
  "GameServer_destroy pb late g =
     (let g = at_transport server_Stop g;
          connections = map fst (um_entries (connection_descriptors (transport g)))
      in outcome_bind (close_all pb connections g) (\<lambda>g.
           let g = g\<lparr>data_service := (data_service g)\<lparr>accepting_tasks := False, tasks := [], workers := []\<rparr>\<rparr>;
               q = completion_queue (transport g);
               q = q\<lparr>completions := completions q @ late\<rparr>
           in outcome_bind (Drain (2 ^ 64 - 1) 0 (run_completion (server_transport_ops pb)) q g) (\<lambda>(_, q, g).
                Inr (at_transport (\<lambda>t.
                  let l = (if UniqueFd_valid (listener t) then EventLoop_Remove (listener t) (event_loop t) else event_loop t)
                  in t\<lparr>completion_queue := q, event_loop := EventLoop_Remove (wakeup_handle t) l\<rparr>) g))))"

end
