(* ===== verification/Client_Mirror.thy ===== *)
theory Client_Mirror
  imports Game_Server
begin

text \<open>
  What clients learn from the messages of the game service. A client that applies the messages it is sent keeps a
  mirror of the players around its own: their names and positions. The messages of each handler are computed per
  connection, and every handler is shown to turn mirrors that are exact into mirrors that are exact.
\<close>

section \<open>Messages\<close>

type_synonym message = "ConnectionId \<times> MessageType \<times> Message"

text \<open>Handing a list of messages to a transport, in order.\<close>

definition deliver :: "'t sender \<Rightarrow> message list \<Rightarrow> 't \<Rightarrow> 't" where
  "deliver send msgs t = fold (\<lambda>(c, ty, m) t. snd (send c ty m t)) msgs t"

lemma deliver_Nil [simp]: "deliver send [] t = t"
  by (simp add: deliver_def)

lemma deliver_append: "deliver send (xs @ ys) t = deliver send ys (deliver send xs t)"
  by (simp add: deliver_def)

lemma deliver_one: "deliver send [(c, ty, m)] t = snd (send c ty m t)"
  by (simp add: deliver_def)

text \<open>
  \<open>emits send msgs g h\<close>: the call that leads from \<open>g\<close> to \<open>h\<close> has handed \<open>msgs\<close> to the transport, each under its
  own message type, and done nothing else to it.
\<close>

definition well_typed :: "message list \<Rightarrow> bool" where
  "well_typed msgs \<longleftrightarrow> list_all (\<lambda>(_, ty, m). ty = message_type m) msgs"

lemma well_typed_simps [simp]:
  "well_typed []" "well_typed ((c, ty, m) # msgs) \<longleftrightarrow> ty = message_type m \<and> well_typed msgs"
  "well_typed (xs @ ys) \<longleftrightarrow> well_typed xs \<and> well_typed ys"
  "well_typed (map (\<lambda>x. (conn x, ty, msg x)) zs) \<longleftrightarrow> (\<forall>x \<in> set zs. ty = message_type (msg x))"
  by (simp_all add: well_typed_def list_all_iff ball_Un)

definition emits :: "'t sender \<Rightarrow> message list \<Rightarrow> 't GameService \<Rightarrow> 't GameService \<Rightarrow> bool" where
  "emits send msgs g h \<longleftrightarrow> well_typed msgs \<and> transport h = deliver send msgs (transport g)"

definition connection_of :: "'t GameService \<Rightarrow> PlayerId \<Rightarrow> ConnectionId" where
  "connection_of g p = (case PlayerById p g of Some q \<Rightarrow> on_connection_id q | None \<Rightarrow> 0)"

lemma PlayerById_send [simp]: "PlayerById p (send_message send c ty m g) = PlayerById p g"
  by (simp add: PlayerById_def)

lemma send_message_transport [simp]:
  "transport (send_message send c ty m g) = snd (send c ty m (transport g))"
  by (simp add: send_message_def)

text \<open>The messages of a loop over players, when all of them are online.\<close>

lemma fold_emits:
  assumes "\<And>x g. x \<in> set xs \<Longrightarrow> P g \<Longrightarrow> P (f x g) \<and> emits send (msg x) g (f x g)" and "P g"
  shows "P (fold f xs g) \<and> emits send (concat (map msg xs)) g (fold f xs g)"
  using assms
proof (induction xs arbitrary: g)
  case Nil
  then show ?case by (simp add: emits_def)
next
  case (Cons x xs)
  from Cons.prems have x: "P (f x g)" "emits send (msg x) g (f x g)" by auto
  with Cons show ?case by (simp add: emits_def deliver_append)
qed

lemma send_to_players_emits:
  assumes "\<forall>i \<in> set ids. um_contains (online_players g) i" "ty = message_type m"
  shows "emits send (map (\<lambda>i. (connection_of g i, ty, m)) ids) g (send_to_players send ty m ids g)"
proof -
  let ?P = "\<lambda>h. online_players h = online_players g"
  have "?P h \<Longrightarrow> connection_of h i = connection_of g i" for h i
    by (simp add: connection_of_def PlayerById_def)
  then have "?P (send_to_players send ty m ids g) \<and>
      emits send (concat (map (\<lambda>i. [(connection_of g i, ty, m)]) ids)) g (send_to_players send ty m ids g)"
    unfolding send_to_players_def
    by (intro fold_emits[where P = ?P])
      (use assms in \<open>force simp: PlayerById_def connection_of_def emits_def deliver_one\<close>)+
  then show ?thesis by simp
qed

lemma notify_entered_emits:
  assumes "\<forall>i \<in> set ids. um_contains (online_players g) i"
  shows "emits send (concat (map (\<lambda>i. [(connection_of g i, kPlayerEnter, PlayerEnter (Some (FillView mover))),
      (c, kPlayerEnter, PlayerEnter (map_option (FillView \<circ> on_record) (PlayerById i g)))]) ids)) g
    (notify_entered send c mover ids g)"
proof -
  let ?P = "\<lambda>h. online_players h = online_players g"
  show ?thesis
    unfolding notify_entered_def
    by (rule fold_emits[where P = ?P, THEN conjunct2])
      (use assms in \<open>force simp: PlayerById_def connection_of_def emits_def deliver_def\<close>)+
qed

lemma notify_left_emits:
  assumes "\<forall>i \<in> set ids. um_contains (online_players g) i"
  shows "emits send (concat (map (\<lambda>i. [(connection_of g i, kPlayerLeave, PlayerLeave mover),
      (c, kPlayerLeave, PlayerLeave i)]) ids)) g
    (notify_left send c mover ids g)"
proof -
  let ?P = "\<lambda>h. online_players h = online_players g"
  show ?thesis
    unfolding notify_left_def
    by (rule fold_emits[where P = ?P, THEN conjunct2])
      (use assms in \<open>force simp: PlayerById_def connection_of_def emits_def deliver_def\<close>)+
qed

section \<open>The mirror of a client\<close>

text \<open>
  A client keeps the views of the players it has been told are near: a successful login response sets them,
  \<open>PlayerEnter\<close> adds one, \<open>PlayerMove\<close> changes the position of one and \<open>PlayerLeave\<close> removes one.
\<close>

type_synonym mirror = "PlayerId \<rightharpoonup> PlayerView"

fun apply_message :: "Message \<Rightarrow> mirror \<Rightarrow> mirror" where
  "apply_message (LoginResponse r) k =
     (if lr_success r then map_of (map (\<lambda>v. (view_player_id v, v)) (lr_nearby_players r)) else k)"
| "apply_message (PlayerEnter (Some v)) k = k(view_player_id v \<mapsto> v)"
| "apply_message (PlayerLeave p) k = k(p := None)"
| "apply_message (PlayerMove p (Some pos)) k = k(p := map_option (\<lambda>v. v\<lparr>view_position := Some pos\<rparr>) (k p))"
| "apply_message _ k = k"

definition learn :: "(MessageType \<times> Message) list \<Rightarrow> mirror \<Rightarrow> mirror" where
  "learn ms k = fold (\<lambda>(_, m). apply_message m) ms k"

text \<open>\<open>known\<close> holds the mirrors per connection; each client applies the messages that are addressed to it.\<close>

definition messages_to :: "ConnectionId \<Rightarrow> message list \<Rightarrow> (MessageType \<times> Message) list" where
  "messages_to c msgs = map snd (filter (\<lambda>msg. fst msg = c) msgs)"

definition learn_all :: "message list \<Rightarrow> (ConnectionId \<Rightarrow> mirror) \<Rightarrow> (ConnectionId \<Rightarrow> mirror)" where
  "learn_all msgs known = (\<lambda>c. learn (messages_to c msgs) (known c))"

text \<open>What the client of player \<open>p\<close> should show: the current record of everyone that \<open>p\<close> sees.\<close>

definition shown :: "'t GameService \<Rightarrow> mirror" where
  "shown g i = map_option (FillView \<circ> on_record) (PlayerById i g)"

definition client_view :: "'t GameService \<Rightarrow> PlayerId \<Rightarrow> mirror" where
  "client_view g p = (\<lambda>i. if i \<in> sees (world g) p then shown g i else None)"

definition synchronised :: "'t GameService \<Rightarrow> (ConnectionId \<Rightarrow> mirror) \<Rightarrow> bool" where
  "synchronised g known \<longleftrightarrow>
     (\<forall>p q. um_find (online_players g) p = Some q \<longrightarrow> known (on_connection_id q) = client_view g p)"

lemma learn_simps [simp]:
  "learn [] k = k" "learn (x # xs) k = learn xs (apply_message (snd x) k)" "learn (xs @ ys) k = learn ys (learn xs k)"
  by (simp_all add: learn_def case_prod_beta)

lemma messages_to_simps [simp]:
  "messages_to c [] = []" "messages_to c (msg # msgs) = (if fst msg = c then snd msg # messages_to c msgs else messages_to c msgs)"
  "messages_to c (xs @ ys) = messages_to c xs @ messages_to c ys"
  by (simp_all add: messages_to_def)

lemma learn_all_Nil [simp]: "learn_all [] known = known"
  by (simp add: learn_all_def)

lemma learn_enters:
  assumes "\<And>i. i \<in> set ids \<Longrightarrow> \<exists>v. view i = Some v \<and> view_player_id v = i"
  shows "learn (map (\<lambda>i. (ty, PlayerEnter (view i))) ids) k = (\<lambda>x. if x \<in> set ids then view x else k x)"
  using assms
proof (induction ids arbitrary: k)
  case (Cons i ids)
  then obtain v where "view i = Some v" "view_player_id v = i" by auto
  with Cons show ?case by (auto simp: fun_eq_iff)
qed simp

lemma learn_leaves: "learn (map (\<lambda>i. (ty, PlayerLeave i)) ids) k = (\<lambda>x. if x \<in> set ids then None else k x)"
  by (induction ids arbitrary: k) (auto simp: fun_eq_iff)

lemma view_id [simp]: "view_player_id (FillView r) = pr_player_id r"
  by (simp add: FillView_def)

lemma FillView_moved:
  "FillView (r\<lparr>pr_position_x := msg_x m, pr_position_y := msg_y m\<rparr>) = (FillView r)\<lparr>view_position := Some m\<rparr>"
  by (simp add: FillView_def)

text \<open>Facts about the tables in the form the proofs below need.\<close>

lemma online_connection:
  assumes "game_inv g" "um_find (online_players g) p = Some q"
  shows "connection_of g p = on_connection_id q" "pr_player_id (on_record q) = p"
    "um_find (connection_players g) (on_connection_id q) = Some p"
    "tracked (world g) p = Some (record_position (on_record q))"
  using assms by (auto simp: connection_of_def PlayerById_def game_inv_def tables_agree_def)

lemma connection_of_eq:
  assumes "game_inv g" "um_find (online_players g) p = Some q" "um_contains (online_players g) i"
  shows "connection_of g i = on_connection_id q \<longleftrightarrow> i = p"
  using assms online_connection[OF assms(1)] by (metis option.exhaust option.inject)

lemma seen_online: "game_inv g \<Longrightarrow> i \<in> sees (world g) p \<Longrightarrow> um_contains (online_players g) i \<and> i \<noteq> p"
  using aoi.view_dom[of "world g" p] by (auto simp: game_inv_def tables_agree_def)

lemma MovePlayer_located:
  assumes "aoi_inv w" "MovePlayer p pos w = Inr (Some d, w')"
  obtains i where "GridIndexFor w pos = Inr (Some i)" "tracked w p \<noteq> None"
proof -
  obtain c where c: "GridIndexFor w pos = Inr c"
    using assms aoi.move_fault[of w pos _ p] by (cases "GridIndexFor w pos") auto
  then show thesis
    using that assms(2) aoi.move_none[OF c, of p] by (cases c; cases "tracked w p") auto
qed

lemma move_view_changes:
  assumes "aoi_inv w" "MovePlayer p pos w = Inr (Some d, w')"
  shows "entered d \<union> stayed d = sees w' p" "left d \<union> stayed d = sees w p"
    "entered d \<inter> stayed d = {}" "left d \<inter> stayed d = {}" "entered d \<inter> left d = {}"
    "\<And>q. q \<noteq> p \<Longrightarrow> sees w' q = (if q \<in> entered d then insert p (sees w q)
       else if q \<in> left d then sees w q - {p} else sees w q)"
proof -
  obtain i where i: "GridIndexFor w pos = Inr (Some i)" "tracked w p \<noteq> None"
    using MovePlayer_located[OF assms] .
  obtain d2 w2 where "MovePlayer p pos w = Inr (Some d2, w2)" and r:
      "entered d2 \<union> stayed d2 = sees w2 p" "left d2 \<union> stayed d2 = sees w p"
      "entered d2 \<inter> stayed d2 = {}" "left d2 \<inter> stayed d2 = {}" "entered d2 \<inter> left d2 = {}"
      "\<forall>q. q \<noteq> p \<longrightarrow> sees w2 q = (if q \<in> entered d2 then insert p (sees w q)
       else if q \<in> left d2 then sees w q - {p} else sees w q)"
    using aoi.move_reported[OF assms(1) i(2,1)] by (elim exE conjE) (rule that; assumption)
  with assms(2) have "d2 = d" "w2 = w'" by auto
  with r show "entered d \<union> stayed d = sees w' p" "left d \<union> stayed d = sees w p"
    "entered d \<inter> stayed d = {}" "left d \<inter> stayed d = {}" "entered d \<inter> left d = {}"
    "\<And>q. q \<noteq> p \<Longrightarrow> sees w' q = (if q \<in> entered d then insert p (sees w q)
       else if q \<in> left d then sees w q - {p} else sees w q)" by blast+
qed

lemma same_game_lookup:
  "same_game g h \<Longrightarrow> online_players h = online_players g"
  "same_game g h \<Longrightarrow> connection_of h = connection_of g"
  "same_game g h \<Longrightarrow> PlayerById i h = PlayerById i g"
  by (auto simp: same_game_def connection_of_def PlayerById_def fun_eq_iff)

lemma emits_trans: "emits send xs g h \<Longrightarrow> emits send ys h k \<Longrightarrow> emits send (xs @ ys) g k"
  by (simp add: emits_def deliver_append)

lemma shown_online:
  assumes "game_inv g" "um_contains (online_players g) i"
  shows "\<exists>v. shown g i = Some v \<and> view_player_id v = i"
  using assms online_connection(2)[OF assms(1)] by (auto simp: shown_def PlayerById_def)

lemma synchronised_cong:
  "synchronised g known \<Longrightarrow> online_players h = online_players g \<Longrightarrow> world h = world g \<Longrightarrow> synchronised h known"
  by (simp add: synchronised_def client_view_def shown_def PlayerById_def fun_eq_iff)

section \<open>The messages per connection\<close>

lemma messages_to_each:
  assumes "game_inv g" "um_find (online_players g) p = Some q" "distinct ids"
    and "\<And>i. i \<in> set ids \<Longrightarrow> um_contains (online_players g) i"
  shows "messages_to (on_connection_id q) (map (\<lambda>i. (connection_of g i, x i)) ids) = (if p \<in> set ids then [x p] else [])"
  using assms(3,4) by (induction ids) (auto simp: connection_of_eq[OF assms(1,2)])

lemma messages_to_pairs:
  assumes "game_inv g" "um_find (online_players g) p = Some q" "distinct ids"
    and "um_find (online_players g) s = Some qs" "s \<notin> set ids"
    and "\<And>i. i \<in> set ids \<Longrightarrow> um_contains (online_players g) i"
  shows "messages_to (on_connection_id q) (concat (map (\<lambda>i. [(connection_of g i, x i), (on_connection_id qs, y i)]) ids)) =
    (if p = s then map y ids else if p \<in> set ids then [x p] else [])"
proof -
  have s: "on_connection_id qs = on_connection_id q \<longleftrightarrow> p = s"
    using connection_of_eq[OF assms(1,2), of s] online_connection(1)[OF assms(1,4)] assms(4) by auto
  show ?thesis
    using assms(3,5,6) by (induction ids) (auto simp: connection_of_eq[OF assms(1,2)] s)
qed

section \<open>Moving\<close>

text \<open>The messages of a successful move, in the order in which they are sent.\<close>

definition move_messages ::
  "'t GameService \<Rightarrow> ConnectionId \<Rightarrow> PlayerRecord \<Rightarrow> PositionMsg \<Rightarrow> ViewDelta \<Rightarrow> message list" where
  "move_messages g c moved pos d =
     map (\<lambda>i. (connection_of g i, kPlayerMove, PlayerMove (pr_player_id moved) (Some pos)))
       (sorted_list_of_set (stayed d)) @
     concat (map (\<lambda>i. [(connection_of g i, kPlayerEnter, PlayerEnter (Some (FillView moved))),
         (c, kPlayerEnter, PlayerEnter (map_option (FillView \<circ> on_record) (PlayerById i g)))])
       (sorted_list_of_set (entered d))) @
     concat (map (\<lambda>i. [(connection_of g i, kPlayerLeave, PlayerLeave (pr_player_id moved)),
         (c, kPlayerLeave, PlayerLeave i)])
       (sorted_list_of_set (left d)))"

lemma move_loops_emit:
  assumes "\<And>i. i \<in> set (sorted_list_of_set (stayed d)) \<union> set (sorted_list_of_set (entered d)) \<union>
      set (sorted_list_of_set (left d)) \<Longrightarrow> um_contains (online_players g1) i"
  shows "emits send (move_messages g1 c moved pos d) g1
    (notify_left send c (pr_player_id moved) (sorted_list_of_set (left d))
       (notify_entered send c moved (sorted_list_of_set (entered d))
          (send_to_players send kPlayerMove (PlayerMove (pr_player_id moved) (Some pos))
             (sorted_list_of_set (stayed d)) g1)))"
proof -
  let ?h1 = "send_to_players send kPlayerMove (PlayerMove (pr_player_id moved) (Some pos))
             (sorted_list_of_set (stayed d)) g1"
  let ?h2 = "notify_entered send c moved (sorted_list_of_set (entered d)) ?h1"
  have s1: "same_game g1 ?h1" by simp
  have s2: "same_game g1 ?h2" by (rule same_game_trans[OF s1]) simp
  have e1: "emits send (map (\<lambda>i. (connection_of g1 i, kPlayerMove, PlayerMove (pr_player_id moved) (Some pos)))
       (sorted_list_of_set (stayed d))) g1 ?h1"
    using assms by (intro send_to_players_emits) auto
  have e2: "emits send (concat (map (\<lambda>i. [(connection_of g1 i, kPlayerEnter, PlayerEnter (Some (FillView moved))),
         (c, kPlayerEnter, PlayerEnter (map_option (FillView \<circ> on_record) (PlayerById i g1)))])
       (sorted_list_of_set (entered d)))) ?h1 ?h2"
    using notify_entered_emits[of "sorted_list_of_set (entered d)" ?h1 send moved c] assms
    by (simp add: same_game_lookup[OF s1])
  have e3: "emits send (concat (map (\<lambda>i. [(connection_of g1 i, kPlayerLeave, PlayerLeave (pr_player_id moved)),
         (c, kPlayerLeave, PlayerLeave i)]) (sorted_list_of_set (left d)))) ?h2
      (notify_left send c (pr_player_id moved) (sorted_list_of_set (left d)) ?h2)"
    using notify_left_emits[of "sorted_list_of_set (left d)" ?h2 send "pr_player_id moved" c] assms
    by (simp add: same_game_lookup[OF s2])
  show ?thesis
    unfolding move_messages_def by (intro emits_trans[OF e1] emits_trans[OF e2] e3)
qed

lemma messages_to_move:
  assumes inv: "game_inv g" and mover: "um_find (online_players g) r = Some s"
    and fin: "finite (stayed d)" "finite (entered d)" "finite (left d)"
    and dom: "\<And>i. i \<in> stayed d \<union> entered d \<union> left d \<Longrightarrow> um_contains (online_players g) i \<and> i \<noteq> r"
    and p: "um_find (online_players g) p = Some q"
  shows "messages_to (on_connection_id q) (move_messages g (on_connection_id s) (on_record s) pos d) =
    (if p = r
     then map (\<lambda>i. (kPlayerEnter, PlayerEnter (shown g i))) (sorted_list_of_set (entered d)) @
       map (\<lambda>i. (kPlayerLeave, PlayerLeave i)) (sorted_list_of_set (left d))
     else (if p \<in> stayed d then [(kPlayerMove, PlayerMove r (Some pos))] else []) @
       (if p \<in> entered d then [(kPlayerEnter, PlayerEnter (shown g r))] else []) @
       (if p \<in> left d then [(kPlayerLeave, PlayerLeave r)] else []))"
proof -
  have r: "pr_player_id (on_record s) = r" "Some (FillView (on_record s)) = shown g r"
    using online_connection(2)[OF inv mover] mover by (simp_all add: shown_def PlayerById_def)
  have not: "r \<notin> stayed d" using dom[of r] by blast
  have each: "messages_to (on_connection_id q) (map (\<lambda>i. (connection_of g i, x)) (sorted_list_of_set (stayed d))) =
      (if p \<in> stayed d then [x] else [])" for x
    using messages_to_each[OF inv p, of "sorted_list_of_set (stayed d)" "\<lambda>_. x"] fin(1) dom by simp
  have pairs: "messages_to (on_connection_id q)
      (concat (map (\<lambda>i. [(connection_of g i, x), (on_connection_id s, y i)]) (sorted_list_of_set S))) =
      (if p = r then map y (sorted_list_of_set S) else if p \<in> S then [x] else [])"
    if S: "S \<subseteq> stayed d \<union> entered d \<union> left d" "finite S" for S x y
  proof -
    have "r \<notin> set (sorted_list_of_set S)"
      "\<And>i. i \<in> set (sorted_list_of_set S) \<Longrightarrow> um_contains (online_players g) i" using dom S by auto
    from messages_to_pairs[OF inv p _ mover this, of "\<lambda>_. x" y] show ?thesis using S(2) by simp
  qed
  have sub: "entered d \<subseteq> stayed d \<union> entered d \<union> left d" "left d \<subseteq> stayed d \<union> entered d \<union> left d" by auto
  show ?thesis
    unfolding move_messages_def r shown_def[symmetric] messages_to_simps each
      pairs[OF sub(1) fin(2)] pairs[OF sub(2) fin(3)] using not by simp
qed

text \<open>The two cases of a move, on the level of views: everyone else, and the mover.\<close>

lemma moved_mirror_other:
  assumes "V' = (if e then insert p V else if l then V - {p} else V)" "\<not> (e \<and> s)" "\<not> (l \<and> s)" "\<not> (e \<and> l)" "p \<in> V \<longleftrightarrow> l \<or> s"
    and "before p = Some v" "now = before(p \<mapsto> v\<lparr>view_position := Some m\<rparr>)" "view_player_id v = p"
  shows "learn ((if s then [(kPlayerMove, PlayerMove p (Some m))] else []) @
      (if e then [(kPlayerEnter, PlayerEnter (now p))] else []) @ (if l then [(kPlayerLeave, PlayerLeave p)] else []))
      (\<lambda>i. if i \<in> V then before i else None) = (\<lambda>i. if i \<in> V' then now i else None)"
  using assms by (cases s; cases e; cases l) (auto simp: fun_eq_iff)

lemma moved_mirror_self:
  assumes "E \<union> S = V'" "L \<union> S = V" "E \<inter> S = {}" "L \<inter> S = {}" "E \<inter> L = {}" "set en = E" "set le = L"
    and "\<And>i. i \<in> E \<Longrightarrow> \<exists>v. now i = Some v \<and> view_player_id v = i" "\<And>i. i \<in> V' \<union> V \<Longrightarrow> now i = before i"
  shows "learn (map (\<lambda>i. (kPlayerEnter, PlayerEnter (now i))) en @ map (\<lambda>i. (kPlayerLeave, PlayerLeave i)) le)
      (\<lambda>i. if i \<in> V then before i else None) = (\<lambda>i. if i \<in> V' then now i else None)"
proof -
  have "learn (map (\<lambda>i. (kPlayerEnter, PlayerEnter (now i))) en) k = (\<lambda>x. if x \<in> E then now x else k x)" for k
    using learn_enters[of en now] assms(6,8) by simp
  then show ?thesis using assms(1-5,7,9) by (auto simp: learn_leaves fun_eq_iff)
qed

text \<open>What a successful move reports, for the state \<open>g1\<close> after the tables have been updated.\<close>

lemma move_reports:
  assumes inv: "game_inv g" and inv1: "game_inv g1" and mv: "MovePlayer p pos (world g) = Inr (Some d, world g1)"
    and on: "um_find (online_players g) p = Some q" "um_find (online_players g1) = (um_find (online_players g))(p \<mapsto> q1)"
  shows "finite (stayed d)" "finite (entered d)" "finite (left d)"
    "i \<in> stayed d \<union> entered d \<union> left d \<Longrightarrow> um_contains (online_players g1) i \<and> i \<noteq> p"
proof -
  have aoi: "aoi_inv (world g)" "aoi_inv (world g1)" using inv inv1 by (simp_all add: game_inv_def)
  note view = move_view_changes[OF aoi(1) mv]
  show "finite (stayed d)" "finite (entered d)" "finite (left d)"
    using aoi.finite_view[OF aoi(1), of p] aoi.finite_view[OF aoi(2), of p] view(1,2) by (metis finite_Un)+
  assume "i \<in> stayed d \<union> entered d \<union> left d"
  then have "i \<in> sees (world g) p \<or> i \<in> sees (world g1) p" using view(1,2) by auto
  then show "um_contains (online_players g1) i \<and> i \<noteq> p"
    using seen_online[OF inv, of i p] seen_online[OF inv1, of i p] on by auto
qed

lemma move_teaches:
  assumes inv: "game_inv g" and inv1: "game_inv g1" and mv: "MovePlayer p pos (world g) = Inr (Some d, world g1)"
    and on: "um_find (online_players g) p = Some q" "um_find (online_players g1) = (um_find (online_players g))(p \<mapsto> q1)"
    and q1: "on_connection_id q1 = on_connection_id q"
      "on_record q1 = (on_record q)\<lparr>pr_position_x := msg_x m, pr_position_y := msg_y m\<rparr>"
    and sync: "synchronised g known"
  shows "synchronised g1 (learn_all (move_messages g1 (on_connection_id q1) (on_record q1) m d) known)"
  unfolding synchronised_def learn_all_def
proof (intro allI impI)
  fix p2 q2 assume q2: "um_find (online_players g1) p2 = Some q2"
  have aoi: "aoi_inv (world g)" using inv by (simp add: game_inv_def)
  note view = move_view_changes[OF aoi mv] and reports = move_reports[OF inv inv1 mv on]
  have me: "um_find (online_players g1) p = Some q1" using on by simp
  have known: "known (on_connection_id q2) = (\<lambda>i. if i \<in> sees (world g) p2 then shown g i else None)"
    using sync q2 on q1 unfolding synchronised_def client_view_def by (cases "p2 = p") auto
  have shown1: "shown g p = Some (FillView (on_record q))"
      "shown g1 = (shown g)(p \<mapsto> (FillView (on_record q))\<lparr>view_position := Some m\<rparr>)"
    using on q1 by (simp_all add: shown_def PlayerById_def fun_eq_iff FillView_moved)
  have to: "messages_to (on_connection_id q2) (move_messages g1 (on_connection_id q1) (on_record q1) m d) =
    (if p2 = p
     then map (\<lambda>i. (kPlayerEnter, PlayerEnter (shown g1 i))) (sorted_list_of_set (entered d)) @
       map (\<lambda>i. (kPlayerLeave, PlayerLeave i)) (sorted_list_of_set (left d))
     else (if p2 \<in> stayed d then [(kPlayerMove, PlayerMove p (Some m))] else []) @
       (if p2 \<in> entered d then [(kPlayerEnter, PlayerEnter (shown g1 p))] else []) @
       (if p2 \<in> left d then [(kPlayerLeave, PlayerLeave p)] else []))"
    by (rule messages_to_move[OF inv1 me reports(1-3) _ q2]) (rule reports(4))
  show "learn (messages_to (on_connection_id q2) (move_messages g1 (on_connection_id q1) (on_record q1) m d))
      (known (on_connection_id q2)) = client_view g1 p2"
  proof (cases "p2 = p")
    case True
    have same: "shown g1 i = shown g i" if "i \<in> sees (world g1) p \<union> sees (world g) p" for i
      using that seen_online[OF inv, of i p] seen_online[OF inv1, of i p] by (auto simp: shown1(2))
    have "shown g1 i = Some v \<Longrightarrow> view_player_id v = i" for i v
      using online_connection(2)[OF inv1, of i] by (auto simp: shown_def PlayerById_def)
    then have "\<exists>v. shown g1 i = Some v \<and> view_player_id v = i" if "i \<in> entered d" for i
      using reports(4)[of i] that by (force simp: shown_def PlayerById_def)
    from moved_mirror_self[OF view(1-5) _ _ this same, of "sorted_list_of_set (entered d)" "sorted_list_of_set (left d)"]
    show ?thesis unfolding client_view_def known to True using reports(2,3) by simp
  next
    case False
    have "p \<in> sees (world g) p2 \<longleftrightarrow> p2 \<in> left d \<or> p2 \<in> stayed d"
      using aoi.view_sym[of p "world g" p2] view(2) by blast
    note eq = moved_mirror_other[OF view(6)[OF False] _ _ _ this shown1]
    have "view_player_id (FillView (on_record q)) = p" using online_connection(2)[OF inv on(1)] by simp
    then show ?thesis
      unfolding client_view_def known to if_not_P[OF False] by (rule eq[rotated 3]) (use view(3-5) in auto)
  qed
qed

lemma move_synchronised:
  assumes inv: "game_inv g" and sync: "synchronised g known"
    and res: "HandleMove tr pb c f g = Inr g'"
  shows "\<exists>msgs. emits (Send tr) msgs g g' \<and> synchronised g' (learn_all msgs known)"
  using inv
proof (cases rule: HandleMove_cases[where tr = tr and pb = pb and c = c and f = f])
  case ignored
  then show ?thesis using res sync by (intro exI[of _ "[]"]) (simp add: emits_def)
next
  case (fault pos e)
  then show ?thesis using res by simp
next
  case (moved q m pos d w' g1)
  let ?r = "(on_record q)\<lparr>pr_position_x := msg_x m, pr_position_y := msg_y m\<rparr>"
  let ?msgs = "move_messages g1 c ?r m d"
  note mv = game_inv_online[OF inv moved(1)]
  have sg: "same_game g1 g'"
    using moved(9) res by (auto intro: same_game_trans[OF same_game_send_to_players
        same_game_trans[OF same_game_notify_entered same_game_notify_left]])
  have inv1: "game_inv g1" using HandleMove_keeps[OF inv, of pb f tr c] res same_game_inv[OF sg] by simp
  have w1: "MovePlayer (pr_player_id (on_record q)) pos (world g) = Inr (Some d, world g1)" using moved(4,8) by simp
  have on: "um_find (online_players g) (pr_player_id (on_record q)) = Some q" using mv by simp
  have on1: "um_find (online_players g1) = (um_find (online_players g))(pr_player_id (on_record q) \<mapsto> q\<lparr>on_record := ?r\<rparr>)"
    using moved(8) by simp
  have "synchronised g1 (learn_all ?msgs known)"
    using move_teaches[OF inv inv1 w1 on on1 _ _ sync, of m] mv by simp
  moreover have "emits (Send tr) ?msgs g1 g'"
  proof -
    note reports = move_reports[OF inv inv1 w1 on on1]
    have "um_contains (online_players g1) i" if "i \<in> set (sorted_list_of_set (stayed d)) \<union>
        set (sorted_list_of_set (entered d)) \<union> set (sorted_list_of_set (left d))" for i
      using reports(1-3) reports(4)[of i] that by simp
    from move_loops_emit[OF this, where send = "Send tr" and c = c and moved = ?r and pos = m] show ?thesis using moved(9) res by simp
  qed
  then have "emits (Send tr) ?msgs g g'" using moved(8) by (simp add: emits_def)
  ultimately show ?thesis
    using synchronised_cong[OF _ same_game_lookup(1)[OF sg] same_game_world[OF sg]] by blast
qed

section \<open>Leaving\<close>

lemma disconnect_teaches:
  assumes inv: "game_inv g" and on: "um_find (online_players g) p = Some q"
    and g1: "um_find (online_players g1) = (um_find (online_players g))(p := None)"
    and w1: "RemovePlayer p (world g) = Inr (b, world g1)" and sync: "synchronised g known"
  shows "synchronised g1
    (learn_all (map (\<lambda>i. (connection_of g i, kPlayerLeave, PlayerLeave p)) (sorted_list_of_set (sees (world g) p))) known)"
  unfolding synchronised_def learn_all_def
proof (intro allI impI)
  let ?ids = "sorted_list_of_set (sees (world g) p)"
  fix p2 q2 assume "um_find (online_players g1) p2 = Some q2"
  then have q2: "um_find (online_players g) p2 = Some q2" "p2 \<noteq> p" using g1 by (auto split: if_splits)
  have aoi: "aoi_inv (world g)" using inv by (simp add: game_inv_def)
  have ids: "set ?ids = sees (world g) p" using aoi.finite_view[OF aoi] by simp
  have to: "messages_to (on_connection_id q2) (map (\<lambda>i. (connection_of g i, kPlayerLeave, PlayerLeave p)) ?ids) =
      (if p2 \<in> sees (world g) p then [(kPlayerLeave, PlayerLeave p)] else [])"
    using messages_to_each[OF inv q2(1), of ?ids "\<lambda>_. (kPlayerLeave, PlayerLeave p)"] seen_online[OF inv] by (simp add: ids)
  have "known (on_connection_id q2) = client_view g p2" using sync q2(1) by (simp add: synchronised_def)
  moreover have "shown g1 = (shown g)(p := None)" by (simp add: shown_def PlayerById_def g1 fun_eq_iff)
  moreover have "sees (world g1) p2 = sees (world g) p2 - {p}" by (rule aoi.remove_others[OF aoi w1 q2(2)])
  ultimately show "learn (messages_to (on_connection_id q2)
      (map (\<lambda>i. (connection_of g i, kPlayerLeave, PlayerLeave p)) ?ids)) (known (on_connection_id q2)) = client_view g1 p2"
    unfolding to using aoi.view_sym[of p2 "world g" p] by (auto simp: client_view_def fun_eq_iff)
qed

lemma disconnect_synchronised:
  assumes inv: "game_inv g" and sync: "synchronised g known" and res: "OnDisconnected send c g = Inr g'"
  shows "\<exists>msgs. emits send msgs g g' \<and> synchronised g' (learn_all msgs known)"
  using inv
proof (cases rule: OnDisconnected_cases[where send = send and c = c])
  case (nobody h)
  have "transport h = transport g \<and> online_players h = online_players g \<and> world h = world g"
    using nobody(3) by (elim disjE) (metis GameService.select_convs(1,4,5) GameService.surjective
        GameService.update_convs(7,8), simp)
  then show ?thesis using nobody(2) res synchronised_cong[OF sync, of h]
    by (intro exI[of _ "[]"]) (simp add: emits_def)
next
  case (player p q w' g1 ok pl)
  let ?ids = "sorted_list_of_set (sees (world g) p)"
  let ?h = "send_to_players send kPlayerLeave (PlayerLeave p) ?ids g1"
  let ?msgs = "map (\<lambda>i. (connection_of g i, kPlayerLeave, PlayerLeave p)) ?ids"
  have g': "g' = ?h\<lparr>data_service := pl\<rparr>" using player(10) res by simp
  have "aoi_inv (world g)" using inv by (simp add: game_inv_def)
  then have seen: "um_contains (online_players g) i \<and> i \<noteq> p" if "i \<in> set ?ids" for i
    using aoi.finite_view[of "world g" p] seen_online[OF inv, of i p] that by simp
  then have conn: "map (\<lambda>i. (connection_of g1 i, kPlayerLeave, PlayerLeave p)) ?ids = ?msgs"
    using player(8) by (intro map_cong refl) (simp add: connection_of_def PlayerById_def)
  have "\<forall>i \<in> set ?ids. um_contains (online_players g1) i" using seen player(8) by simp
  from send_to_players_emits[OF this, where send = send and ty = kPlayerLeave and m = "PlayerLeave p"]
  have "emits send ?msgs g g'" unfolding conn using player(8) g' by (simp add: emits_def)
  moreover have "synchronised g1 (learn_all ?msgs known)"
    using player(5,8) by (intro disconnect_teaches[OF inv player(2) _ _ sync]) simp_all
  then have "synchronised g' (learn_all ?msgs known)"
    using same_game_lookup(1)[of g1 ?h] same_game_world[of g1 ?h] g' by (elim synchronised_cong) simp_all
  ultimately show ?thesis by blast
qed

section \<open>Entering\<close>

lemma FailLogin_emits:
  "\<exists>msgs. emits (Send tr) msgs g (FailLogin tr c a e g) \<and> learn_all msgs known = known"
  by (rule exI[of _ "if IsConnected tr (transport g) c then [(c, kLoginResponse, LoginResponse
      \<lparr>lr_success = False, lr_error = e, lr_self = None, lr_nearby_players = [], lr_session_token = ''''\<rparr>)] else []"])
    (simp add: FailLogin_def Let_def emits_def deliver_one learn_all_def fun_eq_iff split: option.splits)

lemma FailLogin_synchronised:
  assumes "synchronised g known"
  shows "\<exists>msgs. emits (Send tr) msgs g (FailLogin tr c a e g) \<and>
    synchronised (FailLogin tr c a e g) (learn_all msgs known)"
proof -
  obtain msgs where "emits (Send tr) msgs g (FailLogin tr c a e g)" "learn_all msgs known = known"
    using FailLogin_emits by blast
  with synchronised_cong[OF assms, of "FailLogin tr c a e g"] show ?thesis by auto
qed

text \<open>A successful entry: the messages, after the change of the state.\<close>

definition login_success :: "PlayerRecord \<Rightarrow> string \<Rightarrow> PlayerId list \<Rightarrow> 't GameService \<Rightarrow> Message" where
  "login_success r tok ids g = LoginResponse
     \<lparr>lr_success = True, lr_error = '''', lr_self = Some (FillView r),
      lr_nearby_players = map (FillView \<circ> on_record) (List.map_filter (\<lambda>i. PlayerById i g) ids),
      lr_session_token = tok\<rparr>"

lemma enter_world_outcome:
  assumes inv: "game_inv g" and res: "enter_world tr c a r tok g = Inr g'"
  obtains (refused) "AddPlayer (pr_player_id r) (record_position r) (world g) = Inr (False, world g)"
      "g' = FailLogin tr c a ''player position is outside the world'' g"
  | (entered) w' where "AddPlayer (pr_player_id r) (record_position r) (world g) = Inr (True, w')" "aoi_inv w'"
      "tracked (world g) (pr_player_id r) = None"
      "tracked w' = (tracked (world g))(pr_player_id r \<mapsto> record_position r)"
      "g' = send_to_players (Send tr) kPlayerEnter (PlayerEnter (Some (FillView r)))
         (sorted_list_of_set (sees w' (pr_player_id r)))
         (send_message (Send tr) c kLoginResponse
            (login_success r tok (sorted_list_of_set (sees w' (pr_player_id r))) (entered_state c a r tok w' g))
            (entered_state c a r tok w' g))"
proof -
  have aoi: "aoi_inv (world g)" using inv by (simp add: game_inv_def)
  obtain b w' where add: "AddPlayer (pr_player_id r) (record_position r) (world g) = Inr (b, w')"
    using res by (auto simp: enter_world_def outcome_bind_Inr_iff)
  show thesis
  proof (cases b)
    case False
    moreover have "w' = world g"
      using add False by (auto simp: AddPlayer_def outcome_bind_Inr_iff Let_def split: if_splits option.splits)
    ultimately show thesis using res add refused by (simp add: enter_world_def)
  next
    case True
    obtain i where "GridIndexFor (world g) (record_position r) = Inr i"
      using add True aoi.add_fault[of "world g" "pr_player_id r" "record_position r"]
        aoi.add_dup[of "world g" "pr_player_id r" "record_position r"]
      by (cases "GridIndexFor (world g) (record_position r)"; cases "tracked (world g) (pr_player_id r)") auto
    then have w': "aoi_inv w'" "tracked (world g) (pr_player_id r) = None"
        "tracked w' = (tracked (world g))(pr_player_id r \<mapsto> record_position r)"
      using aoi.add_total[OF aoi, of "record_position r" i "pr_player_id r"] add True by auto
    have "VisiblePlayers w' (pr_player_id r) = Inr (Some (sees w' (pr_player_id r)))"
      using aoi.visible_law[OF w'(1), of "pr_player_id r"] w'(3) by simp
    then show thesis
      using entered[OF _ w'] res add True
      by (simp add: enter_world_def Let_def optional_value_def entered_state_def login_success_def)
  qed
qed

lemma login_success_type [simp]: "message_type (login_success r tok ids g) = kLoginResponse"
  by (simp add: login_success_def)

lemma nearby_views:
  assumes "game_inv g" "\<And>i. i \<in> set ids \<Longrightarrow> um_contains (online_players g) i"
  shows "map_of (map (\<lambda>v. (view_player_id v, v)) (map (FillView \<circ> on_record) (List.map_filter (\<lambda>i. PlayerById i g) ids))) =
    (\<lambda>i. if i \<in> set ids then shown g i else None)"
  using assms(2)
proof (induction ids)
  case (Cons i ids)
  then obtain q where "um_find (online_players g) i = Some q" by auto
  with Cons online_connection(2)[OF assms(1), of i] show ?case
    by (auto simp: map_filter_simps PlayerById_def shown_def fun_eq_iff)
qed (simp add: map_filter_simps)

lemma enter_teaches:
  assumes inv: "game_inv g" and inv1: "game_inv g1" and off: "um_find (online_players g) (pr_player_id r) = None"
    and on: "um_find (online_players g1) = (um_find (online_players g))(pr_player_id r \<mapsto> me)"
    and me: "on_record me = r" "on_connection_id me = c"
    and add: "AddPlayer (pr_player_id r) pos (world g) = Inr (True, world g1)" and sync: "synchronised g known"
    and ids: "ids = sorted_list_of_set (sees (world g1) (pr_player_id r))"
  shows "synchronised g1 (learn_all ((c, kLoginResponse, login_success r tok ids g1) #
    map (\<lambda>i. (connection_of g1 i, kPlayerEnter, PlayerEnter (Some (FillView r)))) ids) known)"
  unfolding synchronised_def learn_all_def
proof (intro allI impI)
  let ?p = "pr_player_id r"
  let ?enter = "map (\<lambda>i. (connection_of g1 i, kPlayerEnter, PlayerEnter (Some (FillView r)))) ids"
  fix p2 q2 assume q2: "um_find (online_players g1) p2 = Some q2"
  have aoi: "aoi_inv (world g)" "aoi_inv (world g1)" using inv inv1 by (simp_all add: game_inv_def)
  have set: "set ids = sees (world g1) ?p" "distinct ids" using aoi.finite_view[OF aoi(2)] by (simp_all add: ids)
  have seen: "um_contains (online_players g1) i \<and> i \<noteq> ?p" if "i \<in> set ids" for i
    using seen_online[OF inv1, of i ?p] that set(1) by simp
  have c_iff: "c = on_connection_id q2 \<longleftrightarrow> p2 = ?p"
    using connection_of_eq[OF inv1 q2, of ?p] online_connection(1)[OF inv1, of ?p me] on me by auto
  have to: "messages_to (on_connection_id q2) ?enter = (if p2 \<in> set ids then [(kPlayerEnter, PlayerEnter (Some (FillView r)))] else [])"
    using messages_to_each[OF inv1 q2 set(2), of "\<lambda>_. (kPlayerEnter, PlayerEnter (Some (FillView r)))"] seen by simp
  show "learn (messages_to (on_connection_id q2) ((c, kLoginResponse, login_success r tok ids g1) # ?enter))
      (known (on_connection_id q2)) = client_view g1 p2"
  proof (cases "p2 = ?p")
    case True
    then have "p2 \<notin> set ids" using seen by blast
    then show ?thesis
      using True nearby_views[OF inv1, of ids] seen by (simp add: c_iff to login_success_def client_view_def set(1))
  next
    case False
    have "known (on_connection_id q2) = client_view g p2"
      using sync q2 False on by (auto simp: synchronised_def)
    moreover have "shown g1 = (shown g)(?p \<mapsto> FillView r)"
      using on me(1) by (simp add: shown_def PlayerById_def fun_eq_iff)
    moreover have "sees (world g1) p2 - {?p} = sees (world g) p2 - {?p}"
      by (rule aoi.add_others[OF aoi(1) add False])
    moreover have "?p \<notin> sees (world g) p2" using seen_online[OF inv, of ?p p2] off by auto
    ultimately show ?thesis
      using False set(1) aoi.view_sym[of p2 "world g1" ?p]
      by (auto simp: c_iff to client_view_def fun_eq_iff set_eq_iff)
  qed
qed

lemma enter_synchronised:
  assumes inv: "game_inv g" and pc: "um_contains (pending_connections g) c"
    and sync: "synchronised g known" and res: "enter_world tr c a r tok g = Inr g'"
  shows "\<exists>msgs. emits (Send tr) msgs g g' \<and> synchronised g' (learn_all msgs known)"
  using inv res
proof (cases rule: enter_world_outcome)
  case refused
  then show ?thesis using FailLogin_synchronised[OF sync] by simp
next
  case (entered w')
  let ?p = "pr_player_id r"
  let ?ids = "sorted_list_of_set (sees w' ?p)" and ?g1 = "entered_state c a r tok w' g"
  let ?g2 = "send_message (Send tr) c kLoginResponse (login_success r tok ?ids ?g1) ?g1"
  let ?enter = "map (\<lambda>i. (connection_of ?g1 i, kPlayerEnter, PlayerEnter (Some (FillView r)))) ?ids"
  let ?msgs = "(c, kLoginResponse, login_success r tok ?ids ?g1) # ?enter"
  have sg: "same_game ?g1 ?g2" and sg': "same_game ?g1 g'"
    using entered(5) by (auto intro: same_game_trans[OF same_game_send same_game_send_to_players])
  have inv1: "game_inv ?g1" using enter_world_keeps[OF inv pc, of r tr a tok] res same_game_inv[OF sg'] by simp
  have off: "um_find (online_players g) ?p = None" using inv entered(3) by (auto simp: game_inv_def tables_agree_def)
  have w1: "world ?g1 = w'" by (simp add: entered_state_def)
  have "\<forall>i \<in> set ?ids. um_contains (online_players ?g1) i"
    using seen_online[OF inv1, of _ ?p] aoi.finite_view[OF entered(2), of ?p] w1 by simp
  then have "emits (Send tr) ?enter ?g2 g'"
    using send_to_players_emits[of ?ids ?g2 kPlayerEnter "PlayerEnter (Some (FillView r))" "Send tr"] entered(5) by (simp add: same_game_lookup[OF sg])
  moreover have "transport ?g2 = snd (Send tr c kLoginResponse (login_success r tok ?ids ?g1) (transport g))"
    by (simp add: entered_state_def)
  ultimately have "emits (Send tr) ?msgs g g'" by (simp add: emits_def deliver_def)
  moreover have "synchronised ?g1 (learn_all ?msgs known)"
    using off entered(1) w1
    by (intro enter_teaches[OF inv inv1 off _ _ _ _ sync,
          where me = "\<lparr>on_record = r, on_connection_id = c, on_session_token = tok\<rparr>"])
      (simp_all add: entered_state_def)
  ultimately show ?thesis
    using synchronised_cong[OF _ same_game_lookup(1)[OF sg'] same_game_world[OF sg']] by blast
qed

end
