(* ===== verification/Game_Properties.thy ===== *)
theory Game_Properties
  imports Client_Mirror
begin

text \<open>
  Properties of the game service: its tables and the world stay consistent under every sequence of
  events, and clients which apply the messages they are sent know exactly the players their own player sees, with
  their current positions.
\<close>

section \<open>An example game\<close>

text \<open>
  For the witnesses: a transport that records what it is given (as the one of the tests does), and
  a game of the default configuration with two players in neighbouring cells.
\<close>

definition recorder :: "message list GameTransport" where
  "recorder = \<lparr>Send = (\<lambda>c ty m sent. (True, sent @ [(c, ty, m)])), IsConnected = (\<lambda>_ _. True),
     Disconnect = (\<lambda>c g. Inr g)\<rparr>"

lemma recorder_simps [simp]:
  "Send recorder c ty m sent = (True, sent @ [(c, ty, m)])" "IsConnected recorder sent c"
  "Disconnect recorder c g = Inr g"
  by (simp_all add: recorder_def)

interpretation recorder: game_transport recorder
  by unfold_locales (auto simp: recorder_def)

definition example_at :: "u64 \<Rightarrow> string \<Rightarrow> rat \<Rightarrow> rat \<Rightarrow> PlayerRecord" where
  "example_at i a x y = (example_record i a)\<lparr>pr_position_x := DFin x, pr_position_y := DFin y\<rparr>"

lemma example_at_simps [simp]:
  "pr_player_id (example_at i a x y) = i" "pr_account (example_at i a x y) = a"
  "record_position (example_at i a x y) = \<lparr>pos_x = DFin x, pos_y = DFin y\<rparr>"
  by (simp_all add: example_at_def example_record_def record_position_def)

lemma game_inv_new:
  assumes "GameService_new t p cfg draws clock = Inr g" and "unat (rows (gc_aoi cfg)) * unat (columns (gc_aoi cfg)) < 2 ^ 63"
  shows "game_inv g" "um_find (online_players g) = Map.empty" "um_find (pending_connections g) = Map.empty"
    "AoiWorld_new (gc_aoi cfg) = Inr (world g)" "transport g = t" "data_service g = p" "config g = cfg"
    "um_find (connection_players g) = Map.empty" "pending_accounts g = {}"
proof -
  obtain w where w: "AoiWorld_new (gc_aoi cfg) = Inr w" and g: "g = \<lparr>transport = t, data_service = p, config = cfg,
      world = w, online_players = um_empty, connection_players = um_empty, pending_connections = um_empty,
      pending_accounts = {}, random_draws = draws, random_used = 0, clock_ms = clock, clock_used = 0,
      player_sequence = 0\<rparr>"
    using assms(1) by (auto simp: GameService_new_def outcome_bind_Inr_iff)
  have "players w = um_empty"
    using w by (auto simp: AoiWorld_new_def split: if_splits)
  then show "game_inv g"
    using aoi_inv_new[OF w assms(2)] by (simp add: g game_inv_def tables_agree_def tracked_def)
qed (use assms(1) in \<open>auto simp: GameService_new_def outcome_bind_Inr_iff\<close>)

lemma enter_ok:
  assumes inv: "game_inv g" and pc: "um_contains (pending_connections g) c"
    and off: "um_find (online_players g) (pr_player_id r) = None"
    and loc: "GridIndexFor (world g) (record_position r) = Inr (Some i)"
  shows "\<exists>g'. enter_world tr c a r tok g = Inr g' \<and> game_inv g' \<and>
    um_find (online_players g') = (um_find (online_players g))
      (pr_player_id r \<mapsto> \<lparr>on_record = r, on_connection_id = c, on_session_token = tok\<rparr>) \<and>
    um_find (pending_connections g') = (um_find (pending_connections g))(c := None) \<and>
    um_find (connection_players g') = (um_find (connection_players g))(c \<mapsto> pr_player_id r) \<and>
    GridIndexFor (world g') = GridIndexFor (world g)"
proof -
  have tr: "tracked (world g) (pr_player_id r) = None"
    using inv off by (auto simp: game_inv_def tables_agree_def)
  obtain w1 where add: "AddPlayer (pr_player_id r) (record_position r) (world g) = Inr (True, w1)"
    using aoi.add_inside[OF _ tr loc] inv by (auto simp: game_inv_def)
  have k: "keeps {record_position r} g (enter_world tr c a r tok g)" by (rule enter_world_keeps[OF inv pc])
  then obtain g' where g': "enter_world tr c a r tok g = Inr g'" "game_inv g'"
      "GridIndexFor (world g') = GridIndexFor (world g)"
    using loc by (cases "enter_world tr c a r tok g") (auto simp: keeps_def)
  from inv g'(1) show ?thesis
  proof (cases rule: enter_world_outcome)
    case refused
    then show ?thesis using add by simp
  next
    case (entered w')
    have "same_game (entered_state c a r tok w' g) g'"
      using entered(5) by (auto intro: same_game_trans[OF same_game_send same_game_send_to_players])
    then show ?thesis using g' off by (auto simp: same_game_def entered_state_def)
  qed
qed

lemma enter_world_config:
  assumes "enter_world tr c a r tok g = Inr g'"
  shows "config g' = config g" "data_service g' = data_service g"
proof -
  have fin: "config (FailLogin tr c a e g) = config g" "data_service (FailLogin tr c a e g) = data_service g"
    for e and g :: "'a GameService"
    by (simp_all add: FailLogin_def Let_def split: option.splits)
  have "same_game h k \<Longrightarrow> config k = config h \<and> data_service k = data_service h" for h k :: "'a GameService"
    by (auto simp: same_game_def)
  note sends = this[OF same_game_send_to_players]
  show "config g' = config g" "data_service g' = data_service g"
    using assms by (auto simp: enter_world_def outcome_bind_Inr_iff Let_def fin sends split: if_splits)
qed

definition example_pool :: data_pool where
  "example_pool = \<lparr>queue_capacity = 8, tasks = [], workers = [], accepting_tasks = True\<rparr>"

text \<open>Two players with connections 1 and 2 in neighbouring cells, and a login pending on connection 3.\<close>

lemma example_game:
  obtains g :: "'t GameService" where "game_inv g" "config g = default_game_config"
    "um_find (online_players g) =
       [7 \<mapsto> \<lparr>on_record = example_at 7 ''ada'' 150 250, on_connection_id = 1, on_session_token = ''t1''\<rparr>,
        8 \<mapsto> \<lparr>on_record = example_at 8 ''bob'' 50 250, on_connection_id = 2, on_session_token = ''t2''\<rparr>]"
    "um_find (connection_players g) = [1 \<mapsto> 7, 2 \<mapsto> 8]" "um_find (pending_connections g) = [3 \<mapsto> ''cy'']"
    "GridIndexFor (world g) \<lparr>pos_x = DFin 150, pos_y = DFin 250\<rparr> = Inr (Some 21)"
    "GridIndexFor (world g) \<lparr>pos_x = DFin 50, pos_y = DFin 250\<rparr> = Inr (Some 20)"
proof -
  let ?quiet = "\<lparr>Send = (\<lambda>_ _ _ t. (True, t)), IsConnected = (\<lambda>_ _. True), Disconnect = (\<lambda>_. Inr)\<rparr> :: 't GameTransport"
  obtain g0 :: "'t GameService" where new: "GameService_new undefined example_pool default_game_config (\<lambda>_. 0) (\<lambda>_. 0) = Inr g0"
    by (simp add: GameService_new_def default_game_config_def default_world)
  have "unat (rows (gc_aoi default_game_config)) * unat (columns (gc_aoi default_game_config)) < 2 ^ 63"
    by (simp add: default_game_config_def default_aoi_config_def)
  note g0 = game_inv_new[OF new this]
  have aoi: "AoiWorld_new default_aoi_config = Inr (world g0)" using g0(4) by (simp add: default_game_config_def)
  note loc = default_world_examples(1,2)[OF aoi]
  let ?a = "example_at 7 ''ada'' 150 250" and ?b = "example_at 8 ''bob'' 50 250"
  let ?pc = "um_put 3 ''cy'' (um_put 2 ''bob'' (um_put 1 ''ada'' (pending_connections g0)))"
  let ?g = "g0\<lparr>pending_connections := ?pc\<rparr>"
  have inv: "game_inv ?g"
    using g0(1,8) by (simp add: game_inv_def tables_add_pending)
  obtain g1 where g1: "game_inv g1"
      "um_find (online_players g1) = [7 \<mapsto> \<lparr>on_record = ?a, on_connection_id = 1, on_session_token = ''t1''\<rparr>]"
      "um_find (pending_connections g1) = (um_find ?pc)(1 := None)" "um_find (connection_players g1) = [1 \<mapsto> 7]"
      "GridIndexFor (world g1) = GridIndexFor (world g0)" "enter_world ?quiet 1 ''ada'' ?a ''t1'' ?g = Inr g1"
    using enter_ok[OF inv, of 1 ?a 21 ?quiet "''ada''" "''t1''"] loc g0(2,8) by auto
  obtain g2 where g2: "game_inv g2" "enter_world ?quiet 2 ''bob'' ?b ''t2'' g1 = Inr g2"
      "um_find (online_players g2) = (um_find (online_players g1))
        (8 \<mapsto> \<lparr>on_record = ?b, on_connection_id = 2, on_session_token = ''t2''\<rparr>)"
      "um_find (pending_connections g2) = (um_find (pending_connections g1))(2 := None)"
      "um_find (connection_players g2) = (um_find (connection_players g1))(2 \<mapsto> 8)"
      "GridIndexFor (world g2) = GridIndexFor (world g1)"
    using enter_ok[OF g1(1), of 2 ?b 20 ?quiet "''bob''" "''t2''"] loc g1(2,3,5) by auto
  have "config g1 = default_game_config" "config g2 = default_game_config"
    using enter_world_config[OF g1(6)] enter_world_config[OF g2(2)] g0(7) by simp_all
  then show thesis
    using that[of g2] g2 g1 g0(3) loc by (auto simp: fun_eq_iff)
qed

section \<open>Properties of the game service\<close>

text \<open>A codec that reads one given message off every frame of its type.\<close>

definition one_message :: "Message \<Rightarrow> protobuf" where
  "one_message m =
     \<lparr>ByteSizeLong = (\<lambda>_. 0), SerializeToArray = (\<lambda>_ _. Some []),
      ParseFromArray = (\<lambda>kind bytes. if kind = message_type m then Some m else None)\<rparr>"

lemma one_message_parse [simp]:
  "ParseProtobufPayload (one_message m) \<lparr>message_id = ty, payload = []\<rparr> ty ty =
     (if ty = message_type m then Some m else None)"
  by (simp add: ParseProtobufPayload_def one_message_def)

text \<open>
  C5: Whatever frames arrive, completions are drained and connections close, in any order and with
  any answers of the network, the three player tables of a server's game service and its world
  keep describing the same players (\<open>game_inv\<close>). The only way for a run to end otherwise is the
  fault that locating a position gives which a \<open>MoveRequest\<close> or a stored record supplied.
\<close>

theorem game_tables_stay_consistent:
  assumes "GameService_new t p cfg draws clock = Inr g"
    and "unat (rows (gc_aoi cfg)) * unat (columns (gc_aoi cfg)) < 2 ^ 63"
  shows "case game_run (server_transport_ops pb) pb evs g of
      Inr g' \<Rightarrow> game_inv g'
    | Inl e \<Rightarrow> \<exists>ev \<in> set evs. \<exists>pos \<in> event_positions pb ev. GridIndexFor (world g) pos = Inl e"
  using server.game_run_keeps[OF game_inv_new(1)[OF assms], of pb evs pb]
  by (auto simp: keeps_def split: sum.splits)

definition example_server_transport :: server_transport where
  "example_server_transport =
     \<lparr>server_config = default_server_config, listener = 3, bound_port = 9000, wakeup_handle = 5,
      event_loop = \<lparr>callbacks = um_empty, epoll_interest = um_empty, stop_counter = 0, loop_running = True\<rparr>,
      completion_queue = CompletionQueue_new True, wakeup_counter = 0,
      clients = um_empty, connection_descriptors = um_empty, marked_for_close = {},
      next_connection_id = 0, stopped = False, os_table = \<lparr>open_fds = {}, close_calls = []\<rparr>, os_accept = [],
      os_send = (\<lambda>_. []), os_recv = (\<lambda>_. []), os_epoll_ok = (\<lambda>_. True), os_epoll_calls = 0,
      os_taken = (\<lambda>_. [])\<rparr>"

theorem game_tables_stay_consistent_witness:
  "\<exists>g g'. GameService_new example_server_transport example_pool default_game_config (\<lambda>_. 0) (\<lambda>_. 0) = Inr g \<and>
     game_run (server_transport_ops (one_message (LoginRequest ''ada'' ''''))) (one_message (LoginRequest ''ada'' ''''))
       [FrameArrived 1 \<lparr>message_id = kLoginRequest, payload = []\<rparr>, ConnectionClosed 1] g = Inr g' \<and> game_inv g'"
proof -
  let ?pb = "one_message (LoginRequest ''ada'' '''')"
  obtain g where g: "GameService_new example_server_transport example_pool default_game_config (\<lambda>_. 0) (\<lambda>_. 0) = Inr g"
    by (simp add: GameService_new_def default_game_config_def default_world)
  have small: "unat (rows (gc_aoi default_game_config)) * unat (columns (gc_aoi default_game_config)) < 2 ^ 63"
    by (simp add: default_game_config_def default_aoi_config_def)
  have "event_positions ?pb ev = {}"
    if "ev \<in> set [FrameArrived 1 \<lparr>message_id = kLoginRequest, payload = []\<rparr>, ConnectionClosed 1]" for ev
    using that by (auto simp: requested_position_def ParseProtobufPayload_def message_ids)
  with g game_tables_stay_consistent[OF g small, where pb = ?pb and
      evs = "[FrameArrived 1 \<lparr>message_id = kLoginRequest, payload = []\<rparr>, ConnectionClosed 1]"]
  show ?thesis by (auto split: sum.splits)
qed

text \<open>
  With the default configuration no run faults at all, unless a client or the database supplies a
  coordinate that is NaN: if every supplied coordinate is a double other than NaN, every sequence
  of events is processed to its end and the invariant holds there.
\<close>

theorem default_game_runs_to_the_end:
  assumes "GameService_new t p default_game_config draws clock = Inr g"
    and "\<forall>ev \<in> set evs. \<forall>pos \<in> event_positions pb ev. is_double (pos_x pos) \<and> is_double (pos_y pos) \<and>
      pos_x pos \<noteq> DNaN \<and> pos_y pos \<noteq> DNaN"
  shows "\<exists>g'. game_run (server_transport_ops pb) pb evs g = Inr g' \<and> game_inv g'"
proof -
  have small: "unat (rows (gc_aoi default_game_config)) * unat (columns (gc_aoi default_game_config)) < 2 ^ 63"
    by (simp add: default_game_config_def default_aoi_config_def)
  note new = game_inv_new[OF assms(1) small]
  have "AoiWorld_new default_aoi_config = Inr (world g)" using new(4) by (simp add: default_game_config_def)
  then have "GridIndexFor (world g) pos \<noteq> Inl e" if "ev \<in> set evs" "pos \<in> event_positions pb ev" for ev pos e
    using default_locates[of "world g" pos] assms(2) that by fastforce
  with server.game_run_keeps[OF new(1), of pb evs pb] show ?thesis
    by (auto simp: keeps_def split: sum.splits)
qed

theorem default_game_runs_to_the_end_witness:
  "\<exists>g g'. GameService_new example_server_transport example_pool default_game_config (\<lambda>_. 0) (\<lambda>_. 0) = Inr g \<and>
     game_run (server_transport_ops (one_message (MoveRequest (Some \<lparr>msg_x = DInf False, msg_y = DFin 3\<rparr>))))
       (one_message (MoveRequest (Some \<lparr>msg_x = DInf False, msg_y = DFin 3\<rparr>)))
       [FrameArrived 1 \<lparr>message_id = kMoveRequest, payload = []\<rparr>] g = Inr g' \<and> game_inv g'"
proof -
  let ?pb = "one_message (MoveRequest (Some \<lparr>msg_x = DInf False, msg_y = DFin 3\<rparr>))"
  let ?evs = "[FrameArrived 1 \<lparr>message_id = kMoveRequest, payload = []\<rparr>]"
  obtain g where g: "GameService_new example_server_transport example_pool default_game_config (\<lambda>_. 0) (\<lambda>_. 0) = Inr g"
    by (simp add: GameService_new_def default_game_config_def default_world)
  have "\<forall>ev \<in> set ?evs. \<forall>pos \<in> event_positions ?pb ev. is_double (pos_x pos) \<and> is_double (pos_y pos) \<and>
      pos_x pos \<noteq> DNaN \<and> pos_y pos \<noteq> DNaN"
    using representable_int[of 3] by (auto simp: requested_position_def)
  from default_game_runs_to_the_end[OF g this] g show ?thesis by blast
qed

text \<open>
  C6: Clients see what the server sees. When the mirror of every client shows exactly the players that its own
  player sees, with their names and current positions, it still does after a processed \<open>MoveRequest\<close> and after
  applying the messages which that move sent: the \<open>PlayerMove\<close>, \<open>PlayerEnter\<close> and \<open>PlayerLeave\<close> messages to the
  mover and to the others turn each client's mirror into its new view, for any transport.
\<close>

theorem move_keeps_clients_synchronised:
  assumes "game_inv g" and "synchronised g known" and "HandleMove tr pb c f g = Inr g'"
  shows "\<exists>msgs. emits (Send tr) msgs g g' \<and> synchronised g' (learn_all msgs known)"
  using assms by (rule move_synchronised)

lemma synchronised_start:
  assumes "game_inv g"
  shows "synchronised g (\<lambda>c. case um_find (connection_players g) c of Some p \<Rightarrow> client_view g p | None \<Rightarrow> Map.empty)"
  using online_connection(3)[OF assms] by (simp add: synchronised_def)

theorem move_keeps_clients_synchronised_witness:
  "\<exists>g g' known msgs. synchronised g known \<and> um_find (online_players g) \<noteq> Map.empty \<and>
     HandleMove recorder (one_message (MoveRequest (Some \<lparr>msg_x = DFin 50, msg_y = DFin 250\<rparr>))) 1
       \<lparr>message_id = kMoveRequest, payload = []\<rparr> g = Inr g' \<and> g' \<noteq> g \<and>
     emits (Send recorder) msgs g g' \<and> synchronised g' (learn_all msgs known)"
proof -
  let ?pb = "one_message (MoveRequest (Some \<lparr>msg_x = DFin 50, msg_y = DFin 250\<rparr>))"
  let ?f = "\<lparr>message_id = kMoveRequest, payload = []\<rparr>"
  obtain g :: "message list GameService" where g: "game_inv g" and on: "um_find (online_players g) =
       [7 \<mapsto> \<lparr>on_record = example_at 7 ''ada'' 150 250, on_connection_id = 1, on_session_token = ''t1''\<rparr>,
        8 \<mapsto> \<lparr>on_record = example_at 8 ''bob'' 50 250, on_connection_id = 2, on_session_token = ''t2''\<rparr>]"
    and cp: "um_find (connection_players g) = [1 \<mapsto> 7, 2 \<mapsto> 8]"
    and loc: "GridIndexFor (world g) \<lparr>pos_x = DFin 50, pos_y = DFin 250\<rparr> = Inr (Some 20)"
    by (rule example_game)
  have pos: "requested_position ?pb ?f = {\<lparr>pos_x = DFin 50, pos_y = DFin 250\<rparr>}"
    by (simp add: requested_position_def)
  obtain g' where g': "HandleMove recorder ?pb 1 ?f g = Inr g'"
    using HandleMove_keeps[OF g, of ?pb ?f recorder 1] loc
    by (cases "HandleMove recorder ?pb 1 ?f g") (auto simp: keeps_def pos)
  have q: "PlayerForConnection 1 g = Some \<lparr>on_record = example_at 7 ''ada'' 150 250, on_connection_id = 1, on_session_token = ''t1''\<rparr>"
    by (simp add: PlayerForConnection_def on cp)
  have "\<exists>d w'. MovePlayer 7 \<lparr>pos_x = DFin 50, pos_y = DFin 250\<rparr> (world g) = Inr (Some d, w') \<and>
      tracked w' = (tracked (world g))(7 \<mapsto> \<lparr>pos_x = DFin 50, pos_y = DFin 250\<rparr>)"
    using aoi.move_inside[OF _ _ loc, of 7] g online_connection(4)[OF g, of 7] on by (auto simp: game_inv_def)
  then have "tracked (world g') 7 = Some \<lparr>pos_x = DFin 50, pos_y = DFin 250\<rparr>"
    using g' by (auto simp: HandleMove_def q Let_def same_game_world[OF same_game_notify_left]
        same_game_world[OF same_game_notify_entered] same_game_world[OF same_game_send_to_players])
  moreover have "tracked (world g) 7 = Some \<lparr>pos_x = DFin 150, pos_y = DFin 250\<rparr>"
    using online_connection(4)[OF g, of 7] on by simp
  ultimately have "g' \<noteq> g" by auto
  with move_keeps_clients_synchronised[OF g synchronised_start[OF g] g'] g' on synchronised_start[OF g]
  show ?thesis by (metis map_upd_nonempty)
qed

text \<open>
  C7: The same for a player that enters the world at the end of its login: the login response lists
  exactly the players the newcomer sees, where they stand now, and exactly those are told of it.
\<close>

theorem login_keeps_clients_synchronised:
  assumes "game_inv g" and "um_contains (pending_connections g) c" and "synchronised g known"
    and "enter_world tr c account r tok g = Inr g'"
  shows "\<exists>msgs. emits (Send tr) msgs g g' \<and> synchronised g' (learn_all msgs known)"
  using assms by (rule enter_synchronised)

theorem login_keeps_clients_synchronised_witness:
  "\<exists>g g' known msgs. synchronised g known \<and>
     enter_world recorder 3 ''cy'' (example_at 9 ''cy'' 150 250) ''t3'' g = Inr g' \<and>
     um_contains (online_players g') 9 \<and>
     emits (Send recorder) msgs g g' \<and> synchronised g' (learn_all msgs known)"
proof -
  obtain g :: "message list GameService" where g: "game_inv g" and pc: "um_find (pending_connections g) = [3 \<mapsto> ''cy'']"
    and on: "um_find (online_players g) =
       [7 \<mapsto> \<lparr>on_record = example_at 7 ''ada'' 150 250, on_connection_id = 1, on_session_token = ''t1''\<rparr>,
        8 \<mapsto> \<lparr>on_record = example_at 8 ''bob'' 50 250, on_connection_id = 2, on_session_token = ''t2''\<rparr>]"
    and loc: "GridIndexFor (world g) \<lparr>pos_x = DFin 150, pos_y = DFin 250\<rparr> = Inr (Some 21)"
    by (rule example_game)
  have pc3: "um_contains (pending_connections g) 3" using pc by simp
  obtain g' where g': "enter_world recorder 3 ''cy'' (example_at 9 ''cy'' 150 250) ''t3'' g = Inr g'"
      "um_contains (online_players g') 9"
    using enter_ok[OF g pc3, of "example_at 9 ''cy'' 150 250" 21 recorder "''cy''" "''t3''"] on loc by auto
  from login_keeps_clients_synchronised[OF g pc3 synchronised_start[OF g] g'(1)] g' synchronised_start[OF g]
  show ?thesis by blast
qed

text \<open>
  C8: And for a player that leaves: when its connection closes, exactly the players that saw it are
  told, so that the mirrors of the remaining clients are exact again.
\<close>

theorem disconnect_keeps_clients_synchronised:
  assumes "game_inv g" and "synchronised g known"
  shows "\<exists>g' msgs. OnDisconnected send c g = Inr g' \<and> um_find (connection_players g') c = None \<and>
    um_find (pending_connections g') c = None \<and>
    emits send msgs g g' \<and> synchronised g' (learn_all msgs known)"
proof -
  obtain g' where g': "OnDisconnected send c g = Inr g'"
      "um_find (connection_players g') = (um_find (connection_players g))(c := None)"
      "um_find (pending_connections g') = (um_find (pending_connections g))(c := None)"
    using OnDisconnected_keeps[OF assms(1), of send c] by (elim exE conjE) (rule that; assumption)
  with disconnect_synchronised[OF assms g'(1)] show ?thesis by simp
qed

theorem disconnect_keeps_clients_synchronised_witness:
  "\<exists>g g' known msgs. synchronised g known \<and> um_find (connection_players g) 1 = Some 7 \<and>
     OnDisconnected (Send recorder) 1 g = Inr g' \<and> um_find (connection_players g') 1 = None \<and>
     emits (Send recorder) msgs g g' \<and> synchronised g' (learn_all msgs known)"
proof -
  obtain g :: "message list GameService" where g: "game_inv g"
    and cp: "um_find (connection_players g) = [1 \<mapsto> 7, 2 \<mapsto> 8]"
    by (rule example_game)
  from cp have "um_find (connection_players g) 1 = Some 7" by simp
  with disconnect_keeps_clients_synchronised[OF g synchronised_start[OF g], of "Send recorder" 1]
    synchronised_start[OF g]
  show ?thesis by blast
qed

end
