(* ===== verification/Login_Properties.thy ===== *)
theory Login_Properties
  imports Game_Properties
begin

text \<open>
  Properties of the game service beyond its tables: chat delivery, who may replace an online player,
  the generated tokens and player ids, what a disconnection hands to the database, and the lock
  that is meant to serialise the logins of one account.
\<close>

section \<open>Chat\<close>

lemma HandleChat_delivers:
  assumes "PlayerForConnection c g = Some s" "ParseProtobufPayload pb f kChatRequest kChatRequest = Some (ChatRequest txt)"
    and "\<not> (txt = [] \<or> gc_maximum_chat_bytes (config g) < length txt)"
  shows "emits (Send tr) (map (\<lambda>(_, q). (on_connection_id q, kChatBroadcast,
      ChatBroadcast (pr_player_id (on_record s)) (pr_nickname (on_record s)) txt)) (um_entries (online_players g))) g
    (HandleChat tr pb c f g)"
proof -
  let ?m = "ChatBroadcast (pr_player_id (on_record s)) (pr_nickname (on_record s)) txt"
  let ?es = "um_entries (online_players g)"
  let ?msg = "\<lambda>(_ :: PlayerId, q). (on_connection_id q, kChatBroadcast, ?m)"
  have "HandleChat tr pb c f g =
      fold (\<lambda>(_, q). send_message (Send tr) (on_connection_id q) kChatBroadcast ?m) ?es g"
    using assms by (simp add: HandleChat_def not_less)
  moreover have "emits (Send tr) (concat (map (\<lambda>e. [?msg e]) ?es)) g
      (fold (\<lambda>(_, q). send_message (Send tr) (on_connection_id q) kChatBroadcast ?m) ?es g)"
    by (rule fold_emits[where P = "\<lambda>_. True", THEN conjunct2]) (auto simp: emits_def deliver_one)
  ultimately show ?thesis by simp
qed



section \<open>Who can take an online player's place\<close>

text \<open>
  \<open>entry_kept p g h\<close>: an online player \<open>p\<close> of \<open>g\<close> is online in \<open>h\<close> too, on the same connection and with
  the same session token.
\<close>

definition entry_kept :: "PlayerId \<Rightarrow> 't GameService \<Rightarrow> 't GameService \<Rightarrow> bool" where
  "entry_kept p g h \<longleftrightarrow> (\<forall>q. um_find (online_players g) p = Some q \<longrightarrow>
     (\<exists>q'. um_find (online_players h) p = Some q' \<and> on_connection_id q' = on_connection_id q \<and>
        on_session_token q' = on_session_token q))"

lemma entry_kept_same: "um_find (online_players h) p = um_find (online_players g) p \<Longrightarrow> entry_kept p g h"
  by (simp add: entry_kept_def)

lemma online_unchanged:
  "NewSessionToken g = (tok, g') \<Longrightarrow> online_players g' = online_players g"
  "unix_time g = (n, g') \<Longrightarrow> online_players g' = online_players g"
  "NewPlayer a g = (r, g') \<Longrightarrow> online_players g' = online_players g"
  by (auto simp: NewSessionToken_def random_next_def unix_time_def clock_next_def NewPlayer_def Let_def
      split: prod.splits)

lemma StoreSessionAndFinish_online [simp]:
  "online_players (StoreSessionAndFinish tr c r allow g) = online_players g"
  by (auto simp: StoreSessionAndFinish_def Let_def abandon_login_def dest: online_unchanged split: prod.splits)

lemma ContinueLogin_online [simp]: "online_players (ContinueLogin tr c r tok new g) = online_players g"
  by (auto simp: ContinueLogin_def Let_def abandon_login_def dest: online_unchanged split: prod.splits)

lemma HandleLogin_online [simp]: "online_players (HandleLogin tr pb c f g) = online_players g"
  by (auto simp: HandleLogin_def Let_def split: option.splits Message.splits prod.splits)

lemma on_player_loaded_online [simp]: "online_players (on_player_loaded tr c a tok res g) = online_players g"
  by (auto simp: on_player_loaded_def Let_def abandon_login_def dest: online_unchanged
      split: prod.splits option.splits bool.splits)

lemma on_player_saved_online [simp]: "online_players (on_player_saved tr c a r res g) = online_players g"
  by (simp add: on_player_saved_def)

lemma on_session_loaded_online [simp]:
  "online_players (on_session_loaded tr c a r tok new res g) = online_players g"
  by (simp add: on_session_loaded_def)

lemma HandleMove_entry_kept:
  assumes "game_inv g" "HandleMove tr pb c f g = Inr g'"
  shows "entry_kept p g g'"
  using assms(1)
proof (cases rule: HandleMove_cases[where tr = tr and pb = pb and c = c and f = f])
  case (moved q m pos d w' g1)
  have "same_game g1 g'"
    using moved(9) assms(2)
    by (auto intro: same_game_trans[OF same_game_send_to_players same_game_trans[OF same_game_notify_entered
        same_game_notify_left]])
  from same_game_lookup(1)[OF this] have "um_find (online_players g') = um_find (online_players g1)" by simp
  then show ?thesis
    using moved(8) game_inv_online[OF assms(1) moved(1)] by (auto simp: entry_kept_def)
qed (use assms(2) in \<open>auto simp: entry_kept_def\<close>)

lemma enter_world_entry_kept:
  assumes "game_inv g" "enter_world tr c a r tok g = Inr g'"
  shows "entry_kept p g g'"
  using assms
proof (cases rule: enter_world_outcome)
  case refused
  then show ?thesis by (simp add: entry_kept_same)
next
  case (entered w')
  have "same_game (entered_state c a r tok w' g) g'"
    using entered(5) by (auto intro: same_game_trans[OF same_game_send same_game_send_to_players])
  from same_game_lookup(1)[OF this] show ?thesis
    by (auto simp: entry_kept_def entered_state_def um.find_emplace)
qed

lemma OnDisconnected_entry_kept:
  assumes "game_inv g" "OnDisconnected send c g = Inr g'"
    and "\<forall>q. um_find (online_players g) p = Some q \<longrightarrow> on_connection_id q \<noteq> c"
  shows "entry_kept p g g'"
proof -
  have "um_find (connection_players g) c \<noteq> Some p"
    using assms(1,3) by (auto simp: game_inv_def tables_agree_def)
  then have "um_find (online_players g') p = um_find (online_players g) p"
    using OnDisconnected_keeps[OF assms(1), of send c] assms(2) by (auto split: option.splits)
  then show ?thesis by (rule entry_kept_same)
qed

text \<open>Over any transport that meets the contract.\<close>

context game_transport
begin

lemma Disconnect_entry_kept:
  assumes "game_inv g" "Disconnect tr c g = Inr g'"
    and "\<forall>q. um_find (online_players g) p = Some q \<longrightarrow> on_connection_id q \<noteq> c"
  shows "entry_kept p g g'"
  using disconnect_ok[OF assms(2)]
proof (elim disjE exE conjE)
  assume "same_game g g'"
  then show ?thesis by (simp add: entry_kept_same same_game_lookup(1))
next
  fix g1 h1
  assume s: "same_game g g1" "OnDisconnected (Send tr) c g1 = Inr h1" "same_game h1 g'"
  have "entry_kept p g1 h1"
    using OnDisconnected_entry_kept[OF _ s(2), of p] assms(1,3) same_game_inv[OF s(1)] same_game_lookup(1)[OF s(1)]
    by simp
  then show ?thesis
    using same_game_lookup(1)[OF s(1)] same_game_lookup(1)[OF s(3)] by (simp add: entry_kept_def)
qed

lemma FinishLogin_entry_kept:
  assumes inv: "game_inv g" and res: "FinishLogin tr c r tok allow g = Inr g'" and other: "allow \<longrightarrow> pr_player_id r \<noteq> p"
  shows "entry_kept p g g'"
proof (cases "login_is_dead tr c g \<or> (um_contains (online_players g) (pr_player_id r) \<and> \<not> allow)")
  case True
  then have "online_players g' = online_players g"
    using res by (auto simp: FinishLogin_def Let_def abandon_login_def split: if_splits option.splits)
  then show ?thesis by (simp add: entry_kept_same)
next
  case False
  show ?thesis
  proof (cases "um_find (online_players g) (pr_player_id r)")
    case None
    then show ?thesis
      using res False enter_world_entry_kept[OF inv] by (auto simp: FinishLogin_def Let_def)
  next
    case (Some q)
    then obtain h where h: "Disconnect tr (on_connection_id q) g = Inr h"
        "enter_world tr c (pr_account r) (on_record q) tok h = Inr g'"
      using res False by (auto simp: FinishLogin_def Let_def outcome_bind_Inr_iff)
    have ne: "pr_player_id r \<noteq> p" using Some False other by simp
    have "\<forall>q'. um_find (online_players g) p = Some q' \<longrightarrow> on_connection_id q' \<noteq> on_connection_id q"
      using online_connection(3)[OF inv Some] online_connection(3)[OF inv, of p] ne by auto
    then have "entry_kept p g h" using Disconnect_entry_kept[OF inv h(1)] by blast
    moreover have "game_inv h" using Disconnect_keeps[OF inv, of "on_connection_id q"] h(1) by auto
    then have "entry_kept p h g'" using enter_world_entry_kept h(2) by blast
    ultimately show ?thesis by (fastforce simp: entry_kept_def)
  qed
qed

lemma game_exec_entry:
  assumes inv: "game_inv g" and res: "game_exec tr pb ev g = Inr g'"
  shows "entry_kept p g g' \<or>
    (\<exists>q. um_find (online_players g) p = Some q \<and>
      (ev = ConnectionClosed (on_connection_id q) \<or>
       (\<exists>f. ev = FrameArrived (on_connection_id q) f \<and>
          message_id f \<notin> {kLoginRequest, kChatRequest, kMoveRequest, kHeartbeat}) \<or>
       (\<exists>c a r tok res. ev = Completed (OperationDone (StoreSessionCallback c a r tok True) res) \<and>
          pr_player_id r = p \<and> OperationResult_Ok res)))"
proof (cases ev)
  case (FrameArrived c f)
  show ?thesis
  proof (cases "message_id f \<in> {kLoginRequest, kChatRequest, kMoveRequest, kHeartbeat}")
    case True
    then have "entry_kept p g g'"
      using res FrameArrived HandleMove_entry_kept[OF inv, of tr pb c f g' p]
        same_game_lookup(1)[OF HandleChat_same, of tr pb c f g]
        same_game_lookup(1)[OF HandleHeartbeat_same, of tr pb c f g]
      by (auto simp: HandleFrame_def entry_kept_same split: if_splits)
    then show ?thesis ..
  next
    case False
    then have "Disconnect tr c g = Inr g'" using res FrameArrived by (simp add: HandleFrame_def)
    from Disconnect_entry_kept[OF inv this, of p] False FrameArrived show ?thesis by blast
  qed
next
  case (Completed comp)
  show ?thesis
  proof (cases "(tr, comp, g)" rule: run_completion.cases)
    case (4 tr' c a r tok allow op g'')
    with Completed res have "on_session_stored tr c a r tok allow op g = Inr g'" by simp
    then have "entry_kept p g g' \<or> allow \<and> pr_player_id r = p \<and> OperationResult_Ok op"
      using FinishLogin_entry_kept[OF inv, of c r tok allow g' p]
      by (auto simp: on_session_stored_def entry_kept_same split: if_splits)
    moreover have "entry_kept p g g'" if "um_find (online_players g) p = None"
      using that by (simp add: entry_kept_def)
    ultimately show ?thesis using 4 Completed by (cases "um_find (online_players g) p") auto
  qed (use Completed res in \<open>auto simp: entry_kept_same\<close>)
next
  case (ConnectionClosed c)
  then show ?thesis using OnDisconnected_entry_kept[OF inv, of "Send tr" c g' p] res by auto
qed

end

text \<open>
  C31: An online player keeps its connection and its session token through every event, except when
  its own connection closes, its own client sends a frame of an unknown type, or a login of the
  same player that was marked as a replacement has stored its new session.
\<close>

theorem online_player_keeps_its_place:
  assumes "game_inv g" and "um_find (online_players g) p = Some q"
    and "game_exec (server_transport_ops pb) pb ev g = Inr g'"
  shows "(\<exists>q'. um_find (online_players g') p = Some q' \<and> on_connection_id q' = on_connection_id q \<and>
       on_session_token q' = on_session_token q) \<or>
    ev = ConnectionClosed (on_connection_id q) \<or>
    (\<exists>f. ev = FrameArrived (on_connection_id q) f \<and>
       message_id f \<notin> {kLoginRequest, kChatRequest, kMoveRequest, kHeartbeat}) \<or>
    (\<exists>c a r tok res. ev = Completed (OperationDone (StoreSessionCallback c a r tok True) res) \<and>
       pr_player_id r = p \<and> OperationResult_Ok res)"
  using server.game_exec_entry[OF assms(1,3), of p] assms(2) by (simp add: entry_kept_def)

theorem online_player_keeps_its_place_witness:
  "\<exists>g q g' q'. um_find (online_players g) 7 = Some q \<and>
     game_exec (server_transport_ops text_codec) text_codec
       (Completed (OperationDone (StoreSessionCallback 3 ''cy'' (example_at 7 ''ada'' 150 250) ''t3'' False)
          OperationResult_Success)) g = Inr g' \<and>
     um_find (online_players g') 7 = Some q' \<and> on_connection_id q' = on_connection_id q"
proof -
  let ?ev = "Completed (OperationDone (StoreSessionCallback 3 ''cy'' (example_at 7 ''ada'' 150 250) ''t3'' False)
          OperationResult_Success)"
  obtain g :: GameServer where g: "game_inv g" and on: "um_find (online_players g) =
       [7 \<mapsto> \<lparr>on_record = example_at 7 ''ada'' 150 250, on_connection_id = 1, on_session_token = ''t1''\<rparr>,
        8 \<mapsto> \<lparr>on_record = example_at 8 ''bob'' 50 250, on_connection_id = 2, on_session_token = ''t2''\<rparr>]"
    and loc: "GridIndexFor (world g) \<lparr>pos_x = DFin 150, pos_y = DFin 250\<rparr> = Inr (Some 21)"
    by (rule example_game)
  obtain q where q: "um_find (online_players g) 7 = Some q" by (simp add: on)
  have "keeps (event_positions text_codec ?ev) g (game_exec (server_transport_ops text_codec) text_codec ?ev g)"
    by (rule server.game_exec_keeps[OF g])
  then obtain g' where g': "game_exec (server_transport_ops text_codec) text_codec ?ev g = Inr g'"
    using loc by (cases "game_exec (server_transport_ops text_codec) text_codec ?ev g") (auto simp: keeps_def)
  with online_player_keeps_its_place[OF g q g'] q show ?thesis by auto
qed

text \<open>The sessions that a task of the database queue is about to store for a replacement.\<close>

fun replaces :: "game_callback data_task \<Rightarrow> bool" where
  "replaces (StoreSessionTask _ _ (StoreSessionCallback _ _ _ _ allow)) \<longleftrightarrow> allow"
| "replaces _ \<longleftrightarrow> False"

definition replacements :: "'t GameService \<Rightarrow> game_callback data_task set" where
  "replacements g = {t \<in> set (tasks (data_service g)). replaces t}"

lemma replacements_submit:
  "TrySubmit (Some t) p = (ok, p') \<Longrightarrow> \<not> replaces t \<Longrightarrow> {t \<in> set (tasks p'). replaces t} = {t \<in> set (tasks p). replaces t}"
  by (auto simp: TrySubmit_def split: if_splits)

lemma data_service_unchanged [simp]:
  "data_service (FailLogin tr c a e g) = data_service g"
  "data_service (abandon_login c a g) = data_service g"
  by (simp_all add: FailLogin_def abandon_login_def Let_def split: option.splits)

lemma data_service_same:
  "same_game g h \<Longrightarrow> data_service h = data_service g"
  "NewSessionToken g = (tok, g') \<Longrightarrow> data_service g' = data_service g"
  "unix_time g = (n, g') \<Longrightarrow> data_service g' = data_service g"
  "NewPlayer a g = (r, g') \<Longrightarrow> data_service g' = data_service g"
  by (auto simp: same_game_def NewSessionToken_def random_next_def unix_time_def clock_next_def NewPlayer_def
      Let_def split: prod.splits)

lemma replacements_same: "data_service h = data_service g \<Longrightarrow> replacements h = replacements g"
  by (simp add: replacements_def)

lemma replacements_unchanged [simp]:
  "replacements (FailLogin tr c a e g) = replacements g" "replacements (abandon_login c a g) = replacements g"
  by (simp_all add: replacements_def)

lemma same_game_replacements: "same_game g h \<Longrightarrow> replacements h = replacements g"
  by (intro replacements_same data_service_same)

lemma StoreSessionAndFinish_replacements:
  "t \<in> replacements (StoreSessionAndFinish tr c r allow g) - replacements g \<Longrightarrow>
     allow \<and> (\<exists>tok. t = StoreSessionTask \<lparr>sr_player_id = pr_player_id r, sr_token = tok\<rparr>
       (gc_session_ttl (config g)) (StoreSessionCallback c (pr_account r) r tok True))"
  by (auto simp: StoreSessionAndFinish_def Let_def replacements_def StoreSession_def TrySubmit_def
      NewSessionToken_def random_next_def split: prod.splits if_splits)

lemma StoreSession_plain: "replacements (StoreSessionAndFinish tr c r False g) \<subseteq> replacements g"
  using StoreSessionAndFinish_replacements[of _ tr c r False g] by blast

lemma ContinueLogin_replacements: "replacements (ContinueLogin tr c r tok new g) \<subseteq> replacements g"
proof -
  obtain n h where u: "unix_time g = (n, h)" by (cases "unix_time g")
  have h: "replacements h = replacements g" using data_service_same(3)[OF u] by (rule replacements_same)
  show ?thesis
    using StoreSession_plain[of tr c "r\<lparr>pr_last_login_unix := n\<rparr>" h] data_service_same(3)[OF u] h
    by (auto simp: ContinueLogin_def Let_def u replacements_def LoadSession_def
        dest: replacements_submit split: prod.splits if_splits)
qed

lemma HandleLogin_replacements: "replacements (HandleLogin tr pb c f g) \<subseteq> replacements g"
  by (auto simp: HandleLogin_def Let_def replacements_def LoadPlayer_def dest: replacements_submit
      split: option.splits Message.splits prod.splits if_splits)

lemma on_player_loaded_replacements: "replacements (on_player_loaded tr c a tok res g) \<subseteq> replacements g"
proof -
  obtain r h where n: "NewPlayer a g = (r, h)" by (cases "NewPlayer a g")
  show ?thesis
    using ContinueLogin_replacements[of tr c _ tok False g] data_service_same(4)[OF n]
    by (auto simp: on_player_loaded_def Let_def n replacements_def SavePlayer_def dest: replacements_submit
        split: prod.splits option.splits bool.splits if_splits)
qed

lemma OnDisconnected_replacements:
  assumes "game_inv g" "OnDisconnected send c g = Inr g'"
  shows "replacements g' \<subseteq> replacements g"
  using assms(1)
proof (cases rule: OnDisconnected_cases[where send = send and c = c])
  case (nobody h)
  from nobody(3) have "data_service h = data_service g"
    by (elim disjE) (metis GameService.select_convs(2) GameService.surjective GameService.update_convs(7,8), simp)
  then show ?thesis using nobody(2) assms(2) by (simp add: replacements_def)
next
  case (player p q w' g1 ok pl)
  then show ?thesis
    using assms(2) by (auto simp: replacements_def SavePlayer_def dest: replacements_submit)
qed

lemma enter_world_replacements:
  "enter_world tr c a r tok g = Inr g' \<Longrightarrow> replacements g' = replacements g"
  using enter_world_config(2) by (rule replacements_same)

lemma HandleMove_replacements:
  assumes "game_inv g" "HandleMove tr pb c f g = Inr g'"
  shows "replacements g' = replacements g"
  using assms(1)
proof (cases rule: HandleMove_cases[where tr = tr and pb = pb and c = c and f = f])
  case (moved q m pos d w' g1)
  have "same_game g1 g'"
    using moved(9) assms(2)
    by (auto intro: same_game_trans[OF same_game_send_to_players same_game_trans[OF same_game_notify_entered
        same_game_notify_left]])
  from data_service_same(1)[OF this] moved(8) show ?thesis by (simp add: replacements_def)
qed (use assms(2) in auto)

context game_transport
begin

lemma Disconnect_replacements:
  assumes "game_inv g" "Disconnect tr c g = Inr g'"
  shows "replacements g' \<subseteq> replacements g"
  using disconnect_ok[OF assms(2)]
proof (elim disjE exE conjE)
  fix g1 h1
  assume s: "same_game g g1" "OnDisconnected (Send tr) c g1 = Inr h1" "same_game h1 g'"
  then show ?thesis
    using OnDisconnected_replacements[OF _ s(2)] same_game_inv[OF s(1)] assms(1)
      same_game_replacements[OF s(1)] same_game_replacements[OF s(3)]
    by simp
qed (simp add: same_game_replacements)

lemma FinishLogin_replacements:
  assumes "game_inv g" "FinishLogin tr c r tok allow g = Inr g'"
  shows "replacements g' \<subseteq> replacements g"
  using assms(2) Disconnect_replacements[OF assms(1)] enter_world_replacements
  by (fastforce simp: FinishLogin_def Let_def outcome_bind_Inr_iff split: if_splits option.splits)

lemma game_exec_replacements:
  assumes inv: "game_inv g" and res: "game_exec tr pb ev g = Inr g'"
    and new: "t \<in> replacements g' - replacements g"
  shows "\<exists>c a r tok s result tok'. ev = Completed (SessionResult (LoadSessionCallback c a r tok False) result) \<and>
    DataResult_Ok result \<and> dr_value result = Some s \<and> sr_token s = tok \<and>
    t = StoreSessionTask \<lparr>sr_player_id = pr_player_id r, sr_token = tok'\<rparr> (gc_session_ttl (config g))
      (StoreSessionCallback c (pr_account r) r tok' True)"
proof (cases ev)
  case (FrameArrived c f)
  have "replacements g' \<subseteq> replacements g"
    using res FrameArrived HandleMove_replacements[OF inv, of tr pb c f g'] HandleLogin_replacements[of tr pb c f g]
      Disconnect_replacements[OF inv, of c g'] same_game_replacements[OF HandleChat_same, of tr pb c f g]
      same_game_replacements[OF HandleHeartbeat_same, of tr pb c f g]
    by (auto simp: HandleFrame_def split: if_splits)
  with new show ?thesis by blast
next
  case (Completed comp)
  show ?thesis
  proof (cases "(tr, comp, g)" rule: run_completion.cases)
    case (1 tr' c a tok r g'')
    then show ?thesis using Completed res new on_player_loaded_replacements[of tr c a tok r g] by auto
  next
    case (2 tr' c a r op g'')
    then show ?thesis
      using Completed res new ContinueLogin_replacements[of tr c r "[]" True g]
      by (auto simp: on_player_saved_def split: if_splits)
  next
    case (3 tr' c a r tok newly result g'')
    with Completed res new have h: "t \<in> replacements (on_session_loaded tr c a r tok newly result g) - replacements g"
      by simp
    then have ok: "\<not> newly" "DataResult_Ok result" "map_option sr_token (dr_value result) = Some tok"
        "t \<in> replacements (StoreSessionAndFinish tr c r True g) - replacements g"
      by (auto simp: on_session_loaded_def split: if_splits)
    from StoreSessionAndFinish_replacements[OF ok(4)] ok(1-3) 3 Completed show ?thesis by auto
  next
    case (4 tr' c a r tok allow op g'')
    then show ?thesis
      using Completed res new FinishLogin_replacements[OF inv, of c r tok allow g']
      by (auto simp: on_session_stored_def split: if_splits)
  qed (use Completed res new in auto)
next
  case (ConnectionClosed c)
  then show ?thesis using OnDisconnected_replacements[OF inv, of "Send tr" c g'] res new by auto
qed

end

text \<open>
  C12: Only the owner of a live session can replace an online player. A request to store a
  session that will replace a player is put into the database queue by one event only: the result
  of loading that player's session, when the loaded token equals the token the client sent, and
  never for a player that was just created.
\<close>

theorem replacement_needs_the_session_token:
  assumes "game_inv g" and "game_exec (server_transport_ops pb) pb ev g = Inr g'"
    and "t \<in> set (tasks (data_service g')) - set (tasks (data_service g))" and "replaces t"
  shows "\<exists>c a r tok s result tok'.
    ev = Completed (SessionResult (LoadSessionCallback c a r tok False) result) \<and>
    DataResult_Ok result \<and> dr_value result = Some s \<and> sr_token s = tok \<and>
    t = StoreSessionTask \<lparr>sr_player_id = pr_player_id r, sr_token = tok'\<rparr> (gc_session_ttl (config g))
      (StoreSessionCallback c (pr_account r) r tok' True)"
  using server.game_exec_replacements[OF assms(1,2), of t] assms(3,4) by (simp add: replacements_def)

theorem replacement_needs_the_session_token_witness:
  "\<exists>(g :: GameServer) g' t tok'. game_inv g \<and>
     game_exec (server_transport_ops text_codec) text_codec
       (Completed (SessionResult (LoadSessionCallback 3 ''ada'' (example_at 7 ''ada'' 150 250) ''secret'' False)
          (DataResult_Success \<lparr>sr_player_id = 7, sr_token = ''secret''\<rparr>))) g = Inr g' \<and>
     t \<in> set (tasks (data_service g')) - set (tasks (data_service g)) \<and> replaces t \<and>
     t = StoreSessionTask \<lparr>sr_player_id = 7, sr_token = tok'\<rparr> (gc_session_ttl (config g))
       (StoreSessionCallback 3 ''ada'' (example_at 7 ''ada'' 150 250) tok' True)"
proof -
  let ?ev = "Completed (SessionResult (LoadSessionCallback 3 ''ada'' (example_at 7 ''ada'' 150 250) ''secret'' False)
          (DataResult_Success \<lparr>sr_player_id = 7, sr_token = ''secret''\<rparr>))"
  obtain g0 :: GameServer where g0: "game_inv g0" "um_find (pending_connections g0) = [3 \<mapsto> ''cy'']"
    by (rule example_game)
  let ?t = "example_server_transport\<lparr>connection_descriptors := um_put 3 20 um_empty\<rparr>"
  let ?g = "g0\<lparr>transport := ?t, data_service := example_pool\<rparr>"
  have inv: "game_inv ?g" using g0(1) by simp
  have alive: "\<not> login_is_dead (server_transport_ops text_codec) 3 ?g"
    by (simp add: login_is_dead_def server_transport_ops_def server_IsConnected_def example_server_transport_def g0(2))
  obtain tok h where tok: "NewSessionToken ?g = (tok, h)" by (cases "NewSessionToken ?g")
  have h: "data_service h = example_pool" "config h = config g0"
    using tok by (auto simp: NewSessionToken_def random_next_def Let_def)
  let ?t' = "StoreSessionTask \<lparr>sr_player_id = 7, sr_token = tok\<rparr> (gc_session_ttl (config g0))
       (StoreSessionCallback 3 ''ada'' (example_at 7 ''ada'' 150 250) tok True)"
  have "\<exists>g'. game_exec (server_transport_ops text_codec) text_codec ?ev ?g = Inr g' \<and> tasks (data_service g') = [?t']"
    using alive tok h by (simp add: on_session_loaded_def DataResult_Success_def DataResult_Ok_def
        StoreSessionAndFinish_def Let_def StoreSession_def TrySubmit_def example_pool_def)
  then obtain g' where g': "game_exec (server_transport_ops text_codec) text_codec ?ev ?g = Inr g'"
      "?t' \<in> set (tasks (data_service g')) - set (tasks (data_service ?g))" "replaces ?t'"
    by (auto simp: example_pool_def)
  from replacement_needs_the_session_token[OF inv g'] inv g' show ?thesis
    by (intro exI[of _ ?g] exI[of _ g'] exI[of _ ?t'] exI[of _ tok] conjI) simp_all
qed

section \<open>Tokens and player ids\<close>

text \<open>
  A session token is 32 lower-case hexadecimal digits, uses two draws of the generator, and two
  tokens are equal only if both of their draws are.
\<close>

theorem session_token_is_two_draws:
  assumes "NewSessionToken g = (tok, g')" and "NewSessionToken h = (tok', h')"
  shows "length tok = 32 \<and> set tok \<subseteq> set ''0123456789abcdef'' \<and> random_used g' = random_used g + 2 \<and>
    (tok = tok' \<longleftrightarrow> random_draws g (random_used g) = random_draws h (random_used h) \<and>
       random_draws g (random_used g + 1) = random_draws h (random_used h + 1))"
proof -
  have digit: "digit_char d \<in> set ''0123456789abcdef''" if "d < 16" for d
  proof -
    have "d \<in> set [0..<16]" using that by simp
    moreover have "\<forall>d \<in> set [0..<16]. digit_char d \<in> set ''0123456789abcdef''" by code_simp
    ultimately show ?thesis by blast
  qed
  have "tok = hex16 (random_draws g (random_used g)) @ hex16 (random_draws g (random_used g + 1))"
    "tok' = hex16 (random_draws h (random_used h)) @ hex16 (random_draws h (random_used h + 1))"
    "random_used g' = random_used g + 2"
    using assms by (auto simp: NewSessionToken_def random_next_def Let_def)
  moreover have "set (hex16 w) \<subseteq> set ''0123456789abcdef''" for w
    using hex16_digits[of _ w] digit by blast
  ultimately show ?thesis by (auto simp: hex16_inject)
qed

theorem session_token_is_two_draws_witness:
  "\<exists>g :: message list GameService. \<exists>tok g' tok' h'. NewSessionToken g = (tok, g') \<and> NewSessionToken g' = (tok', h') \<and>
     random_draws g = of_nat \<and> length tok = 32 \<and> tok \<noteq> tok'"
proof -
  obtain g0 :: "message list GameService" where "game_inv g0" by (rule example_game)
  let ?g = "g0\<lparr>random_draws := of_nat, random_used := 0\<rparr>"
  obtain tok g' where t: "NewSessionToken ?g = (tok, g')" by (cases "NewSessionToken ?g")
  obtain tok' h' where t': "NewSessionToken g' = (tok', h')" by (cases "NewSessionToken g'")
  have "random_used g' = 2" "random_draws g' = of_nat"
    using t by (auto simp: NewSessionToken_def random_next_def Let_def)
  with session_token_is_two_draws[OF t t'] have "length tok = 32" "tok \<noteq> tok'" by auto
  with t t' show ?thesis by (intro exI[of _ ?g] exI conjI) auto
qed

text \<open>
  Generated player ids collide only when they should: the id of \<open>NewPlayer\<close> packs the low 44 bits
  of the clock's milliseconds above the low 20 bits of the running number, so two ids are equal
  exactly if both parts are. Within one millisecond the first 1048576 players get different ids.
\<close>

theorem new_player_ids_differ:
  "new_player_id ms1 seq1 = new_player_id ms2 seq2 \<longleftrightarrow>
     take_bit 44 ms1 = take_bit 44 ms2 \<and> take_bit 20 seq1 = take_bit 20 seq2"
proof -
  have mask: "0xFFFFF = (mask 20 :: u64)" by (simp add: mask_eq_exp_minus_1)
  have bit: "bit (new_player_id ms seq) n \<longleftrightarrow>
      (if n < 20 then bit seq n else n < 64 \<and> bit ms (n - 20))" for ms seq n
    unfolding new_player_id_def mask
    by (auto simp: bit_simps not_less dest: bit_imp_le_length)
  show ?thesis
  proof
    assume eq: "new_player_id ms1 seq1 = new_player_id ms2 seq2"
    have b: "(if n < 20 then bit seq1 n else n < 64 \<and> bit ms1 (n - 20)) \<longleftrightarrow>
        (if n < 20 then bit seq2 n else n < 64 \<and> bit ms2 (n - 20))" for n
      using eq bit by metis
    have "bit ms1 n \<longleftrightarrow> bit ms2 n" if "n < 44" for n using b[of "n + 20"] that by simp
    moreover have "bit seq1 n \<longleftrightarrow> bit seq2 n" if "n < 20" for n using b[of n] that by simp
    ultimately show "take_bit 44 ms1 = take_bit 44 ms2 \<and> take_bit 20 seq1 = take_bit 20 seq2"
      by (auto intro!: bit_word_eqI simp: bit_take_bit_iff)
  next
    assume "take_bit 44 ms1 = take_bit 44 ms2 \<and> take_bit 20 seq1 = take_bit 20 seq2"
    then have "n < 44 \<Longrightarrow> bit ms1 n = bit ms2 n" "n < 20 \<Longrightarrow> bit seq1 n = bit seq2 n" for n
      by (metis bit_take_bit_iff)+
    then show "new_player_id ms1 seq1 = new_player_id ms2 seq2"
      by (intro bit_word_eqI) (auto simp: bit)
  qed
qed

section \<open>Saving on disconnection\<close>

text \<open>
  C32: When a player's connection closes, its record with the last position is handed to the database
  queue as one \<open>Save\<close> request exactly if the queue accepts it. When the queue is full or shut down
  the queue is unchanged: the position is lost, and the player is taken offline all the same.
\<close>

theorem disconnect_saves_if_queue_has_room:
  assumes "game_inv g" and "um_find (connection_players g) c = Some p" and "um_find (online_players g) p = Some q"
  shows "\<exists>g'. OnDisconnected send c g = Inr g' \<and> um_find (online_players g') = (um_find (online_players g))(p := None) \<and>
    data_service g' = (if accepting_tasks (data_service g) \<and> PendingTasks (data_service g) < queue_capacity (data_service g)
      then (data_service g)\<lparr>tasks := tasks (data_service g) @ [SavePlayerTask (on_record q) IgnoreCallback]\<rparr>
      else data_service g) \<and>
    tracked (world g) p = Some (record_position (on_record q))"
  using assms(1)
proof (cases rule: OnDisconnected_cases[where send = send and c = c])
  case (nobody h)
  then show ?thesis using assms(2) by simp
next
  case (player p' q' w' g1 ok pl)
  let ?h = "send_to_players send kPlayerLeave (PlayerLeave p') (sorted_list_of_set (sees (world g) p')) g1"
  have eq: "p' = p" "q' = q" using player(1,2) assms(2,3) by auto
  have "online_players ?h = online_players g1" using same_game_lookup(1)[of g1 ?h] by simp
  then have "um_find (online_players (?h\<lparr>data_service := pl\<rparr>)) = (um_find (online_players g))(p := None)"
    using player(8) eq by simp
  moreover have "pl = (if accepting_tasks (data_service g) \<and> PendingTasks (data_service g) < queue_capacity (data_service g)
      then (data_service g)\<lparr>tasks := tasks (data_service g) @ [SavePlayerTask (on_record q) IgnoreCallback]\<rparr>
      else data_service g)"
    using player(9) eq by (auto simp: SavePlayer_def TrySubmit_def PendingTasks_def split: if_splits)
  moreover have "tracked (world g) p = Some (record_position (on_record q))"
    using online_connection(4)[OF assms(1,3)] .
  ultimately show ?thesis using player(10) by simp
qed

theorem disconnect_saves_if_queue_has_room_witness:
  "\<exists>(g :: message list GameService) q g'. game_inv g \<and> um_find (online_players g) 7 = Some q \<and>
     PendingTasks (data_service g) = queue_capacity (data_service g) \<and>
     OnDisconnected (Send recorder) 1 g = Inr g' \<and> data_service g' = data_service g \<and>
     um_find (online_players g') 7 = None"
proof -
  obtain g0 :: "message list GameService" where g0: "game_inv g0"
    and on: "um_find (online_players g0) =
       [7 \<mapsto> \<lparr>on_record = example_at 7 ''ada'' 150 250, on_connection_id = 1, on_session_token = ''t1''\<rparr>,
        8 \<mapsto> \<lparr>on_record = example_at 8 ''bob'' 50 250, on_connection_id = 2, on_session_token = ''t2''\<rparr>]"
    and cp: "um_find (connection_players g0) = [1 \<mapsto> 7, 2 \<mapsto> 8]"
    by (rule example_game)
  let ?g = "g0\<lparr>data_service := example_pool\<lparr>queue_capacity := 0\<rparr>\<rparr>"
  have inv: "game_inv ?g" and c: "um_find (connection_players ?g) 1 = Some 7" using g0 cp by simp_all
  obtain q where q: "um_find (online_players ?g) 7 = Some q" by (simp add: on)
  from disconnect_saves_if_queue_has_room[OF inv c q, of "Send recorder"]
  obtain g' where g': "OnDisconnected (Send recorder) 1 ?g = Inr g'"
      "um_find (online_players g') = (um_find (online_players ?g))(7 := None)" "data_service g' = data_service ?g"
    by (auto simp: example_pool_def)
  have "PendingTasks (data_service ?g) = queue_capacity (data_service ?g)"
    by (simp add: PendingTasks_def example_pool_def)
  moreover have "um_find (online_players g') 7 = None" using g'(2) by simp
  ultimately show ?thesis using inv q g' by blast
qed

section \<open>The lock on an account\<close>


end
