(* ===== verification/Server_Properties.thy ===== *)
theory Server_Properties
  imports Login_Properties
begin

text \<open>
  The invariant of the whole server and its properties: connections, sockets, epoll registrations
  and players agree after every callback of the event loop, whatever the kernel answers.
\<close>

section \<open>The invariant of the transport\<close>

text \<open>
  \<open>transport_inv X t\<close>: clients and connection ids correspond one to one; a client's connection is in
  order and its socket is open, and no other client socket is; only open connections are marked; every client is
  registered with the event loop, except for the descriptors \<open>X\<close> that are being closed; the limit on
  connections holds.
\<close>

definition client_ok :: "server_transport \<Rightarrow> int \<Rightarrow> Client \<Rightarrow> bool" where
  "client_ok t d cl \<longleftrightarrow> tcp_descriptor (client_connection cl) = d \<and> 0 \<le> d \<and> output_ok (client_connection cl) \<and>
     tcp_maximum_pending_bytes (client_connection cl) = sc_maximum_pending_bytes (server_config t)"

definition tables_linked :: "(int \<rightharpoonup> Client) \<Rightarrow> (ConnectionId \<rightharpoonup> int) \<Rightarrow> bool" where
  "tables_linked cl ds \<longleftrightarrow> (\<forall>c d. ds c = Some d \<longleftrightarrow> map_option client_id (cl d) = Some c)"

definition registered :: "int set \<Rightarrow> (int \<rightharpoonup> server_callback) \<Rightarrow> int set \<Rightarrow> bool" where
  "registered X cb D \<longleftrightarrow> (\<forall>d \<in> D - X. cb d = Some (ClientCallback d)) \<and>
     (\<forall>d d'. cb d = Some (ClientCallback d') \<longrightarrow> d' = d \<and> d \<in> D)"

definition transport_inv :: "int set \<Rightarrow> server_transport \<Rightarrow> bool" where
  "transport_inv X t \<longleftrightarrow>
     um_invar (clients t) \<and> um_invar (connection_descriptors t) \<and> loop_ok (event_loop t) \<and>
     tables_linked (um_find (clients t)) (um_find (connection_descriptors t)) \<and>
     (\<forall>d cl. um_find (clients t) d = Some cl \<longrightarrow> client_ok t d cl) \<and>
     open_fds (os_table t) = dom (um_find (clients t)) \<and>
     marked_for_close t \<subseteq> dom (um_find (connection_descriptors t)) \<and>
     registered X (um_find (callbacks (event_loop t))) (dom (um_find (clients t))) \<and>
     um_size (clients t) \<le> sc_maximum_connections (server_config t) \<and>
     (\<forall>c \<in> dom (um_find (connection_descriptors t)). c \<le> next_connection_id t)"

lemma transport_inv_irrelevant [simp]:
  "transport_inv X (t\<lparr>os_send := a\<rparr>) = transport_inv X t" "transport_inv X (t\<lparr>os_recv := b\<rparr>) = transport_inv X t"
  "transport_inv X (t\<lparr>os_taken := e\<rparr>) = transport_inv X t" "transport_inv X (t\<lparr>os_epoll_calls := n\<rparr>) = transport_inv X t"
  "transport_inv X (t\<lparr>os_epoll_ok := f\<rparr>) = transport_inv X t" "transport_inv X (t\<lparr>os_accept := h\<rparr>) = transport_inv X t"
  "transport_inv X (t\<lparr>completion_queue := q\<rparr>) = transport_inv X t" "transport_inv X (t\<lparr>stopped := s\<rparr>) = transport_inv X t"
  "transport_inv X (t\<lparr>wakeup_counter := k\<rparr>) = transport_inv X t"
  by (simp_all add: transport_inv_def client_ok_def)

lemma transport_inv_mark:
  "transport_inv X t \<Longrightarrow> um_contains (connection_descriptors t) c \<Longrightarrow> transport_inv X (mark_for_close c t)"
  by (auto simp: transport_inv_def client_ok_def mark_for_close_def)

lemma transport_inv_put:
  assumes "transport_inv X t" "um_find (clients t) d = Some cl" "client_id cl' = client_id cl"
    and "tcp_descriptor conn = d" "output_ok conn"
    "tcp_maximum_pending_bytes conn = tcp_maximum_pending_bytes (client_connection cl)"
  shows "transport_inv X (put_client d cl' conn t)"
proof -
  have dom: "dom (um_find (clients (put_client d cl' conn t))) = dom (um_find (clients t))"
    using assms(2) by auto
  have size: "um_size (clients (put_client d cl' conn t)) = um_size (clients t)"
    using assms(1,2) um.size_put[of "clients t"] by (simp add: transport_inv_def)
  have "tables_linked (um_find (clients (put_client d cl' conn t))) (um_find (connection_descriptors t))"
    using assms(1,2,3) by (simp add: transport_inv_def tables_linked_def)
  with assms size dom show ?thesis
    by (simp add: transport_inv_def client_ok_def put_client_def)
qed

lemma loop_ok_Modify': "loop_ok l \<Longrightarrow> loop_ok (snd (EventLoop_Modify ok d ev l))"
  using loop_ok_Modify[of l ok d ev] by (cases "EventLoop_Modify ok d ev l") simp

lemma EventLoop_Modify_callbacks [simp]: "callbacks (snd (EventLoop_Modify ok d ev l)) = callbacks l"
  by (simp add: EventLoop_Modify_def)

lemma transport_inv_UpdateInterest:
  assumes "transport_inv X t" "um_contains (connection_descriptors t) (client_id cl)"
  shows "transport_inv X (UpdateInterest cl t)"
proof -
  obtain b l where m: "EventLoop_Modify (os_epoll_ok t (os_epoll_calls t)) (tcp_descriptor (client_connection cl))
      (if WantsWrite (client_connection cl) then (EPOLLIN OR EPOLLRDHUP) OR EPOLLOUT else EPOLLIN OR EPOLLRDHUP)
      (event_loop t) = (b, l)" by (rule prod.exhaust)
  let ?t = "t\<lparr>event_loop := l, os_epoll_calls := Suc (os_epoll_calls t)\<rparr>"
  have "loop_ok l" "callbacks l = callbacks (event_loop t)"
    using loop_ok_Modify[OF _ m] assms(1) arg_cong[OF m, of "\<lambda>r. callbacks (snd r)"]
    by (simp_all add: transport_inv_def)
  then have "transport_inv X ?t"
    using assms(1) by (simp add: transport_inv_def client_ok_def)
  then show ?thesis
    using transport_inv_mark[of X ?t "client_id cl"] assms(2) m
    by (cases "WantsWrite (client_connection cl)") (simp_all add: UpdateInterest_def Let_def)
qed

lemma flush_client_inv:
  assumes inv: "transport_inv X t" and cl: "um_find (clients t) d = Some cl" and id: "client_id cl' = client_id cl"
    and conn: "tcp_descriptor (client_connection cl') = d" "output_ok (client_connection cl')"
      "tcp_maximum_pending_bytes (client_connection cl') = tcp_maximum_pending_bytes (client_connection cl)"
    and f: "flush_client d cl' t = (status, cl2, t2)"
  shows "transport_inv X t2" "um_find (clients t2) d = Some cl2" "client_id cl2 = client_id cl"
proof -
  obtain st bytes conn' rest where fl: "Flush (os_send t d) (client_connection cl') = (st, bytes, conn', rest)"
    by (metis prod_cases4)
  note spec = Flush_spec[OF conn(2) fl]
  let ?t = "t\<lparr>os_send := (os_send t)(d := rest), os_taken := (os_taken t)(client_id cl' := os_taken t (client_id cl') @ bytes)\<rparr>"
  have "transport_inv X (put_client d (cl'\<lparr>client_connection := conn'\<rparr>) conn' ?t)"
    using inv cl id spec conn by (intro transport_inv_put[of X ?t d cl]) simp_all
  then show "transport_inv X t2" "um_find (clients t2) d = Some cl2" "client_id cl2 = client_id cl"
    using f fl id by (auto simp: flush_client_def Let_def)
qed

lemma server_Send_inv:
  assumes inv: "transport_inv X t"
  shows "transport_inv X (snd (server_Send pb c ty m t))"
proof (cases "um_find (connection_descriptors t) c")
  case None
  then show ?thesis using inv by (simp add: server_Send_def)
next
  case (Some d)
  then obtain cl where cl: "um_find (clients t) d = Some cl" "client_id cl = c"
    using inv by (auto simp: transport_inv_def tables_linked_def)
  show ?thesis
  proof (cases "EncodeProtobufFrame pb ty m kDefaultMaxPayloadSize")
    case (Inl e)
    then show ?thesis using Some cl transport_inv_mark[OF inv, of c] by (simp add: server_Send_def)
  next
    case (Inr bytes)
    obtain b conn where q: "QueueBytes bytes (client_connection cl) = (b, conn)" by (rule prod.exhaust)
    have ok: "client_ok t d cl" using inv cl by (simp add: transport_inv_def)
    then have conn: "tcp_descriptor conn = d" "output_ok conn"
        "tcp_maximum_pending_bytes conn = tcp_maximum_pending_bytes (client_connection cl)"
      using QueueBytes_spec[of "client_connection cl" bytes] q by (auto simp: client_ok_def)
    let ?t1 = "put_client d cl conn t" and ?cl1 = "cl\<lparr>client_connection := conn\<rparr>"
    have inv1: "transport_inv X ?t1" using transport_inv_put[OF inv cl(1) refl conn] .
    have cl1: "um_find (clients ?t1) d = Some ?cl1" by simp
    obtain status cl2 t2 where f: "flush_client d ?cl1 ?t1 = (status, cl2, t2)" by (rule prod_cases3)
    note fl = flush_client_inv[OF inv1 cl1 refl _ _ _ f]
    have inv2: "transport_inv X t2" "client_id cl2 = c" using fl conn cl(2) by simp_all
    have d2: "connection_descriptors t2 = connection_descriptors t" using flush_client_fields[OF f] by simp
    show ?thesis
      using Some cl(1) Inr q f inv2 d2 transport_inv_mark[OF inv1, of c] transport_inv_mark[OF inv2(1), of c]
        transport_inv_UpdateInterest[OF inv2(1), of cl2]
      by (simp add: server_Send_def Let_def)
  qed
qed

section \<open>Players only on open connections\<close>

text \<open>
  The contract between service and transport, extended: \<open>tinv\<close> is an invariant of the transport that
  sending keeps, \<open>openc\<close> the set of its open connections. A game is \<open>linked\<close> when every
  connection that is logged in or logging in is open.
\<close>

definition linked :: "('t \<Rightarrow> bool) \<Rightarrow> ('t \<Rightarrow> ConnectionId set) \<Rightarrow> 't GameService \<Rightarrow> bool" where
  "linked tinv openc g \<longleftrightarrow> tinv (transport g) \<and>
     dom (um_find (connection_players g)) \<subseteq> openc (transport g) \<and>
     dom (um_find (pending_connections g)) \<subseteq> openc (transport g)"

lemma linked_irrelevant [simp]:
  "linked tinv openc (g\<lparr>data_service := p\<rparr>) = linked tinv openc g"
  "linked tinv openc (g\<lparr>random_used := n\<rparr>) = linked tinv openc g"
  "linked tinv openc (g\<lparr>clock_used := n\<rparr>) = linked tinv openc g"
  "linked tinv openc (g\<lparr>player_sequence := w\<rparr>) = linked tinv openc g"
  "linked tinv openc (g\<lparr>pending_accounts := A\<rparr>) = linked tinv openc g"
  "linked tinv openc (g\<lparr>world := w'\<rparr>) = linked tinv openc g"
  "linked tinv openc (g\<lparr>online_players := onl\<rparr>) = linked tinv openc g"
  by (simp_all add: linked_def)

lemma linked_erase:
  "linked tinv openc g \<Longrightarrow> linked tinv openc (g\<lparr>pending_connections := um_erase c (pending_connections g)\<rparr>)"
  "linked tinv openc g \<Longrightarrow> linked tinv openc (g\<lparr>connection_players := um_erase c (connection_players g)\<rparr>)"
  by (auto simp: linked_def)

lemma linked_abandon: "linked tinv openc g \<Longrightarrow> linked tinv openc (abandon_login c a g)"
  using linked_erase(1)[of tinv openc "g\<lparr>pending_accounts := pending_accounts g - {a}\<rparr>" c]
  by (simp add: abandon_login_def)

lemma linked_counters:
  "NewSessionToken g = (tok, g') \<Longrightarrow> linked tinv openc g' = linked tinv openc g"
  "unix_time g = (n, g') \<Longrightarrow> linked tinv openc g' = linked tinv openc g"
  "NewPlayer a g = (r, g') \<Longrightarrow> linked tinv openc g' = linked tinv openc g"
  by (auto simp: NewSessionToken_def random_next_def unix_time_def clock_next_def NewPlayer_def Let_def
      split: prod.splits)

locale linked_transport = game_transport tr for tr :: "'t GameTransport" +
  fixes tinv :: "'t \<Rightarrow> bool"
    and openc :: "'t \<Rightarrow> ConnectionId set"
  assumes send_tinv: "tinv t \<Longrightarrow> tinv (snd (Send tr c ty m t))"
    and send_open: "tinv t \<Longrightarrow> openc (snd (Send tr c ty m t)) = openc t"
    and connected: "tinv t \<Longrightarrow> IsConnected tr t c \<Longrightarrow> c \<in> openc t"
    and disconnect_linked: "game_inv g \<Longrightarrow> linked tinv openc g \<Longrightarrow> Disconnect tr c g = Inr h \<Longrightarrow> linked tinv openc h"
begin

abbreviation linked_game :: "'t GameService \<Rightarrow> bool" where
  "linked_game \<equiv> linked tinv openc"

definition keeps_open :: "'t \<Rightarrow> 't \<Rightarrow> bool" where
  "keeps_open t u \<longleftrightarrow> (tinv t \<longrightarrow> tinv u \<and> openc u = openc t)"

lemma keeps_open_refl: "keeps_open t t"
  by (simp add: keeps_open_def)

lemma keeps_open_trans: "keeps_open t u \<Longrightarrow> keeps_open u v \<Longrightarrow> keeps_open t v"
  by (simp add: keeps_open_def)

lemma keeps_open_send: "keeps_open t (snd (Send tr c ty m t))"
  by (simp add: keeps_open_def send_tinv send_open)

lemma linked_sent:
  "linked_game g \<Longrightarrow> same_game g h \<Longrightarrow> keeps_open (transport g) (transport h) \<Longrightarrow> linked_game h"
  by (auto simp: linked_def same_game_def keeps_open_def)

lemma linked_send: "linked_game g \<Longrightarrow> linked_game (send_message (Send tr) c ty m g)"
  by (rule linked_sent) (auto simp: keeps_open_send)

lemma linked_fold:
  "(\<And>x g. linked_game g \<Longrightarrow> linked_game (f x g)) \<Longrightarrow> linked_game g \<Longrightarrow> linked_game (fold f xs g)"
  by (induction xs arbitrary: g) auto

lemma linked_send_to_players: "linked_game g \<Longrightarrow> linked_game (send_to_players (Send tr) ty m ids g)"
  unfolding send_to_players_def by (rule linked_fold) (auto simp: linked_send split: option.splits)

lemma linked_notify_entered: "linked_game g \<Longrightarrow> linked_game (notify_entered (Send tr) c r ids g)"
  unfolding notify_entered_def by (rule linked_fold) (auto simp: linked_send split: option.splits)

lemma linked_notify_left: "linked_game g \<Longrightarrow> linked_game (notify_left (Send tr) c p ids g)"
  unfolding notify_left_def by (rule linked_fold) (auto simp: linked_send split: option.splits)

lemma linked_FailLogin: "linked_game g \<Longrightarrow> linked_game (FailLogin tr c a e g)"
  using linked_erase(1)[of tinv openc "g\<lparr>pending_accounts := A\<rparr>" c for A]
  by (simp add: FailLogin_def Let_def linked_send split: option.splits)

lemma linked_StoreSession: "linked_game g \<Longrightarrow> linked_game (StoreSessionAndFinish tr c r allow g)"
  by (auto simp: StoreSessionAndFinish_def Let_def linked_FailLogin linked_abandon
      dest: linked_counters(1)[of _ _ _ tinv openc] split: prod.splits)

lemma linked_ContinueLogin:
  assumes "linked_game g"
  shows "linked_game (ContinueLogin tr c r tok new g)"
proof -
  obtain n h where u: "unix_time g = (n, h)" by (cases "unix_time g")
  then have "linked_game h" using assms linked_counters(2) by blast
  then show ?thesis
    using assms by (auto simp: ContinueLogin_def Let_def u linked_FailLogin linked_abandon linked_StoreSession split: prod.splits)
qed

lemma linked_on_player_loaded:
  assumes "linked_game g"
  shows "linked_game (on_player_loaded tr c a tok res g)"
proof -
  obtain r h where n: "NewPlayer a g = (r, h)" by (cases "NewPlayer a g")
  then have "linked_game h" using assms linked_counters(3) by blast
  then show ?thesis
    using assms by (auto simp: on_player_loaded_def Let_def n linked_FailLogin linked_abandon linked_ContinueLogin
        split: prod.splits option.splits bool.splits)
qed

lemma linked_HandleLogin:
  assumes "linked_game g" "IsConnected tr (transport g) c"
  shows "linked_game (HandleLogin tr pb c f g)"
proof -
  have "linked_game (g\<lparr>pending_connections := um_put c a (pending_connections g)\<rparr>)" for a
    using assms connected by (auto simp: linked_def)
  then show ?thesis
    using assms(1) linked_FailLogin
    by (auto simp: HandleLogin_def Let_def split: option.splits Message.splits prod.splits)
qed

lemma linked_HandleChat: "linked_game g \<Longrightarrow> linked_game (HandleChat tr pb c f g)"
  by (auto simp: HandleChat_def split: option.splits Message.splits intro!: linked_fold linked_send)

lemma linked_HandleMove:
  assumes "game_inv g" "linked_game g" "HandleMove tr pb c f g = Inr g'"
  shows "linked_game g'"
  using assms(1)
proof (cases rule: HandleMove_cases[where tr = tr and pb = pb and c = c and f = f])
  case (moved q m pos d w' g1)
  then have "linked_game g1" using assms(2) by simp
  then show ?thesis
    using moved(9) assms(3) by (auto intro!: linked_notify_left linked_notify_entered linked_send_to_players)
qed (use assms in auto)

lemma linked_OnDisconnected:
  assumes "game_inv g" "linked_game g" "OnDisconnected (Send tr) c g = Inr g'"
  shows "linked_game g'"
proof -
  have "keeps_open (transport g) (transport g')"
    by (rule OnDisconnected_transport[of keeps_open "Send tr" c g g'])
      (auto simp: keeps_open_send keeps_open_refl assms(3) intro: keeps_open_trans)
  moreover have "um_find (connection_players g') = (um_find (connection_players g))(c := None)"
      "um_find (pending_connections g') = (um_find (pending_connections g))(c := None)"
    using OnDisconnected_keeps[OF assms(1), of "Send tr" c] assms(3) by auto
  ultimately show ?thesis using assms(2) by (auto simp: linked_def keeps_open_def)
qed

lemma linked_enter_world:
  assumes "game_inv g" "linked_game g" "um_contains (pending_connections g) c" "enter_world tr c a r tok g = Inr g'"
  shows "linked_game g'"
  using assms(1,4)
proof (cases rule: enter_world_outcome)
  case refused
  then show ?thesis using assms(2) linked_FailLogin by simp
next
  case (entered w')
  have "c \<in> openc (transport g)" using assms(2,3) by (auto simp: linked_def)
  then have "linked_game (entered_state c a r tok w' g)"
    using assms(2) by (auto simp: linked_def entered_state_def)
  then show ?thesis using entered(5) by (simp add: linked_send_to_players linked_send)
qed

lemma linked_FinishLogin:
  assumes inv: "game_inv g" and l: "linked_game g" and res: "FinishLogin tr c r tok allow g = Inr g'"
  shows "linked_game g'"
proof (cases "login_is_dead tr c g")
  case True
  then show ?thesis using l res linked_abandon by (auto simp: FinishLogin_def Let_def)
next
  case False
  then have pc: "um_contains (pending_connections g) c" by (simp add: login_is_dead_def)
  show ?thesis
  proof (cases "um_find (online_players g) (pr_player_id r)")
    case None
    then show ?thesis using False res linked_enter_world[OF inv l pc] by (simp add: FinishLogin_def)
  next
    case (Some q)
    show ?thesis
    proof (cases allow)
      case False
      then show ?thesis using Some \<open>\<not> login_is_dead tr c g\<close> res l linked_FailLogin
        by (auto simp: FinishLogin_def Let_def)
    next
      case True
      then obtain h where h: "Disconnect tr (on_connection_id q) g = Inr h"
          "enter_world tr c (pr_account r) (on_record q) tok h = Inr g'"
        using Some False res by (auto simp: FinishLogin_def Let_def outcome_bind_Inr_iff)
      have "c \<noteq> on_connection_id q"
        using pending_disjoint[OF inv online_connection(3)[OF inv Some]] pc by auto
      then have "game_inv h" "um_contains (pending_connections h) c"
        using Disconnect_keeps[OF inv, of "on_connection_id q"] h(1) pc by auto
      with linked_enter_world disconnect_linked[OF inv l h(1)] h(2) show ?thesis by blast
    qed
  qed
qed

lemma linked_HandleFrame:
  assumes "game_inv g" "linked_game g" "IsConnected tr (transport g) c" "HandleFrame tr pb c f g = Inr g'"
  shows "linked_game g'"
proof -
  have "linked_game (HandleHeartbeat tr pb c f g)"
    using assms(2) by (auto simp: HandleHeartbeat_def linked_send split: option.splits)
  then show ?thesis
    using assms linked_HandleLogin[OF assms(2,3), of pb f] linked_HandleChat[OF assms(2), of pb c f]
      linked_HandleMove[OF assms(1,2)] disconnect_linked[OF assms(1,2)]
    by (auto simp: HandleFrame_def split: if_splits)
qed

lemma linked_run_completion:
  assumes inv: "game_inv g" and l: "linked_game g" and res: "run_completion tr fin g = Inr g'"
  shows "linked_game g'"
proof (cases "(tr, fin, g)" rule: run_completion.cases)
  case (1 tr' c a tok r g'')
  then show ?thesis using res l linked_on_player_loaded by auto
next
  case (2 tr' c a r op g'')
  then show ?thesis using res l linked_ContinueLogin linked_FailLogin by (auto simp: on_player_saved_def split: if_splits)
next
  case (3 tr' c a r tok newly result g'')
  then show ?thesis using res l linked_StoreSession linked_FailLogin by (auto simp: on_session_loaded_def split: if_splits)
next
  case (4 tr' c a r tok allow op g'')
  then show ?thesis using res l inv linked_FinishLogin[of g c r tok allow g'] linked_FailLogin
    by (auto simp: on_session_stored_def split: if_splits)
qed (use res l in auto)

end

section \<open>The server meets the contract\<close>

abbreviation open_connections :: "server_transport \<Rightarrow> ConnectionId set" where
  "open_connections t \<equiv> dom (um_find (connection_descriptors t))"

lemma UpdateInterest_callbacks [simp]:
  "callbacks (event_loop (UpdateInterest cl t)) = callbacks (event_loop t)"
  by (auto simp: UpdateInterest_def EventLoop_Modify_def Let_def)

lemma put_client_loop [simp]: "event_loop (put_client d cl conn t) = event_loop t"
  by (simp add: put_client_def)

lemma server_Send_callbacks [simp]:
  "callbacks (event_loop (snd (server_Send pb c ty m t))) = callbacks (event_loop t)"
  by (auto simp: server_Send_def Let_def dest!: flush_client_fields split: option.splits sum.splits prod.splits)

lemma transport_inv_Remove:
  assumes "transport_inv X t" "X \<subseteq> {d}"
  shows "transport_inv {d} (t\<lparr>event_loop := EventLoop_Remove d (event_loop t)\<rparr>)"
  using assms loop_ok_Remove[of "event_loop t" d]
  by (auto simp: transport_inv_def client_ok_def registered_def EventLoop_Remove_def)

lemma tables_linked_inj:
  "tables_linked cl ds \<Longrightarrow> ds c = Some d \<Longrightarrow> ds c' = Some d \<Longrightarrow> c' = c"
  by (auto simp: tables_linked_def)

lemma tables_linked_erase:
  assumes "tables_linked cl ds" "ds c = Some d"
  shows "tables_linked (cl(d := None)) (ds(c := None))"
  unfolding tables_linked_def
proof (intro allI)
  fix c' d'
  have eq: "ds c' = Some d' \<longleftrightarrow> map_option client_id (cl d') = Some c'" "map_option client_id (cl d) = Some c"
    using assms by (simp_all add: tables_linked_def)
  show "(ds(c := None)) c' = Some d' \<longleftrightarrow> map_option client_id ((cl(d := None)) d') = Some c'"
    using eq assms(2) by (cases "c' = c"; cases "d' = d") auto
qed

lemma registered_drop: "registered {d} cb D \<Longrightarrow> cb d = None \<Longrightarrow> registered {} cb (D - {d})"
  unfolding registered_def by (metis Diff_empty Diff_iff option.distinct(1) singletonD)

lemma transport_inv_forget:
  assumes inv: "transport_inv {d} t" and c: "um_find (connection_descriptors t) c = Some d"
    and cb: "um_find (callbacks (event_loop t)) d = None"
  shows "transport_inv {} (forget_connection c d t)"
proof -
  obtain cl where cl: "um_find (clients t) d = Some cl" "client_id cl = c" "client_ok t d cl"
    using inv c by (auto simp: transport_inv_def tables_linked_def)
  let ?t = "forget_connection c d t"
  have f: "um_find (clients ?t) = (um_find (clients t))(d := None)"
      "um_find (connection_descriptors ?t) = (um_find (connection_descriptors t))(c := None)"
      "marked_for_close ?t = marked_for_close t - {c}" "event_loop ?t = event_loop t" "server_config ?t = server_config t"
      "next_connection_id ?t = next_connection_id t" "um_invar (clients t) \<Longrightarrow> um_invar (clients ?t)"
      "um_invar (connection_descriptors t) \<Longrightarrow> um_invar (connection_descriptors ?t)"
      "open_fds (os_table ?t) = open_fds (os_table t) - {d}"
      "clients ?t = um_erase d (clients t)"
    using cl by (auto simp: forget_connection_def erase_client_def Let_def client_ok_def unique_fd_defs)
  have "um_size (clients ?t) \<le> um_size (clients t)"
    using inv um.size_erase[of "clients t" d] by (auto simp: transport_inv_def f(10))
  moreover have "registered {} (um_find (callbacks (event_loop t))) (dom (um_find (clients t)) - {d})"
    using registered_drop[of d] inv cb by (simp add: transport_inv_def)
  moreover have "client_ok ?t d' cl'" if "((um_find (clients t))(d := None)) d' = Some cl'" for d' cl'
  proof -
    have "um_find (clients t) d' = Some cl'" using that by (simp split: if_splits)
    then show ?thesis using inv f(5) by (simp add: transport_inv_def client_ok_def)
  qed
  moreover have "tables_linked ((um_find (clients t))(d := None)) ((um_find (connection_descriptors t))(c := None))"
    using tables_linked_erase[of "um_find (clients t)"] inv c by (simp add: transport_inv_def)
  ultimately show ?thesis
    using inv f(7,8) unfolding transport_inv_def f(1-6,9) dom_fun_upd by (simp add: Diff_mono)
qed

lemma CloseConnection_linked:
  assumes inv: "game_inv g" and l: "linked (transport_inv X) open_connections g"
    and X: "X \<subseteq> set_option (um_find (connection_descriptors (transport g)) c)" and res: "CloseConnection pb c g = Inr h"
  shows "linked (transport_inv {}) open_connections h"
proof (cases "um_find (connection_descriptors (transport g)) c")
  case None
  then have "h = g\<lparr>transport := (transport g)\<lparr>marked_for_close := marked_for_close (transport g) - {c}\<rparr>\<rparr>"
    using res by (simp add: CloseConnection_def)
  then show ?thesis using l X None by (auto simp: linked_def transport_inv_def client_ok_def)
next
  case (Some d)
  let ?t1 = "(transport g)\<lparr>event_loop := EventLoop_Remove d (event_loop (transport g))\<rparr>"
  let ?g1 = "g\<lparr>transport := ?t1\<rparr>"
  obtain h1 where h1: "OnDisconnected (server_Send pb) c ?g1 = Inr h1"
      "h = h1\<lparr>transport := forget_connection c d (transport h1)\<rparr>"
    using res Some by (auto simp: CloseConnection_def outcome_bind_Inr_iff)
  let ?R = "\<lambda>t u. (transport_inv {d} t \<longrightarrow> transport_inv {d} u) \<and> connection_descriptors u = connection_descriptors t \<and>
    callbacks (event_loop u) = callbacks (event_loop t)"
  have "?R ?t1 (transport h1)"
    using OnDisconnected_transport[of ?R "server_Send pb" c ?g1 h1] h1(1) by (simp add: server_Send_inv)
  moreover have "transport_inv {d} ?t1" using transport_inv_Remove[of X "transport g" d] l X Some by (simp add: linked_def)
  ultimately have t: "transport_inv {d} (transport h1)"
      "connection_descriptors (transport h1) = connection_descriptors (transport g)"
      "um_find (callbacks (event_loop (transport h1))) d = None"
    by (auto simp: EventLoop_Remove_def)
  have "um_find (connection_players h1) = (um_find (connection_players g))(c := None)"
      "um_find (pending_connections h1) = (um_find (pending_connections g))(c := None)"
    using OnDisconnected_keeps[of ?g1 "server_Send pb" c] inv h1(1) by auto
  moreover have "transport_inv {} (forget_connection c d (transport h1))"
    using transport_inv_forget[OF t(1) _ t(3)] t(2) Some by simp
  moreover have "open_connections (forget_connection c d (transport h1)) = open_connections (transport g) - {c}"
    using t(2) by (auto simp: forget_connection_def erase_client_def Let_def)
  ultimately show ?thesis using l h1(2) by (auto simp: linked_def)
qed

interpretation server_link: linked_transport "server_transport_ops pb" "transport_inv {}" open_connections for pb
proof
  fix t c ty m
  assume "transport_inv {} t"
  then show "transport_inv {} (snd (Send (server_transport_ops pb) c ty m t))"
    "open_connections (snd (Send (server_transport_ops pb) c ty m t)) = open_connections t"
    "IsConnected (server_transport_ops pb) t c \<Longrightarrow> c \<in> open_connections t"
    by (auto simp: server_transport_ops_def server_Send_inv server_IsConnected_def)
next
  fix g h c
  assume "game_inv g" "linked (transport_inv {}) open_connections g" "Disconnect (server_transport_ops pb) c g = Inr h"
  then show "linked (transport_inv {}) open_connections h"
    using CloseConnection_linked[of g "{}"] by (simp add: server_transport_ops_def)
qed

section \<open>The invariant of the server\<close>

definition server_inv :: "GameServer \<Rightarrow> bool" where
  "server_inv g \<longleftrightarrow> game_inv g \<and> linked (transport_inv {}) open_connections g"

lemma server_invD:
  "server_inv g \<Longrightarrow> game_inv g" "server_inv g \<Longrightarrow> linked (transport_inv {}) open_connections g"
  "server_inv g \<Longrightarrow> transport_inv {} (transport g)"
  by (simp_all add: server_inv_def linked_def)

lemma server_inv_transport:
  "server_inv g \<Longrightarrow> transport_inv {} t \<Longrightarrow> open_connections t = open_connections (transport g) \<Longrightarrow>
     server_inv (g\<lparr>transport := t\<rparr>)"
  by (simp add: server_inv_def linked_def)

lemma CloseConnection_inv:
  assumes "server_inv g"
  shows "\<exists>h. CloseConnection pb c g = Inr h \<and> server_inv h"
proof -
  obtain h where "CloseConnection pb c g = Inr h" "game_inv h"
    using server.Disconnect_keeps[OF server_invD(1)[OF assms], of pb c] by (auto simp: server_transport_ops_def)
  with CloseConnection_linked[of g "{}" c pb h] assms show ?thesis by (auto simp: server_inv_def)
qed

lemma CloseMarked_inv:
  "server_inv g \<Longrightarrow> \<exists>h. CloseMarkedConnections pb g = Inr h \<and> server_inv h \<and> marked_for_close (transport h) = {}"
proof (induction pb g rule: CloseMarkedConnections.induct)
  case (1 pb g)
  show ?case
  proof (cases "marked_for_close (transport g) = {}")
    case True
    then show ?thesis using "1.prems" by (subst CloseMarkedConnections.simps) simp
  next
    case False
    obtain h where h: "CloseConnection pb (Min (marked_for_close (transport g))) g = Inr h" "server_inv h"
      using CloseConnection_inv[OF "1.prems"] by blast
    from "1.IH"[OF False this] False h(1) show ?thesis by (subst CloseMarkedConnections.simps) simp
  qed
qed

lemma HandleFrame_server_inv:
  assumes "server_inv g" "server_IsConnected (transport g) c" "HandleFrame (server_transport_ops pb) pb c f g = Inr h"
  shows "server_inv h"
  using server.HandleFrame_keeps[OF server_invD(1)[OF assms(1)], of pb f pb c]
    server_link.linked_HandleFrame[OF server_invD(1,2)[OF assms(1)] _ assms(3)] assms
  by (simp add: server_inv_def server_transport_ops_def)

lemma handle_frames_inv:
  "server_inv g \<Longrightarrow> handle_frames pb c fs g = Inr h \<Longrightarrow> server_inv h"
proof (induction fs arbitrary: g)
  case (Cons f fs)
  then show ?case
    using HandleFrame_server_inv[of g c pb f] by (auto simp: outcome_bind_Inr_iff split: if_splits)
qed simp

lemma run_completion_inv:
  assumes "server_inv g" "run_completion (server_transport_ops pb) fin g = Inr h"
  shows "server_inv h"
  using server.game_exec_keeps[OF server_invD(1)[OF assms(1)], of pb "Completed fin" pb]
    server_link.linked_run_completion[OF server_invD(1,2)[OF assms(1)] assms(2)] assms(2)
  by (simp add: server_inv_def)

lemma Drain_inv:
  "server_inv g \<Longrightarrow> Drain n k (run_completion (server_transport_ops pb)) q g = Inr (k', q', h) \<Longrightarrow> server_inv h"
proof (induction n k "run_completion (server_transport_ops pb)" q g rule: Drain.induct)
  case (1 n k q g)
  show ?case
  proof (cases "Drain_pop n k q")
    case None
    then show ?thesis using "1.prems" by (subst (asm) Drain.simps) simp
  next
    case (Some r)
    obtain fin q2 where r: "r = (fin, q2)" by (cases r)
    then obtain g2 where "run_completion (server_transport_ops pb) fin g = Inr g2"
        "Drain n (Suc k) (run_completion (server_transport_ops pb)) q2 g2 = Inr (k', q', h)"
      using Some "1.prems"(2) by (subst (asm) Drain.simps) (auto simp: outcome_bind_Inr_iff)
    with "1.hyps"[OF Some, of fin q2 g2] run_completion_inv[OF "1.prems"(1)] r show ?thesis by blast
  qed
qed

lemma ReadAvailable_fields:
  "ReadAvailable rs c = Inr (st, fs, c', rs') \<Longrightarrow> \<exists>d. c' = c\<lparr>tcp_decoder := d\<rparr>"
proof -
  assume r: "ReadAvailable rs c = Inr (st, fs, c', rs')"
  then obtain pc d rs2 where l: "receive_loop rs (tcp_decoder c) = Inr (pc, d, rs2)"
    by (auto simp: ReadAvailable_def outcome_bind_Inr_iff)
  obtain s2 f2 d2 where "decode_loop d [] = (s2, f2, d2)" by (rule prod_cases3)
  with l r show ?thesis by (cases pc) (auto simp: ReadAvailable_def)
qed

lemma output_ok_decoder [simp]: "output_ok (c\<lparr>tcp_decoder := d\<rparr>) = output_ok c"
  by (simp add: output_ok_def unsent_def)

lemma read_client_inv:
  assumes inv: "server_inv g" and cl: "um_find (clients (transport g)) d = Some cl"
    and res: "read_client pb d cl close g = Inr (close', h)"
  shows "server_inv h"
proof -
  obtain st fs conn rest where r: "ReadAvailable (os_recv (transport g) d) (client_connection cl) = Inr (st, fs, conn, rest)"
    using res by (auto simp: read_client_def outcome_bind_Inr_iff)
  let ?t = "put_client d cl conn ((transport g)\<lparr>os_recv := (os_recv (transport g))(d := rest)\<rparr>)"
  have "client_ok (transport g) d cl" using server_invD(3)[OF inv] cl by (simp add: transport_inv_def)
  then have "transport_inv {} ?t"
    using server_invD(3)[OF inv] cl ReadAvailable_fields[OF r]
    by (intro transport_inv_put[of _ _ d cl]) (auto simp: client_ok_def)
  then have "server_inv (g\<lparr>transport := ?t\<rparr>)" using server_inv_transport[OF inv] by simp
  then show ?thesis
    using res r handle_frames_inv[of "g\<lparr>transport := ?t\<rparr>" pb "client_id cl"]
    by (auto simp: read_client_def Let_def outcome_bind_Inr_iff)
qed

lemma finish_ready_inv:
  assumes inv: "server_inv g" and c: "server_IsConnected (transport g) c"
  shows "\<exists>h. finish_ready pb d c events close g = Inr h \<and> server_inv h \<and> marked_for_close (transport h) = {}"
proof -
  have t: "transport_inv {} (transport g)" by (rule server_invD(3)[OF inv])
  have mark: "server_inv (g\<lparr>transport := mark_for_close c u\<rparr>)"
    if "transport_inv {} u" "connection_descriptors u = connection_descriptors (transport g)" for u
    using server_inv_transport[OF inv, of "mark_for_close c u"] transport_inv_mark[OF that(1), of c] that(2) c
    by (auto simp: server_IsConnected_def)
  show ?thesis
  proof (cases "um_find (clients (transport g)) d")
    case None
    then show ?thesis
      using CloseMarked_inv[OF mark[OF t]] CloseMarked_inv[OF inv] by (auto simp: finish_ready_def Let_def)
  next
    case (Some cl)
    have ok: "client_ok (transport g) d cl" using t Some by (simp add: transport_inv_def)
    have upd: "server_inv (g\<lparr>transport := UpdateInterest cl' u\<rparr>)"
      if "transport_inv {} u" "connection_descriptors u = connection_descriptors (transport g)"
        "client_id cl' = client_id cl" for u cl'
    proof -
      have "um_contains (connection_descriptors u) (client_id cl')"
        using t Some that(2,3) unfolding transport_inv_def tables_linked_def by auto
      from transport_inv_UpdateInterest[OF that(1) this] that(2) show ?thesis
        by (intro server_inv_transport[OF inv]) simp_all
    qed
    obtain status cl2 t2 where f: "flush_client d cl (transport g) = (status, cl2, t2)" by (rule prod_cases3)
    have "transport_inv {} t2" "client_id cl2 = client_id cl"
      using flush_client_inv[OF t Some refl _ _ _ f] ok by (auto simp: client_ok_def)
    then show ?thesis
      using CloseMarked_inv[OF mark[of t2]] CloseMarked_inv[OF upd[of t2 cl2]] CloseMarked_inv[OF mark[OF t]]
        CloseMarked_inv[OF upd[OF t, of cl]] flush_client_fields[OF f] Some
      by (simp add: finish_ready_def Let_def f)
  qed
qed

lemma ClientReady_inv:
  assumes inv: "server_inv g" and res: "ClientReady pb d events g = Inr h"
  shows "server_inv h \<and> (h = g \<or> marked_for_close (transport h) = {})"
proof (cases "um_find (clients (transport g)) d")
  case None
  then show ?thesis using inv res by (simp add: ClientReady_def)
next
  case (Some cl)
  let ?close = "events AND (EPOLLERR OR EPOLLHUP) \<noteq> 0"
  obtain close g1 where g1: "(if events AND EPOLLIN \<noteq> 0 then read_client pb d cl ?close g else Inr (?close, g)) = Inr (close, g1)"
      "(if \<not> server_IsConnected (transport g1) (client_id cl) then CloseMarkedConnections pb g1
        else finish_ready pb d (client_id cl) events close g1) = Inr h"
    using res Some by (auto simp: ClientReady_def Let_def outcome_bind_Inr_iff)
  have "server_inv g1"
    using g1(1) inv read_client_inv[OF inv Some, of pb ?close close g1] by (auto split: if_splits)
  then show ?thesis
    using g1(2) CloseMarked_inv[of g1 pb] finish_ready_inv[of g1 "client_id cl" pb d events close]
    by (auto split: if_splits)
qed

section \<open>Accepting\<close>

text \<open>
  What the kernel guarantees of a descriptor that \<open>accept4\<close> returns: it is not open, so it is neither a
  client's nor one of the descriptors registered with epoll. The connection counter is 64 bits wide;
  the second condition says that it has not run out.
\<close>

definition acceptable :: "int \<Rightarrow> server_transport \<Rightarrow> bool" where
  "acceptable d t \<longleftrightarrow> 0 \<le> d \<and> d \<notin> open_fds (os_table t) \<and> um_find (callbacks (event_loop t)) d = None \<and>
     next_connection_id t + 1 \<noteq> 0"

lemma next_id_fresh: "(n :: u64) + 1 \<noteq> 0 \<Longrightarrow> c \<le> n \<Longrightarrow> c < n + 1"
  by (simp add: word_less_nat_alt word_le_nat_alt unatSuc add.commute)

lemma tables_linked_add:
  assumes "tables_linked cl ds" "cl d = None" "ds (client_id k) = None"
  shows "tables_linked (cl(d \<mapsto> k)) (ds(client_id k \<mapsto> d))"
  unfolding tables_linked_def
proof (intro allI)
  fix c' d'
  have eq: "ds c' = Some d' \<longleftrightarrow> map_option client_id (cl d') = Some c'"
    using assms(1) by (simp add: tables_linked_def)
  show "(ds(client_id k \<mapsto> d)) c' = Some d' \<longleftrightarrow> map_option client_id ((cl(d \<mapsto> k)) d') = Some c'"
    using eq assms(2,3) by (cases "c' = client_id k"; cases "d' = d") auto
qed

text \<open>A client that is put into the tables, registered (\<open>X\<close> empty) or not.\<close>

lemma transport_inv_accept:
  assumes inv: "transport_inv {} t" and d: "acceptable d t" and room: "um_size (clients t) < sc_maximum_connections (server_config t)"
    and k: "client_id k = next_connection_id t + 1" "client_ok t d k"
    and l: "loop_ok l" "registered X (um_find (callbacks l)) (insert d (dom (um_find (clients t))))"
    and t': "t' = t\<lparr>os_table := (os_table t)\<lparr>open_fds := insert d (open_fds (os_table t))\<rparr>,
      next_connection_id := next_connection_id t + 1, clients := um_emplace d k (clients t),
      connection_descriptors := um_put (client_id k) d (connection_descriptors t), event_loop := l,
      os_epoll_calls := n\<rparr>"
  shows "transport_inv X t'"
proof -
  have new: "um_find (clients t) d = None" using inv d by (auto simp: transport_inv_def acceptable_def)
  have old: "c < client_id k" if "c \<in> open_connections t" for c
    using inv that next_id_fresh[of "next_connection_id t" c] d k(1) unfolding transport_inv_def acceptable_def by simp
  then have fresh: "um_find (connection_descriptors t) (client_id k) = None" by fastforce
  have cl: "um_find (clients t') = (um_find (clients t))(d \<mapsto> k)"
      "clients t' = um_put d k (clients t)"
      "um_find (connection_descriptors t') = (um_find (connection_descriptors t))(client_id k \<mapsto> d)"
      "connection_descriptors t' = um_put (client_id k) d (connection_descriptors t)"
      "next_connection_id t' = client_id k" "server_config t' = server_config t" "event_loop t' = l"
      "marked_for_close t' = marked_for_close t" "open_fds (os_table t') = insert d (open_fds (os_table t))"
    using new k(1) by (simp_all add: t' um_emplace_def)
  have "um_size (clients t') = Suc (um_size (clients t))"
    using um.size_put[of "clients t" d k] new inv by (simp add: cl(2) transport_inv_def)
  moreover have "client_ok t' d' k'" if "((um_find (clients t))(d \<mapsto> k)) d' = Some k'" for d' k'
    using that inv k(2) cl(6) by (auto simp: transport_inv_def client_ok_def split: if_splits)
  moreover have "tables_linked ((um_find (clients t))(d \<mapsto> k)) ((um_find (connection_descriptors t))(client_id k \<mapsto> d))"
    using tables_linked_add[of "um_find (clients t)" "um_find (connection_descriptors t)" d k] new fresh inv
    by (simp add: transport_inv_def)
  moreover have "\<forall>c \<in> insert (client_id k) (open_connections t). c \<le> client_id k"
    using old by (auto intro: less_imp_le)
  moreover have "marked_for_close t \<subseteq> insert (client_id k) (open_connections t)"
    using inv by (auto simp: transport_inv_def)
  ultimately show ?thesis
    using inv room l unfolding transport_inv_def cl(1,3,5-9) by (simp add: cl(2,4))
qed

lemma CloseConnection_nobody:
  assumes "game_inv g" "um_find (connection_players g) c = None" "CloseConnection pb c g = Inr h"
  shows "marked_for_close (transport h) \<subseteq> marked_for_close (transport g)"
proof (cases "um_find (connection_descriptors (transport g)) c")
  case None
  then show ?thesis using assms(3) by (auto simp: CloseConnection_def)
next
  case (Some d)
  let ?g1 = "g\<lparr>transport := (transport g)\<lparr>event_loop := EventLoop_Remove d (event_loop (transport g))\<rparr>\<rparr>"
  have inv1: "game_inv ?g1" using assms(1) by simp
  have "transport h1 = transport ?g1" if "OnDisconnected (server_Send pb) c ?g1 = Inr h1" for h1
    using that assms(2) by (auto simp: OnDisconnected_def Let_def split: option.splits)
  moreover obtain h1 where "OnDisconnected (server_Send pb) c ?g1 = Inr h1"
      "h = h1\<lparr>transport := forget_connection c d (transport h1)\<rparr>"
    using assms(3) Some by (auto simp: CloseConnection_def outcome_bind_Inr_iff)
  ultimately have "transport h = forget_connection c d (transport ?g1)" by simp
  then show ?thesis by (simp add: forget_connection_def erase_client_def Let_def)
qed

lemma registered_add:
  "registered {} cb D \<Longrightarrow> registered {} (cb(d \<mapsto> ClientCallback d)) (insert d D)"
  "registered {} cb D \<Longrightarrow> registered {d} cb (insert d D)"
  by (simp_all add: registered_def)

lemma TcpConnection_new_fields:
  "TcpConnection_new d n = Inr conn \<Longrightarrow> tcp_descriptor conn = d \<and> tcp_maximum_pending_bytes conn = n \<and> 0 \<le> d"
  by (auto simp: TcpConnection_new_def outcome_bind_Inr_iff split: if_splits)

lemma EventLoop_Add_cases:
  assumes "EventLoop_Add ok d ev (Some cb) l = (added, l')"
  shows "um_find (callbacks l') = (if added then (um_find (callbacks l))(d \<mapsto> cb) else um_find (callbacks l))"
  using assms by (auto simp: EventLoop_Add_def split: if_splits)

definition accepted_transport :: "int \<Rightarrow> Client \<Rightarrow> server_callback EventLoop \<Rightarrow> server_transport \<Rightarrow> server_transport" where
  "accepted_transport d k l t =
     t\<lparr>os_table := (os_table t)\<lparr>open_fds := insert d (open_fds (os_table t))\<rparr>,
       next_connection_id := next_connection_id t + 1, clients := um_emplace d k (clients t),
       connection_descriptors := um_put (client_id k) d (connection_descriptors t), event_loop := l,
       os_epoll_calls := Suc (os_epoll_calls t)\<rparr>"

text \<open>
  The ways an accepted descriptor can go: it is closed at once because the table is full; or its client is put into the
  tables, and then either registered with the event loop or closed.
\<close>

lemma accept_one_cases:
  assumes t: "transport_inv {} (transport g)" and d: "acceptable d (transport g)" and res: "accept_one pb d g = Inr h"
  obtains (full) "h = at_transport (\<lambda>t. t\<lparr>os_table := (os_table t)\<lparr>close_calls := close_calls (os_table t) @ [d]\<rparr>\<rparr>) g"
  | (connected) conn k added l where "TcpConnection_new d (sc_maximum_pending_bytes (server_config (transport g))) = Inr conn"
      "k = \<lparr>client_id = next_connection_id (transport g) + 1, client_connection = conn\<rparr>"
      "transport_inv (if added then {} else {d}) (accepted_transport d k l (transport g))"
      "(if added then Inr (g\<lparr>transport := accepted_transport d k l (transport g)\<rparr>)
        else CloseConnection pb (client_id k) (g\<lparr>transport := accepted_transport d k l (transport g)\<rparr>)) = Inr h"
proof (cases "um_size (clients (transport g)) \<ge> sc_maximum_connections (server_config (transport g))")
  case True
  then show thesis using res d full by (simp add: accept_one_def Let_def unique_fd_defs acceptable_def)
next
  case False
  let ?t = "transport g" and ?c = "next_connection_id (transport g) + 1"
  obtain conn where conn: "TcpConnection_new d (sc_maximum_pending_bytes (server_config ?t)) = Inr conn"
    using res False by (auto simp: accept_one_def Let_def outcome_bind_Inr_iff)
  let ?k = "\<lparr>client_id = ?c, client_connection = conn\<rparr>"
  obtain added l where a: "EventLoop_Add (os_epoll_ok ?t (os_epoll_calls ?t)) d (EPOLLIN OR EPOLLRDHUP)
      (Some (ClientCallback d)) (event_loop ?t) = (added, l)" by (rule prod.exhaust)
  have k: "client_ok ?t d ?k"
    using TcpConnection_new_fields[OF conn] output_ok_new[OF conn] by (simp add: client_ok_def)
  have l: "loop_ok l" using loop_ok_Add[OF _ a] t by (simp add: transport_inv_def)
  have "registered {} (um_find (callbacks (event_loop ?t))) (dom (um_find (clients ?t)))"
    using t by (simp add: transport_inv_def)
  from registered_add[OF this, of d]
  have "registered (if added then {} else {d}) (um_find (callbacks l)) (insert d (dom (um_find (clients ?t))))"
    unfolding EventLoop_Add_cases[OF a] by (cases added) simp_all
  then have "transport_inv (if added then {} else {d}) (accepted_transport d ?k l ?t)"
    using False by (intro transport_inv_accept[OF t d _ _ k l]) (simp_all add: accepted_transport_def)
  moreover have "(if added then Inr (g\<lparr>transport := accepted_transport d ?k l ?t\<rparr>)
      else CloseConnection pb ?c (g\<lparr>transport := accepted_transport d ?k l ?t\<rparr>)) = Inr h"
    using res False conn a TcpConnection_new_fields[OF conn]
    by (cases added) (simp_all add: accept_one_def Let_def accepted_transport_def)
  ultimately show thesis using connected[OF conn refl, of added l] by (cases added) simp_all
qed

lemma fresh_connection:
  assumes "transport_inv X t" "acceptable d t"
  shows "next_connection_id t + 1 \<notin> open_connections t"
proof
  assume "next_connection_id t + 1 \<in> open_connections t"
  then have "next_connection_id t + 1 \<le> next_connection_id t" using assms(1) unfolding transport_inv_def by blast
  from next_id_fresh[OF _ this] show False using assms(2) by (simp add: acceptable_def)
qed

lemma accept_one_inv:
  assumes inv: "server_inv g" and d: "acceptable d (transport g)" and res: "accept_one pb d g = Inr h"
  shows "server_inv h \<and> marked_for_close (transport h) \<subseteq> marked_for_close (transport g)"
  using server_invD(3)[OF inv] d res
proof (cases rule: accept_one_cases)
  case full
  have "transport_inv {} (transport h)" using server_invD(3)[OF inv] by (simp add: full transport_inv_def client_ok_def)
  then show ?thesis using server_inv_transport[OF inv] by (simp add: full)
next
  case (connected conn k added l)
  let ?t = "accepted_transport d k l (transport g)" and ?c = "next_connection_id (transport g) + 1"
  have oc: "open_connections ?t = insert ?c (open_connections (transport g))" "marked_for_close ?t = marked_for_close (transport g)"
    by (auto simp: accepted_transport_def connected(2))
  have link: "linked (transport_inv (if added then {} else {d})) open_connections (g\<lparr>transport := ?t\<rparr>)"
    using server_invD(2)[OF inv] connected(3) unfolding linked_def by (simp add: oc(1) subset_insertI2)
  show ?thesis
  proof (cases added)
    case True
    then have "h = g\<lparr>transport := ?t\<rparr>" using connected(4) by simp
    then show ?thesis using True link server_invD(1)[OF inv] oc(2) by (simp add: server_inv_def)
  next
    case False
    then have c: "CloseConnection pb ?c (g\<lparr>transport := ?t\<rparr>) = Inr h" using connected(2,4) by simp
    have "um_find (connection_players g) ?c = None"
      using fresh_connection[OF server_invD(3)[OF inv] d] server_invD(2)[OF inv] by (auto simp: linked_def)
    then have "marked_for_close (transport h) \<subseteq> marked_for_close (transport g)"
      using CloseConnection_nobody[OF _ _ c] server_invD(1)[OF inv] oc(2) by simp
    moreover have "linked (transport_inv {}) open_connections h"
      using CloseConnection_linked[OF _ link _ c] server_invD(1)[OF inv] False connected(2) by (simp add: accepted_transport_def)
    moreover have "game_inv h"
      using server.Disconnect_keeps[of "g\<lparr>transport := ?t\<rparr>" pb ?c] server_invD(1)[OF inv] c
      by (auto simp: server_transport_ops_def)
    ultimately show ?thesis by (simp add: server_inv_def)
  qed
qed

text \<open>Every descriptor that a run of \<open>AcceptReady\<close> gets is acceptable when it gets it.\<close>

fun kernel_accepts :: "protobuf \<Rightarrow> accept_result list \<Rightarrow> GameServer \<Rightarrow> bool" where
  "kernel_accepts pb (Accepted d # rs) g \<longleftrightarrow> acceptable d (transport g) \<and>
     (case accept_one pb d g of Inl _ \<Rightarrow> True | Inr h \<Rightarrow> kernel_accepts pb rs h)"
| "kernel_accepts pb (AcceptInterrupted # rs) g \<longleftrightarrow> kernel_accepts pb rs g"
| "kernel_accepts pb _ g \<longleftrightarrow> True"

lemma accept_loop_inv:
  "server_inv g \<Longrightarrow> kernel_accepts pb rs g \<Longrightarrow> accept_loop pb rs g = Inr h \<Longrightarrow>
     server_inv h \<and> marked_for_close (transport h) \<subseteq> marked_for_close (transport g)"
proof (induction pb rs g rule: accept_loop.induct)
  case (5 pb d rs g)
  then obtain h1 where h1: "accept_one pb d g = Inr h1" "accept_loop pb rs h1 = Inr h"
    by (auto simp: outcome_bind_Inr_iff)
  then have "server_inv h1" "marked_for_close (transport h1) \<subseteq> marked_for_close (transport g)" "kernel_accepts pb rs h1"
    using accept_one_inv[OF "5.prems"(1) _ h1(1)] "5.prems"(2) by auto
  with "5.IH"[OF h1(1)] h1(2) show ?case by blast
qed (auto intro: server_inv_transport simp: server_invD(3))

lemma WakeupReady_inv:
  assumes "server_inv g" "WakeupReady pb is g = Inr h"
  shows "server_inv h \<and> marked_for_close (transport h) = {}"
proof -
  let ?g = "g\<lparr>transport := (transport g)\<lparr>wakeup_counter := Consume is (wakeup_counter (transport g))\<rparr>\<rparr>"
  obtain k q g1 where d: "Drain (2 ^ 64 - 1) 0 (run_completion (server_transport_ops pb))
        (completion_queue (transport ?g)) ?g = Inr (k, q, g1)"
      "CloseMarkedConnections pb (g1\<lparr>transport := (transport g1)\<lparr>completion_queue := q\<rparr>\<rparr>) = Inr h"
    using assms(2) unfolding WakeupReady_def Let_def outcome_bind_Inr_iff by auto
  have "server_inv ?g" using server_inv_transport[OF assms(1)] server_invD(3)[OF assms(1)] by simp
  then have "server_inv g1" using Drain_inv d(1) by blast
  then have "server_inv (g1\<lparr>transport := (transport g1)\<lparr>completion_queue := q\<rparr>\<rparr>)"
    using server_inv_transport server_invD(3) by simp
  from CloseMarked_inv[OF this, of pb] d(2) show ?thesis by auto
qed

section \<open>The running server\<close>

text \<open>
  One step of the server as a system: the event loop dispatches an event to the callback that is
  registered for the descriptor; a worker thread pushes a completion and notifies; another thread or
  a signal handler calls \<open>Stop\<close>; or the kernel's future answers change, in any way. A callback that
  throws or is undefined ends the run and has no step.
\<close>

inductive server_step :: "protobuf \<Rightarrow> GameServer \<Rightarrow> GameServer \<Rightarrow> bool" for pb where
  dispatch: "um_find (callbacks (event_loop (transport g))) d = Some cb \<Longrightarrow>
    (cb = AcceptCallback \<longrightarrow> kernel_accepts pb (os_accept (transport g)) g) \<Longrightarrow>
    invoke_callback pb cb events g = Inr h \<Longrightarrow> server_step pb g h"
| worker: "Push (Some completion) (completion_queue (transport g)) = (b, q) \<Longrightarrow>
    server_step pb g (at_transport (\<lambda>t. t\<lparr>completion_queue := q,
      wakeup_counter := (if b then Notify is (wakeup_counter t) else wakeup_counter t)\<rparr>) g)"
| pool: "server_step pb g (g\<lparr>data_service := p\<rparr>)"
| stop: "server_step pb g (at_transport server_Stop g)"
| kernel: "server_step pb g (at_transport (\<lambda>t. t\<lparr>os_accept := acc, os_send := snd_answers, os_recv := rcv_answers,
    os_epoll_ok := ok\<rparr>) g)"

text \<open>Between two steps no connection is left marked.\<close>

definition server_idle :: "GameServer \<Rightarrow> bool" where
  "server_idle g \<longleftrightarrow> server_inv g \<and> marked_for_close (transport g) = {}"

lemma loop_ok_flags [simp]:
  "loop_ok (l\<lparr>stop_counter := n\<rparr>) = loop_ok l" "loop_ok (l\<lparr>loop_running := b\<rparr>) = loop_ok l"
  by (simp_all add: loop_ok_def)

lemma transport_inv_loop_flags [simp]:
  "transport_inv X (t\<lparr>event_loop := (event_loop t)\<lparr>stop_counter := n\<rparr>\<rparr>) = transport_inv X t"
  "transport_inv X (t\<lparr>event_loop := (event_loop t)\<lparr>loop_running := b, stop_counter := n\<rparr>\<rparr>) = transport_inv X t"
  "transport_inv X (t\<lparr>event_loop := (event_loop t)\<lparr>loop_running := b\<rparr>\<rparr>) = transport_inv X t"
  by (simp_all add: transport_inv_def client_ok_def)

lemma server_Stop_inv: "transport_inv X t \<Longrightarrow> transport_inv X (server_Stop t)"
  using transport_inv_loop_flags(2)[where X = X and t = "t\<lparr>stopped := True\<rparr>"]
  by (simp add: server_Stop_def EventLoop_Stop_def Let_def)

lemma server_Stop_fields [simp]:
  "connection_descriptors (server_Stop t) = connection_descriptors t"
  "marked_for_close (server_Stop t) = marked_for_close t" "completion_queue (server_Stop t) = completion_queue t"
  by (simp_all add: server_Stop_def Let_def)

lemma invoke_callback_idle:
  assumes "server_idle g" "cb = AcceptCallback \<longrightarrow> kernel_accepts pb (os_accept (transport g)) g"
    and "invoke_callback pb cb events g = Inr h"
  shows "server_idle h"
proof -
  have inv: "server_inv g" and m: "marked_for_close (transport g) = {}" using assms(1) by (auto simp: server_idle_def)
  show ?thesis
  proof (cases cb)
    case StopCallback
    then show ?thesis
      using assms(3) m server_inv_transport[OF inv] server_invD(3)[OF inv] by (auto simp: server_idle_def)
  next
    case AcceptCallback
    then show ?thesis
      using accept_loop_inv[OF inv, of pb "os_accept (transport g)" h] assms(2,3) m
      by (auto simp: server_idle_def AcceptReady_def)
  next
    case WakeupCallback
    then show ?thesis using WakeupReady_inv[OF inv] assms(3) by (auto simp: server_idle_def)
  next
    case (ClientCallback d)
    then show ?thesis using ClientReady_inv[OF inv, of pb d events h] assms(3) m by (auto simp: server_idle_def)
  qed
qed

lemma server_step_idle:
  assumes "server_step pb g h" "server_idle g"
  shows "server_idle h"
  using assms
proof (induction rule: server_step.induct)
  case (dispatch g d cb events h)
  then show ?case using invoke_callback_idle by blast
next
  case (pool g p)
  then show ?case by (simp add: server_idle_def server_inv_def)
qed (auto simp: server_idle_def server_Stop_inv intro!: server_inv_transport dest: server_invD(3))

lemma GameServer_new_idle:
  assumes new: "GameServer_new so cfg draws clock = Inr g"
    and small: "unat (rows (gc_aoi (sc_game cfg))) * unat (columns (gc_aoi (sc_game cfg))) < 2 ^ 63"
  shows "server_idle g"
proof -
  obtain l0 pl t0 g0 fd port where l0: "EventLoop_new (so_epoll so) (so_stop_add so) (so_stop_fd so) StopCallback = Inr l0"
    and g0: "GameService_new t0 pl (sc_game cfg) draws clock = Inr g0"
    and t0: "clients t0 = um_empty" "connection_descriptors t0 = um_empty" "marked_for_close t0 = {}"
      "open_fds (os_table t0) = {}"
    and added: "fst (EventLoop_Add (so_accept_add so) fd EPOLLIN (Some AcceptCallback) l0)"
      "fst (EventLoop_Add (so_wakeup_add so) (so_wakeup_fd so) EPOLLIN (Some WakeupCallback)
         (snd (EventLoop_Add (so_accept_add so) fd EPOLLIN (Some AcceptCallback) l0)))"
    and g: "g = g0\<lparr>transport := (transport g0)\<lparr>listener := fd, bound_port := port,
      event_loop := snd (EventLoop_Add (so_wakeup_add so) (so_wakeup_fd so) EPOLLIN (Some WakeupCallback)
         (snd (EventLoop_Add (so_accept_add so) fd EPOLLIN (Some AcceptCallback) l0)))\<rparr>\<rparr>"
    using new by (auto simp: GameServer_new_def eventfd_new_def outcome_bind_Inr_iff Let_def case_prod_unfold split: if_splits)
  define l1 where "l1 = snd (EventLoop_Add (so_accept_add so) fd EPOLLIN (Some AcceptCallback) l0)"
  define l2 where "l2 = snd (EventLoop_Add (so_wakeup_add so) (so_wakeup_fd so) EPOLLIN (Some WakeupCallback) l1)"
  have l1: "EventLoop_Add (so_accept_add so) fd EPOLLIN (Some AcceptCallback) l0 = (True, l1)"
    and l2: "EventLoop_Add (so_wakeup_add so) (so_wakeup_fd so) EPOLLIN (Some WakeupCallback) l1 = (True, l2)"
    using added by (simp_all add: l1_def l2_def prod_eq_iff)
  note g = g[folded l1_def, folded l2_def]
  have ok0: "loop_ok l0 \<and> um_find (callbacks l0) = [so_stop_fd so \<mapsto> StopCallback]"
    using l0 by (auto simp: EventLoop_new_def EventLoop_Add_def loop_ok_def Let_def split: if_splits)
  then have "loop_ok l2" using loop_ok_Add[OF _ l1] loop_ok_Add[OF _ l2] by blast
  moreover have "registered {} (um_find (callbacks l2)) {}"
    using ok0 EventLoop_Add_cases[OF l1] EventLoop_Add_cases[OF l2] by (auto simp: registered_def split: if_splits)
  moreover have size0: "um_size (um_empty :: (int, Client) umap) = 0" by (simp add: um_defs)
  moreover note new0 = game_inv_new[OF g0 small]
  ultimately have "transport_inv {} (transport g)"
    using t0 by (simp add: g transport_inv_def tables_linked_def size0)
  moreover have "game_inv g" using new0(1) g by simp
  ultimately show ?thesis
    using new0(3,8,5) t0 g by (simp add: server_idle_def server_inv_def linked_def)
qed

interpretation server_sys: step_invariant
  "\<lambda>g. \<exists>so cfg draws clock. unat (rows (gc_aoi (sc_game cfg))) * unat (columns (gc_aoi (sc_game cfg))) < 2 ^ 63 \<and>
     GameServer_new so cfg draws clock = Inr g"
  "server_step pb" server_idle for pb
  by unfold_locales (auto intro: GameServer_new_idle server_step_idle)

section \<open>Closing and shutting down\<close>

lemma CloseConnection_open:
  "CloseConnection pb c g = Inr h \<Longrightarrow> open_connections (transport h) = open_connections (transport g) - {c}"
  using CloseConnection_descriptors(1)[of pb c g h] by auto

lemma close_all_inv:
  "server_inv g \<Longrightarrow> \<exists>h. close_all pb cs g = Inr h \<and> server_inv h \<and>
     open_connections (transport h) = open_connections (transport g) - set cs"
proof (induction cs arbitrary: g)
  case (Cons c cs)
  obtain h1 where h1: "CloseConnection pb c g = Inr h1" "server_inv h1" using CloseConnection_inv[OF Cons.prems] by blast
  obtain h where "close_all pb cs h1 = Inr h" "server_inv h"
      "open_connections (transport h) = open_connections (transport h1) - set cs"
    using Cons.IH[OF h1(2)] by blast
  with h1(1) CloseConnection_open[OF h1(1)] show ?case by auto
qed simp

text \<open>A server without connections, on which every completion is that of a dead login.\<close>

definition deserted :: "GameServer \<Rightarrow> bool" where
  "deserted g \<longleftrightarrow> um_find (pending_connections g) = Map.empty \<and> um_find (online_players g) = Map.empty \<and>
     um_find (connection_descriptors (transport g)) = Map.empty \<and> um_find (clients (transport g)) = Map.empty \<and>
     open_fds (os_table (transport g)) = {}"

lemma deserted_dead:
  assumes "deserted g"
  shows "login_is_dead (server_transport_ops pb) c g" "\<not> IsConnected (server_transport_ops pb) (transport g) c"
  using assms by (simp_all add: deserted_def login_is_dead_def server_transport_ops_def server_IsConnected_def)

lemma deserted_step:
  assumes "deserted g"
  shows "\<exists>h. run_completion (server_transport_ops pb) fin g = Inr h \<and> deserted h"
proof -
  have a: "deserted (abandon_login c a g)" for c a using assms by (simp add: deserted_def abandon_login_def)
  have f: "deserted (FailLogin (server_transport_ops pb) c a e g)" for c a e
    using assms deserted_dead(2)[OF assms, of pb c] by (simp add: FailLogin_def Let_def deserted_def)
  note dead = deserted_dead(1)[OF assms, of pb]
  show ?thesis
    by (cases "(server_transport_ops pb, fin, g)" rule: run_completion.cases)
      (use assms a f dead in \<open>auto simp: on_player_loaded_def on_player_saved_def on_session_loaded_def on_session_stored_def
        ContinueLogin_def StoreSessionAndFinish_def FinishLogin_def Let_def\<close>)
qed

lemma Drain_deserted:
  "deserted g \<Longrightarrow> \<exists>k' q' h. Drain n k (run_completion (server_transport_ops pb)) q g = Inr (k', q', h) \<and> deserted h"
proof (induction n k "run_completion (server_transport_ops pb)" q g rule: Drain.induct)
  case (1 n k q g)
  show ?case
  proof (cases "Drain_pop n k q")
    case None
    then show ?thesis using "1.prems" by (subst Drain.simps) simp
  next
    case (Some r)
    obtain fin q2 where r: "r = (fin, q2)" by (cases r)
    obtain h where h: "run_completion (server_transport_ops pb) fin g = Inr h" "deserted h"
      using deserted_step[OF "1.prems"] by blast
    from "1.hyps"[OF Some r[symmetric] h(1,2)] Some r h(1) show ?thesis by (subst Drain.simps) simp
  qed
qed

section \<open>An example server\<close>

text \<open>An example: a server of the default configuration, with plausible answers of the kernel.\<close>

definition example_os :: server_os where
  "example_os =
     \<lparr>so_epoll = True, so_stop_fd = 4, so_stop_add = True, so_wakeup_fd = 5, so_spawn = (\<lambda>_. True),
      so_listener = \<lparr>la_socket = 6, la_setsockopt = True, la_bind = (\<lambda>_ _. True), la_listen = (\<lambda>_. True),
        la_getsockname = Some (htons 9000)\<rparr>,
      so_accept_add = True, so_wakeup_add = True\<rparr>"

lemma inet_pton_localhost: "inet_pton ''127.0.0.1'' = Some [127, 0, 0, 1]"
  by code_simp

lemma example_server:
  obtains g where "GameServer_new example_os default_server_config (\<lambda>_. 0) (\<lambda>_. 0) = Inr g"
    "um_find (callbacks (event_loop (transport g))) = [4 \<mapsto> StopCallback, 6 \<mapsto> AcceptCallback, 5 \<mapsto> WakeupCallback]"
    "um_find (clients (transport g)) = Map.empty" "open_fds (os_table (transport g)) = {}" "next_connection_id (transport g) = 0"
    "stopped (transport g) = False" "server_config (transport g) = default_server_config" "um_size (clients (transport g)) = 0"
    "unat (rows (gc_aoi (sc_game default_server_config))) * unat (columns (gc_aoi (sc_game default_server_config))) < 2 ^ 63"
proof -
  have "\<exists>g. GameServer_new example_os default_server_config (\<lambda>_. 0) (\<lambda>_. 0) = Inr g \<and>
    um_find (callbacks (event_loop (transport g))) = [4 \<mapsto> StopCallback, 6 \<mapsto> AcceptCallback, 5 \<mapsto> WakeupCallback] \<and>
    clients (transport g) = um_empty \<and> open_fds (os_table (transport g)) = {} \<and> next_connection_id (transport g) = 0 \<and>
    stopped (transport g) = False \<and> server_config (transport g) = default_server_config"
    by (simp add: GameServer_new_def example_os_def eventfd_new_def EventLoop_new_def EventLoop_Add_def
        BoundedThreadPool_new_def default_server_config_def GameService_new_def default_game_config_def default_world
        OpenListener_def UniqueFd_valid_def inet_pton_localhost Let_def list_all_iff)
  moreover have "unat (rows (gc_aoi (sc_game default_server_config))) * unat (columns (gc_aoi (sc_game default_server_config))) < 2 ^ 63"
    by (simp add: default_server_config_def default_game_config_def default_aoi_config_def)
  ultimately show thesis using that by (auto simp: um_size_def um_empty_def) (metis um.find_empty um_empty_def)
qed

section \<open>Properties of the server\<close>

text \<open>
  C1: The running server is consistent after any number of events, answers of the kernel, worker
  completions and \<open>Stop\<close> calls. The player tables and the world agree. A connection that is logged in
  or logging in is open and not about to be closed. The open client sockets are exactly those of
  the registered clients, each of which the event loop watches, and has at most the configured number
  of bytes pending; the number of clients never exceeds the configured maximum.
\<close>

theorem running_server_is_consistent:
  assumes "GameServer_new so cfg draws clock = Inr g0"
    and "unat (rows (gc_aoi (sc_game cfg))) * unat (columns (gc_aoi (sc_game cfg))) < 2 ^ 63"
    and "(server_step pb)\<^sup>*\<^sup>* g0 g"
  shows "game_inv g \<and>
    (\<forall>c. um_contains (connection_players g) c \<or> um_contains (pending_connections g) c \<longrightarrow>
       server_IsConnected (transport g) c) \<and>
    open_fds (os_table (transport g)) = dom (um_find (clients (transport g))) \<and>
    (\<forall>d cl. um_find (clients (transport g)) d = Some cl \<longrightarrow>
       um_find (connection_descriptors (transport g)) (client_id cl) = Some d \<and>
       um_find (callbacks (event_loop (transport g))) d = Some (ClientCallback d) \<and>
       PendingBytes (client_connection cl) \<le> sc_maximum_pending_bytes (server_config (transport g))) \<and>
    um_size (clients (transport g)) \<le> sc_maximum_connections (server_config (transport g))"
proof -
  have "server_idle g" using server_sys.reachable_inv[OF _ assms(3)] assms(1,2) by blast
  then have inv: "server_inv g" and m: "marked_for_close (transport g) = {}" by (auto simp: server_idle_def)
  note t = server_invD(3)[OF inv]
  have "um_find (connection_descriptors (transport g)) (client_id cl) = Some d \<and>
      um_find (callbacks (event_loop (transport g))) d = Some (ClientCallback d) \<and>
      PendingBytes (client_connection cl) \<le> sc_maximum_pending_bytes (server_config (transport g))"
    if cl: "um_find (clients (transport g)) d = Some cl" for d cl
  proof -
    have "client_ok (transport g) d cl" using t cl by (simp add: transport_inv_def)
    then have "PendingBytes (client_connection cl) \<le> sc_maximum_pending_bytes (server_config (transport g))"
      by (simp add: client_ok_def output_ok_def PendingBytes_unsent)
    moreover have "um_find (connection_descriptors (transport g)) (client_id cl) = Some d"
      using t cl unfolding transport_inv_def tables_linked_def by simp
    moreover have "registered {} (um_find (callbacks (event_loop (transport g)))) (dom (um_find (clients (transport g))))"
      using t by (simp add: transport_inv_def)
    then have "um_find (callbacks (event_loop (transport g))) d = Some (ClientCallback d)"
      using cl unfolding registered_def by (metis Diff_empty domI)
    ultimately show ?thesis by blast
  qed
  moreover have "server_IsConnected (transport g) c"
    if "um_contains (connection_players g) c \<or> um_contains (pending_connections g) c" for c
    using that server_invD(2)[OF inv] m unfolding linked_def server_IsConnected_def by blast
  moreover have "open_fds (os_table (transport g)) = dom (um_find (clients (transport g)))"
      "um_size (clients (transport g)) \<le> sc_maximum_connections (server_config (transport g))"
    using t by (simp_all add: transport_inv_def)
  ultimately show ?thesis using server_invD(1)[OF inv] by blast
qed

theorem running_server_is_consistent_witness:
  "\<exists>g0 g. GameServer_new example_os default_server_config (\<lambda>_. 0) (\<lambda>_. 0) = Inr g0 \<and>
     (server_step text_codec)\<^sup>*\<^sup>* g0 g \<and> game_inv g \<and> um_contains (clients (transport g)) 20 \<and>
     20 \<in> open_fds (os_table (transport g))"
proof -
  obtain g0 where g0: "GameServer_new example_os default_server_config (\<lambda>_. 0) (\<lambda>_. 0) = Inr g0"
    "um_find (callbacks (event_loop (transport g0))) = [4 \<mapsto> StopCallback, 6 \<mapsto> AcceptCallback, 5 \<mapsto> WakeupCallback]"
    "um_find (clients (transport g0)) = Map.empty" "open_fds (os_table (transport g0)) = {}" "next_connection_id (transport g0) = 0"
    "server_config (transport g0) = default_server_config" "um_size (clients (transport g0)) = 0"
    "unat (rows (gc_aoi (sc_game default_server_config))) * unat (columns (gc_aoi (sc_game default_server_config))) < 2 ^ 63"
    by (rule example_server) (rule that; assumption)
  let ?t1 = "(transport g0)\<lparr>os_accept := [Accepted 20], os_send := \<lambda>_. [], os_recv := \<lambda>_. [], os_epoll_ok := \<lambda>_. True\<rparr>"
  let ?g1 = "g0\<lparr>transport := ?t1\<rparr>"
  have step1: "server_step text_codec g0 ?g1" by (rule server_step.kernel)
  have "server_idle g0" by (rule GameServer_new_idle[OF g0(1,8)])
  then have "loop_ok (event_loop (transport g0))" by (simp add: server_idle_def server_inv_def linked_def transport_inv_def)
  then have "um_find (epoll_interest (event_loop (transport g0))) 20 = None" using g0(2) by (auto simp: loop_ok_def)
  moreover obtain conn where "TcpConnection_new 20 (sc_maximum_pending_bytes default_server_config) = Inr conn"
    "tcp_descriptor conn = 20"
    by (simp add: TcpConnection_new_def FrameDecoder_new_def kDefaultMaxPayloadSize_def default_server_config_def)
  ultimately have "\<exists>g2. accept_loop text_codec [Accepted 20] ?g1 = Inr g2 \<and> um_contains (clients (transport g2)) 20"
    using g0(2,3,6,7) by (simp add: accept_one_def Let_def EventLoop_Add_def) (simp add: default_server_config_def)
  then obtain g2 where g2: "AcceptReady text_codec ?g1 = Inr g2" "um_contains (clients (transport g2)) 20"
    by (auto simp: AcceptReady_def)
  have "kernel_accepts text_codec (os_accept (transport ?g1)) ?g1"
    using g0(2,4,5) by (simp add: acceptable_def split: sum.splits)
  then have step2: "server_step text_codec ?g1 g2"
    using g2(1) g0(2) by (intro server_step.dispatch[of _ 6 AcceptCallback]) simp_all
  have steps: "(server_step text_codec)\<^sup>*\<^sup>* g0 g2" using step1 step2 by (meson converse_rtranclp_into_rtranclp r_into_rtranclp)
  from running_server_is_consistent[OF g0(1,8) steps] have "game_inv g2" "20 \<in> open_fds (os_table (transport g2))"
    using g2(2) by blast+
  with g0(1) steps g2(2) show ?thesis by blast
qed

text \<open>
  C19: Destroying the server takes everything down: from every consistent state, whatever completions
  the workers still deliver, the destructor's body runs to its end without a fault, and then no
  client socket is open, no connection is registered and no player is online or logging in.
\<close>

theorem destructor_closes_everything:
  assumes "server_inv g"
  shows "\<exists>h. GameServer_destroy pb late g = Inr h \<and> open_fds (os_table (transport h)) = {} \<and>
    um_find (clients (transport h)) = Map.empty \<and> um_find (connection_descriptors (transport h)) = Map.empty \<and>
    um_find (online_players h) = Map.empty \<and> um_find (pending_connections h) = Map.empty"
proof -
  let ?g = "g\<lparr>transport := server_Stop (transport g)\<rparr>"
  let ?cs = "map fst (um_entries (connection_descriptors (transport ?g)))"
  have inv: "server_inv ?g"
    using server_inv_transport[OF assms] server_Stop_inv[OF server_invD(3)[OF assms]] by simp
  have all: "set ?cs = open_connections (transport ?g)"
    using server_invD(3)[OF inv] um.entries_find[of "connection_descriptors (transport ?g)"]
    by (simp add: transport_inv_def) (metis dom_map_of_conv_image_fst)
  obtain h1 where h1: "close_all pb ?cs ?g = Inr h1" "server_inv h1" "open_connections (transport h1) = {}"
    using close_all_inv[OF inv, of pb ?cs] all by auto
  have ds: "um_find (connection_descriptors (transport h1)) = Map.empty" using h1(3) by simp
  then have cl: "um_find (clients (transport h1)) = Map.empty"
  proof (intro ext)
    fix d
    have "tables_linked (um_find (clients (transport h1))) (um_find (connection_descriptors (transport h1)))"
      using server_invD(3)[OF h1(2)] by (simp add: transport_inv_def)
    then show "um_find (clients (transport h1)) d = None"
      unfolding ds tables_linked_def by (cases "um_find (clients (transport h1)) d") auto
  qed
  have "um_find (connection_players h1) = Map.empty" "um_find (pending_connections h1) = Map.empty"
    using server_invD(2)[OF h1(2)] h1(3) by (auto simp: linked_def)
  moreover from this have "um_find (online_players h1) = Map.empty"
    using online_connection(3)[OF server_invD(1)[OF h1(2)]] by (metis option.distinct(1) option.exhaust ext)
  ultimately have "deserted h1"
    using ds cl server_invD(3)[OF h1(2)] by (simp add: deserted_def transport_inv_def)
  let ?h2 = "h1\<lparr>data_service := (data_service h1)\<lparr>accepting_tasks := False, tasks := [], workers := []\<rparr>\<rparr>"
  let ?q = "(completion_queue (transport ?h2))\<lparr>completions := completions (completion_queue (transport ?h2)) @ late\<rparr>"
  have "deserted ?h2" using \<open>deserted h1\<close> by (simp add: deserted_def)
  then obtain k q h3 where "Drain (2 ^ 64 - 1) 0 (run_completion (server_transport_ops pb)) ?q ?h2 = Inr (k, q, h3)" "deserted h3"
    using Drain_deserted by metis
  with h1(1) show ?thesis by (auto simp: GameServer_destroy_def Let_def deserted_def)
qed

theorem destructor_closes_everything_witness:
  "\<exists>g h. GameServer_new example_os default_server_config (\<lambda>_. 0) (\<lambda>_. 0) = Inr g \<and>
     GameServer_destroy text_codec [PlayerResult (LoadPlayerCallback 1 ''ada'' '''') DataResult_NotFound] g = Inr h \<and>
     open_fds (os_table (transport h)) = {}"
proof -
  obtain g where g: "GameServer_new example_os default_server_config (\<lambda>_. 0) (\<lambda>_. 0) = Inr g"
    "unat (rows (gc_aoi (sc_game default_server_config))) * unat (columns (gc_aoi (sc_game default_server_config))) < 2 ^ 63"
    by (rule example_server)
  have "server_inv g" using GameServer_new_idle[OF g] by (simp add: server_idle_def)
  from destructor_closes_everything[OF this, of text_codec
      "[PlayerResult (LoadPlayerCallback 1 ''ada'' '''') DataResult_NotFound]"] g(1)
  show ?thesis by blast
qed

text \<open>
  A \<open>Stop\<close> that comes before \<open>Run\<close> is forgotten: \<open>Run\<close> sets both flags again, the wake-up that \<open>Stop\<close>
  left behind is consumed by the first pass, and the loop waits on. A \<open>Stop\<close> after that ends the loop at
  its next check, without another wait.
\<close>

theorem stop_before_run_is_lost:
  assumes "um_find (callbacks (event_loop (transport g))) d = Some StopCallback"
  shows "\<exists>h. server_Run pb [Ready [(d, EPOLLIN)]] (at_transport server_Stop g) = Inr (False, h) \<and>
    loop_running (event_loop (transport h)) \<and> stop_counter (event_loop (transport h)) = 0 \<and>
    run_loop (\<lambda>g. event_loop (transport g)) (invoke_callback pb) rs (at_transport server_Stop h) =
      Inr (True, at_transport server_Stop h)"
proof -
  have cb: "um_find (callbacks (event_loop (server_Stop (transport g)))) d = Some StopCallback"
    using assms by (simp add: server_Stop_def EventLoop_Stop_def Let_def)
  have stop: "run_loop (\<lambda>g. event_loop (transport g)) (invoke_callback pb) rs k = Inr (True, k)"
    if "\<not> loop_running (event_loop (transport k))" for k using that by (cases rs) simp_all
  show ?thesis
    using cb by (simp add: server_Run_def EventLoop_Run_def PollOnce_def max_events_def Let_def)
      (rule stop, simp add: server_Stop_def EventLoop_Stop_def Let_def)
qed

theorem stop_before_run_is_lost_witness:
  "\<exists>g h. GameServer_new example_os default_server_config (\<lambda>_. 0) (\<lambda>_. 0) = Inr g \<and>
     server_Run text_codec [Ready [(4, EPOLLIN)]] (at_transport server_Stop g) = Inr (False, h)"
proof -
  obtain g where g: "GameServer_new example_os default_server_config (\<lambda>_. 0) (\<lambda>_. 0) = Inr g"
    "um_find (callbacks (event_loop (transport g))) = [4 \<mapsto> StopCallback, 6 \<mapsto> AcceptCallback, 5 \<mapsto> WakeupCallback]"
    by (rule example_server)
  then have "um_find (callbacks (event_loop (transport g))) 4 = Some StopCallback" by simp
  from stop_before_run_is_lost[OF this, of text_codec] g(1) show ?thesis by blast
qed

text \<open>
  An error of \<open>accept4\<close> other than \<open>EINTR\<close> and \<open>EAGAIN\<close> ends the server: when the listener is ready and
  the call fails (a connection reset before it was accepted, or no descriptor left), the exception
  leaves \<open>AcceptReady\<close>, the dispatch and \<open>Run\<close>, whatever other clients are connected.
\<close>

theorem accept_error_ends_the_server:
  assumes "um_find (callbacks (event_loop (transport g))) d = Some AcceptCallback"
    and "os_accept (transport g) = AcceptFailed # rest"
  shows "server_Run pb (Ready ((d, ev) # evs) # rs) g = Inl (Throw (system_error ''accept4''))"
  using assms by (simp add: server_Run_def EventLoop_Run_def PollOnce_def max_events_def AcceptReady_def Let_def)

theorem accept_error_ends_the_server_witness:
  "\<exists>g. GameServer_new example_os default_server_config (\<lambda>_. 0) (\<lambda>_. 0) = Inr g \<and>
     server_Run text_codec [Ready [(6, EPOLLIN)]] (at_transport (\<lambda>t. t\<lparr>os_accept := [AcceptFailed]\<rparr>) g) =
       Inl (Throw (system_error ''accept4''))"
proof -
  obtain g where g: "GameServer_new example_os default_server_config (\<lambda>_. 0) (\<lambda>_. 0) = Inr g"
    "um_find (callbacks (event_loop (transport g))) = [4 \<mapsto> StopCallback, 6 \<mapsto> AcceptCallback, 5 \<mapsto> WakeupCallback]"
    by (rule example_server)
  let ?g = "at_transport (\<lambda>t. t\<lparr>os_accept := [AcceptFailed]\<rparr>) g"
  have "um_find (callbacks (event_loop (transport ?g))) 6 = Some AcceptCallback" "os_accept (transport ?g) = [AcceptFailed]"
    using g(2) by simp_all
  from accept_error_ends_the_server[OF this, of text_codec EPOLLIN "[]" "[]"] g(1) show ?thesis by blast
qed

end
