(* ===== verification/Redis_Store.thy ===== *)
theory Redis_Store
  imports Data_Store Posix_Net
begin

text \<open>
  \<open>src/data/redis_session_store.cpp\<close>: sessions in Redis. The hiredis library and the server behind it
  are a record of the four entry points that are used, over a state \<open>'d\<close> of the outside world. A
  command is the list of its arguments, as hiredis builds it from a format with \<open>%b\<close> and \<open>%lld\<close>.
\<close>

section \<open>The client library\<close>

datatype redis_context = NullContext | BrokenContext string \<comment> \<open>\<open>errstr\<close>\<close> | ReadyContext

text \<open>The string of a reply is absent when \<open>str\<close> is a null pointer.\<close>

datatype redis_reply =
    ReplyString "string option"
  | ReplyStatus "string option"
  | ReplyError "string option"
  | ReplyInteger int
  | ReplyNil
  | ReplyArray

datatype redis_answer = NoReply string \<comment> \<open>\<open>errstr\<close>\<close> | Reply redis_reply

record 'd hiredis =
  redisConnectWithTimeout :: "string \<Rightarrow> int \<Rightarrow> int \<times> int \<Rightarrow> 'd \<Rightarrow> redis_context \<times> 'd"
  redisCommand :: "string list \<Rightarrow> 'd \<Rightarrow> redis_answer \<times> 'd"
  freeReplyObject :: "'d \<Rightarrow> 'd"
  redisFree :: "'d \<Rightarrow> 'd"

section \<open>The store\<close>

record RedisConfig =
  rc_host :: string
  rc_port :: int
  rc_key_prefix :: string
  rc_connect_timeout :: int

definition default_redis_config :: RedisConfig where
  "default_redis_config =
     \<lparr>rc_host = ''127.0.0.1'', rc_port = 6379, rc_key_prefix = ''mmo:session:'', rc_connect_timeout = 1000\<rparr>"

text \<open>Division and remainder of C++ truncate towards zero.\<close>

definition split_timeout :: "int \<Rightarrow> int \<times> int" where
  "split_timeout ms =
     (let s = sgn ms * (\<bar>ms\<bar> div 1000); rest = sgn ms * (\<bar>ms\<bar> mod 1000) in (s, rest * 1000))"

text \<open>\<open>Inl\<close>: no connection, with the error text.\<close>

definition RedisConnect :: "'d hiredis \<Rightarrow> RedisConfig \<Rightarrow> 'd \<Rightarrow> (string + unit) \<times> 'd" where
  "RedisConnect hr cfg d =
     (let (context, d) = redisConnectWithTimeout hr (c_str (rc_host cfg)) (rc_port cfg)
            (split_timeout (rc_connect_timeout cfg)) d
      in case context of
           NullContext \<Rightarrow> (Inl ''redisConnectWithTimeout failed'', d)
         | BrokenContext e \<Rightarrow> (Inl (c_str e), redisFree hr d)
         | ReadyContext \<Rightarrow> (Inr (), d))"

text \<open>The two owning pointers at the end of an operation: the reply, if there is one, then the connection.\<close>

definition redis_release :: "'d hiredis \<Rightarrow> redis_answer \<Rightarrow> 'd \<Rightarrow> 'd" where
  "redis_release hr answer d =
     redisFree hr (case answer of NoReply _ \<Rightarrow> d | Reply _ \<Rightarrow> freeReplyObject hr d)"

definition RedisUnavailable :: "string \<Rightarrow> OperationResult" where
  "RedisUnavailable message = OperationResult_Failure kUnavailable message"

definition KeyFor :: "RedisConfig \<Rightarrow> u64 \<Rightarrow> string" where
  "KeyFor cfg player_id = rc_key_prefix cfg @ to_string (unat player_id)"

definition RedisSessionStore_Store ::
  "'d hiredis \<Rightarrow> RedisConfig \<Rightarrow> SessionRecord \<Rightarrow> int \<Rightarrow> 'd \<Rightarrow> OperationResult \<times> 'd" where
  "RedisSessionStore_Store hr cfg session ttl d =
     (if sr_player_id session = 0 \<or> sr_token session = [] \<or> ttl \<le> 0
      then (OperationResult_Failure kInvalidArgument ''player_id, token and positive ttl are required'', d)
      else
        let (connection, d) = RedisConnect hr cfg d in
        case connection of
          Inl error \<Rightarrow> (RedisUnavailable error, d)
        | Inr _ \<Rightarrow>
            let (reply, d) = redisCommand hr
                  [''SET'', KeyFor cfg (sr_player_id session), sr_token session, ''EX'', to_string (nat ttl)] d
            in (case reply of
                  NoReply errstr \<Rightarrow> RedisUnavailable (c_str errstr)
                | Reply (ReplyError str) \<Rightarrow>
                    RedisUnavailable (case str of None \<Rightarrow> ''Redis SET failed'' | Some s \<Rightarrow> c_str s)
                | Reply (ReplyStatus (Some s)) \<Rightarrow>
                    if s = ''OK'' then OperationResult_Success
                    else RedisUnavailable ''Redis SET returned an unexpected reply''
                | Reply _ \<Rightarrow> RedisUnavailable ''Redis SET returned an unexpected reply'', redis_release hr reply d))"

definition RedisSessionStore_Load ::
  "'d hiredis \<Rightarrow> RedisConfig \<Rightarrow> u64 \<Rightarrow> 'd \<Rightarrow> SessionRecord DataResult \<times> 'd" where
  "RedisSessionStore_Load hr cfg player_id d =
     (if player_id = 0
      then (DataResult_Failure kInvalidArgument ''player_id must be greater than zero'', d)
      else
        let (connection, d) = RedisConnect hr cfg d in
        case connection of
          Inl error \<Rightarrow> (DataResult_Failure kUnavailable error, d)
        | Inr _ \<Rightarrow>
            let (reply, d) = redisCommand hr [''GET'', KeyFor cfg player_id] d
            in (case reply of
                  NoReply errstr \<Rightarrow> DataResult_Failure kUnavailable (c_str errstr)
                | Reply ReplyNil \<Rightarrow> DataResult_NotFound
                | Reply (ReplyError str) \<Rightarrow>
                    DataResult_Failure kUnavailable (case str of None \<Rightarrow> ''Redis GET failed'' | Some s \<Rightarrow> c_str s)
                | Reply (ReplyString (Some s)) \<Rightarrow>
                    DataResult_Success \<lparr>sr_player_id = player_id, sr_token = s\<rparr>
                | Reply _ \<Rightarrow> DataResult_Failure kUnavailable ''Redis GET returned an unexpected reply'', redis_release hr reply d))"

definition RedisSessionStore_Remove ::
  "'d hiredis \<Rightarrow> RedisConfig \<Rightarrow> u64 \<Rightarrow> 'd \<Rightarrow> OperationResult \<times> 'd" where
  "RedisSessionStore_Remove hr cfg player_id d =
     (if player_id = 0
      then (OperationResult_Failure kInvalidArgument ''player_id must be greater than zero'', d)
      else
        let (connection, d) = RedisConnect hr cfg d in
        case connection of
          Inl error \<Rightarrow> (RedisUnavailable error, d)
        | Inr _ \<Rightarrow>
            let (reply, d) = redisCommand hr [''DEL'', KeyFor cfg player_id] d
            in (case reply of
                  NoReply errstr \<Rightarrow> RedisUnavailable (c_str errstr)
                | Reply (ReplyError str) \<Rightarrow>
                    RedisUnavailable (case str of None \<Rightarrow> ''Redis DEL failed'' | Some s \<Rightarrow> c_str s)
                | Reply (ReplyInteger _) \<Rightarrow> OperationResult_Success
                | Reply _ \<Rightarrow> RedisUnavailable ''Redis DEL returned an unexpected reply'', redis_release hr reply d))"

lemmas redis_defs = RedisSessionStore_Store_def RedisSessionStore_Load_def RedisSessionStore_Remove_def
  RedisConnect_def RedisUnavailable_def redis_release_def

lemma KeyFor_inject: "KeyFor cfg j = KeyFor cfg k \<longleftrightarrow> j = k"
  by (metis KeyFor_def append_same_eq same_append_eq scan_number_to_string option.inject prod.inject word_eq_iff_unsigned)

section \<open>The session-store contract over Redis\<close>

text \<open>
  What the Redis documentation says of a reachable server: \<open>entries\<close> is its table of unexpired keys
  with their expiry, \<open>now\<close> its clock. \<open>SET k v EX n\<close> with a
  positive \<open>n\<close> whose milliseconds do not overflow answers \<open>OK\<close> and sets the key to expire after \<open>n\<close>
  seconds; \<open>GET\<close> answers the value, or nil; \<open>DEL\<close> answers a number and removes the key. Freeing a reply
  or a connection changes nothing on the server.
\<close>

definition redis_documented ::
  "'d hiredis \<Rightarrow> ('d \<Rightarrow> string \<rightharpoonup> (string \<times> int)) \<Rightarrow> ('d \<Rightarrow> int) \<Rightarrow> bool" where
  "redis_documented hr entries now \<longleftrightarrow>
     (\<forall>host port tv d. \<exists>d'. redisConnectWithTimeout hr host port tv d = (ReadyContext, d') \<and>
        entries d' = entries d \<and> now d' = now d) \<and>
     (\<forall>k v n d. 0 < n \<longrightarrow> n < 2 ^ 40 \<longrightarrow> (\<exists>d'. redisCommand hr [''SET'', k, v, ''EX'', to_string n] d = (Reply (ReplyStatus (Some ''OK'')), d') \<and>
        entries d' = (entries d)(k \<mapsto> (v, now d + int n * ns_per_second)) \<and> now d' = now d)) \<and>
     (\<forall>k d. \<exists>d'. redisCommand hr [''GET'', k] d =
          (Reply (case entries d k of None \<Rightarrow> ReplyNil | Some (v, _) \<Rightarrow> ReplyString (Some v)), d') \<and>
        entries d' = entries d \<and> now d' = now d) \<and>
     (\<forall>k d. \<exists>n d'. redisCommand hr [''DEL'', k] d = (Reply (ReplyInteger n), d') \<and>
        entries d' = (entries d)(k := None) \<and> now d' = now d) \<and>
     (\<forall>d. entries (freeReplyObject hr d) = entries d \<and> now (freeReplyObject hr d) = now d) \<and>
     (\<forall>d. entries (redisFree hr d) = entries d \<and> now (redisFree hr d) = now d)"

text \<open>The sessions of a memory store that have not expired are exactly the entries in Redis.\<close>

definition same_sessions ::
  "RedisConfig \<Rightarrow> ('d \<Rightarrow> string \<rightharpoonup> (string \<times> int)) \<Rightarrow> ('d \<Rightarrow> int) \<Rightarrow> MemorySessionStore \<Rightarrow> 'd \<Rightarrow> bool" where
  "same_sessions cfg entries now st d \<longleftrightarrow> session_invar st \<and>
     (\<forall>k. k \<noteq> 0 \<longrightarrow> entries d (KeyFor cfg k) =
        (case session_live st k of
           None \<Rightarrow> None
         | Some (tok, e) \<Rightarrow> if now d < e then Some (tok, e) else None))"

lemma redis_connect_ok:
  assumes "redis_documented hr entries now"
  obtains d' where "RedisConnect hr cfg d = (Inr (), d')" "entries d' = entries d" "now d' = now d"
proof -
  obtain d' where "redisConnectWithTimeout hr (c_str (rc_host cfg)) (rc_port cfg)
      (split_timeout (rc_connect_timeout cfg)) d = (ReadyContext, d')" "entries d' = entries d" "now d' = now d"
    using assms unfolding redis_documented_def by blast
  then show thesis using that by (simp add: RedisConnect_def)
qed

lemma redis_commands:
  assumes "redis_documented hr entries now"
  shows "0 < n \<Longrightarrow> n < 2 ^ 40 \<Longrightarrow> \<exists>d'. redisCommand hr [''SET'', k, v, ''EX'', to_string n] d = (Reply (ReplyStatus (Some ''OK'')), d') \<and>
      entries d' = (entries d)(k \<mapsto> (v, now d + int n * ns_per_second)) \<and> now d' = now d"
    and "\<exists>d'. redisCommand hr [''GET'', k] d =
        (Reply (case entries d k of None \<Rightarrow> ReplyNil | Some (v, _) \<Rightarrow> ReplyString (Some v)), d') \<and>
      entries d' = entries d \<and> now d' = now d"
    and "\<exists>n d'. redisCommand hr [''DEL'', k] d = (Reply (ReplyInteger n), d') \<and>
      entries d' = (entries d)(k := None) \<and> now d' = now d"
  using assms unfolding redis_documented_def by blast+

lemma redis_release_same:
  assumes "redis_documented hr entries now"
  shows "entries (redis_release hr reply d) = entries d" "now (redis_release hr reply d) = now d"
  using assms by (auto simp: redis_documented_def redis_release_def split: redis_answer.splits)

lemma same_sessions_release:
  assumes "redis_documented hr entries now" "same_sessions cfg entries now st d"
  shows "same_sessions cfg entries now st (redis_release hr reply d)"
  using assms(2) unfolding same_sessions_def redis_release_same[OF assms(1)] .

lemma redis_store_step:
  assumes law: "redis_documented hr entries now" and same: "same_sessions cfg entries now st d"
    and mem: "MemorySessionStore_Store (now d) s ttl st = Inr (res, st')"
  shows "\<exists>res' d'. RedisSessionStore_Store hr cfg s ttl d = (res', d') \<and> op_status res' = op_status res \<and>
    same_sessions cfg entries now st' d'"
proof (cases "sr_player_id s = 0 \<or> sr_token s = [] \<or> ttl \<le> 0")
  case True
  then show ?thesis
    using mem same by (auto simp: RedisSessionStore_Store_def memory_store_defs OperationResult_Failure_def)
next
  case False
  let ?e = "now d + ttl * ns_per_second"
  obtain d1 where d1: "RedisConnect hr cfg d = (Inr (), d1)" "entries d1 = entries d" "now d1 = now d"
    by (rule redis_connect_ok[OF law])
  have n: "0 < nat ttl" "nat ttl < 2 ^ 40" "int (nat ttl) = ttl"
    using False mem by (auto simp: memory_store_defs deadline_def int64_def ns_per_second_def split: if_splits)
  obtain d2 where d2: "redisCommand hr [''SET'', KeyFor cfg (sr_player_id s), sr_token s, ''EX'', to_string (nat ttl)] d1 =
        (Reply (ReplyStatus (Some ''OK'')), d2)"
      "entries d2 = (entries d)(KeyFor cfg (sr_player_id s) \<mapsto> (sr_token s, ?e))" "now d2 = now d"
    using redis_commands(1)[OF law n(1,2), of "KeyFor cfg (sr_player_id s)" "sr_token s" d1] d1(2,3) n(3) by auto
  have st': "res = OperationResult_Success" "session_live st' = (session_live st)(sr_player_id s \<mapsto> (sr_token s, ?e))"
      "session_invar st'"
    using mem False mem_sessions.store_ok[OF _ mem] same
    by (auto simp: memory_store_defs outcome_bind_Inr_iff same_sessions_def data_result_defs)
  have "now d < ?e" using False by (simp add: ns_per_second_def)
  then have "same_sessions cfg entries now st' d2"
    using same st'(2,3) unfolding same_sessions_def d2(2,3) by (simp add: KeyFor_inject)
  with d1 d2(1) False st'(1) same_sessions_release[OF law] show ?thesis by (auto simp: RedisSessionStore_Store_def)
qed

lemma redis_load_step:
  assumes law: "redis_documented hr entries now" and same: "same_sessions cfg entries now st d" and k: "k \<noteq> 0"
    and mem: "MemorySessionStore_Load (now d) k st = (res, st')"
  shows "\<exists>d'. RedisSessionStore_Load hr cfg k d = (res, d') \<and> same_sessions cfg entries now st' d'"
proof -
  obtain d1 where d1: "RedisConnect hr cfg d = (Inr (), d1)" "entries d1 = entries d" "now d1 = now d"
    by (rule redis_connect_ok[OF law])
  obtain d2 where d2: "redisCommand hr [''GET'', KeyFor cfg k] d1 =
        (Reply (case entries d (KeyFor cfg k) of None \<Rightarrow> ReplyNil | Some (v, _) \<Rightarrow> ReplyString (Some v)), d2)"
      "entries d2 = entries d" "now d2 = now d"
    using redis_commands(2)[OF law, of "KeyFor cfg k" d1] d1(2,3) by auto
  have e: "entries d (KeyFor cfg k) = (case session_live st k of None \<Rightarrow> None
      | Some (tok, e) \<Rightarrow> if now d < e then Some (tok, e) else None)" and inv: "session_invar st"
    using same k by (auto simp: same_sessions_def)
  have live: "session_invar st'" "session_live st' = (if \<exists>tok e. session_live st k = Some (tok, e) \<and> e \<le> now d
      then (session_live st)(k := None) else session_live st)"
    using mem_sessions.load_keeps[OF inv mem] by blast+
  have "same_sessions cfg entries now st' d2"
    using same live d2(2,3) by (auto simp: same_sessions_def split: option.splits)
  moreover have "\<exists>reply. RedisSessionStore_Load hr cfg k d = (res, redis_release hr reply d2)"
  proof (cases "\<exists>tok x. session_live st k = Some (tok, x) \<and> now d < x")
    case True
    then obtain tok x where x: "session_live st k = Some (tok, x)" "now d < x" by blast
    then have "res = DataResult_Success \<lparr>sr_player_id = k, sr_token = tok\<rparr>"
      using mem_sessions.load_live[OF inv x] mem by simp
    then show ?thesis using x e d1(1) d2(1) k by (auto simp: RedisSessionStore_Load_def)
  next
    case False
    then have "\<And>tok x. session_live st k = Some (tok, x) \<Longrightarrow> x \<le> now d" by force
    then have "fst (MemorySessionStore_Load (now d) k st) = DataResult_NotFound"
      by (rule mem_sessions.load_gone[OF inv])
    with mem have "res = DataResult_NotFound" by simp
    moreover have "entries d (KeyFor cfg k) = None" using e False by (auto split: option.splits)
    ultimately show ?thesis using d1(1) d2(1) k by (auto simp: RedisSessionStore_Load_def)
  qed
  ultimately show ?thesis using same_sessions_release[OF law] by blast
qed

lemma redis_remove_step:
  assumes law: "redis_documented hr entries now" and same: "same_sessions cfg entries now st d" and k: "k \<noteq> 0"
    and mem: "MemorySessionStore_Remove k st = (res, st')"
  shows "\<exists>d'. RedisSessionStore_Remove hr cfg k d = (res, d') \<and> same_sessions cfg entries now st' d'"
proof -
  obtain d1 where d1: "RedisConnect hr cfg d = (Inr (), d1)" "entries d1 = entries d" "now d1 = now d"
    by (rule redis_connect_ok[OF law])
  obtain n d2 where d2: "redisCommand hr [''DEL'', KeyFor cfg k] d1 = (Reply (ReplyInteger n), d2)"
      "entries d2 = (entries d)(KeyFor cfg k := None)" "now d2 = now d"
    using redis_commands(3)[OF law, of "KeyFor cfg k" d1] d1(2,3) by auto
  have res: "res = OperationResult_Success" using mem by (simp add: MemorySessionStore_Remove_def)
  have "session_invar st'" "session_live st' = (session_live st)(k := None)"
    using mem_sessions.remove_ok[OF _ mem] same res by (auto simp: same_sessions_def data_result_defs)
  then have "same_sessions cfg entries now st' d2"
    using same unfolding same_sessions_def d2(2,3) by (simp add: KeyFor_inject)
  with d1(1) d2(1) k res same_sessions_release[OF law] show ?thesis by (auto simp: RedisSessionStore_Remove_def)
qed

lemma redis_time_step:
  assumes "same_sessions cfg entries now st d" "now d \<le> now d'"
    and "\<forall>key. entries d' key = (case entries d key of None \<Rightarrow> None | Some (v, e) \<Rightarrow> if now d' < e then Some (v, e) else None)"
  shows "same_sessions cfg entries now st d'"
  using assms by (auto simp: same_sessions_def split: option.splits)

section \<open>Property\<close>


text \<open>A Redis server that keeps its table and does nothing else.\<close>

record redis_world =
  rw_entries :: "(string \<times> (string \<times> int)) list"
  rw_now :: int

definition redis_entries :: "redis_world \<Rightarrow> string \<rightharpoonup> (string \<times> int)" where
  "redis_entries d = map_of (rw_entries d)"

definition plain_redis :: "redis_world hiredis" where
  "plain_redis =
     \<lparr>redisConnectWithTimeout = (\<lambda>_ _ _ d. (ReadyContext, d)),
      redisCommand = (\<lambda>cmd d. case cmd of
         [c, k] \<Rightarrow> if c = ''GET''
                   then (Reply (case redis_entries d k of None \<Rightarrow> ReplyNil | Some (v, _) \<Rightarrow> ReplyString (Some v)), d)
                   else (Reply (ReplyInteger 1), d\<lparr>rw_entries := AList.delete k (rw_entries d)\<rparr>)
       | [_, k, v, _, n] \<Rightarrow> (Reply (ReplyStatus (Some ''OK'')),
           d\<lparr>rw_entries := (k, (v, rw_now d + int (snd (the (scan_number n))) * ns_per_second)) # rw_entries d\<rparr>)
       | _ \<Rightarrow> (Reply (ReplyError None), d)),
      freeReplyObject = id, redisFree = id\<rparr>"

lemma plain_redis_documented: "redis_documented plain_redis redis_entries rw_now"
  by (auto simp: redis_documented_def plain_redis_def redis_entries_def scan_number_to_string fun_eq_iff delete_conv')


end
