(* ===== verification/Mysql_Repository.thy ===== *)
theory Mysql_Repository
  imports Data_Store Posix_Net
begin

text \<open>
  \<open>src/data/mysql_player_repository.cpp\<close>: players in MySQL. The C client library and the server behind it
  are a record of the entry points that are used, over a state \<open>'d\<close> of the outside world that contains
  the connection and the statement an operation has open. A call that can fail gives \<open>None\<close>, or the text that
  \<open>mysql_error\<close> or \<open>mysql_stmt_error\<close> returns after it.
\<close>

section \<open>The client library\<close>

datatype mysql_value =
    MLongLong bool \<comment> \<open>\<open>is_unsigned\<close>\<close> u64
  | MString string
  | MDouble dbl

datatype mysql_buffer = BLongLong bool | BString nat \<comment> \<open>\<open>buffer_length\<close>\<close> | BDouble

text \<open>The columns of \<open>players\<close> are those of a record, so that a fetched row is a record.\<close>

datatype fetch_result = Fetched PlayerRecord | DataTruncated PlayerRecord | NoData | FetchFailed string

record 'd mysql_client =
  mysql_library_init :: "'d \<Rightarrow> bool \<times> 'd"
  mysql_init :: "'d \<Rightarrow> bool \<times> 'd"
  mysql_options :: "u32 \<Rightarrow> 'd \<Rightarrow> 'd"
  mysql_real_connect :: "string \<Rightarrow> string \<Rightarrow> string \<Rightarrow> string \<Rightarrow> u32 \<Rightarrow> 'd \<Rightarrow> string option \<times> 'd"
  mysql_set_character_set :: "string \<Rightarrow> 'd \<Rightarrow> string option \<times> 'd"
  mysql_query :: "string \<Rightarrow> 'd \<Rightarrow> string option \<times> 'd"
  mysql_close :: "'d \<Rightarrow> 'd"
  mysql_stmt_init :: "'d \<Rightarrow> bool \<times> 'd"
  mysql_stmt_prepare :: "string \<Rightarrow> 'd \<Rightarrow> string option \<times> 'd"
  mysql_stmt_bind_param :: "mysql_value list \<Rightarrow> 'd \<Rightarrow> string option \<times> 'd"
  mysql_stmt_execute :: "'d \<Rightarrow> string option \<times> 'd"
  mysql_stmt_bind_result :: "mysql_buffer list \<Rightarrow> 'd \<Rightarrow> string option \<times> 'd"
  mysql_stmt_store_result :: "'d \<Rightarrow> string option \<times> 'd"
  mysql_stmt_fetch :: "'d \<Rightarrow> fetch_result \<times> 'd"
  mysql_stmt_close :: "'d \<Rightarrow> 'd"

section \<open>Connections and statements\<close>

record MySqlConfig =
  mc_host :: string
  mc_port :: u32
  mc_user :: string
  mc_password :: string
  mc_database :: string
  mc_connect_timeout_seconds :: u32

definition default_mysql_config :: MySqlConfig where
  "default_mysql_config =
     \<lparr>mc_host = ''127.0.0.1'', mc_port = 3306, mc_user = '''', mc_password = '''', mc_database = '''',
      mc_connect_timeout_seconds = 3\<rparr>"

text \<open>The static object of the function is constructed at the first call that does not throw.\<close>

definition EnsureMySqlLibraryInitialized :: "'d mysql_client \<Rightarrow> bool \<Rightarrow> 'd \<Rightarrow> (bool outcome) \<times> 'd" where
  "EnsureMySqlLibraryInitialized my initialized d =
     (if initialized then (Inr True, d)
      else let (ok, d) = mysql_library_init my d
           in (if ok then Inr True else Inl (Throw (runtime_error ''mysql_library_init failed'')), d))"

definition MySqlPlayerRepository_new ::
  "'d mysql_client \<Rightarrow> MySqlConfig \<Rightarrow> bool \<Rightarrow> 'd \<Rightarrow> (MySqlConfig \<times> bool) outcome \<times> 'd" where
  "MySqlPlayerRepository_new my cfg initialized d =
     (let (lib, d) = EnsureMySqlLibraryInitialized my initialized d
      in (outcome_bind lib (\<lambda>b. Inr (cfg, b)), d))"

definition MySqlConnect :: "'d mysql_client \<Rightarrow> MySqlConfig \<Rightarrow> 'd \<Rightarrow> (string + unit) \<times> 'd" where
  "MySqlConnect my cfg d =
     (let (ok, d) = mysql_init my d in
      if \<not> ok then (Inl ''mysql_init failed'', d)
      else
        let d = mysql_options my (mc_connect_timeout_seconds cfg) d;
            (e, d) = mysql_real_connect my (c_str (mc_host cfg)) (c_str (mc_user cfg))
               (c_str (mc_password cfg)) (c_str (mc_database cfg)) (mc_port cfg) d
        in case e of
             Some error \<Rightarrow> (Inl error, mysql_close my d)
           | None \<Rightarrow>
               let (e, d) = mysql_set_character_set my ''utf8mb4'' d
               in case e of
                    Some error \<Rightarrow> (Inl error, mysql_close my d)
                  | None \<Rightarrow> (Inr (), d))"

definition Prepare :: "'d mysql_client \<Rightarrow> string \<Rightarrow> 'd \<Rightarrow> (string + unit) \<times> 'd" where
  "Prepare my sql d =
     (let (ok, d) = mysql_stmt_init my d in
      if \<not> ok then (Inl ''mysql_stmt_init failed'', d)
      else
        let (e, d) = mysql_stmt_prepare my sql d
        in case e of
             Some error \<Rightarrow> (Inl error, mysql_stmt_close my d)
           | None \<Rightarrow> (Inr (), d))"

definition MySqlInvalid :: "string \<Rightarrow> OperationResult" where
  "MySqlInvalid message = OperationResult_Failure kInvalidArgument message"

definition MySqlUnavailable :: "string \<Rightarrow> OperationResult" where
  "MySqlUnavailable message = OperationResult_Failure kUnavailable message"

text \<open>The conditions \<open>f(...) != 0 || g(...) != 0\<close> before an error return.\<close>

definition bind_execute :: "'d mysql_client \<Rightarrow> mysql_value list \<Rightarrow> 'd \<Rightarrow> string option \<times> 'd" where
  "bind_execute my input d =
     (let (e, d) = mysql_stmt_bind_param my input d
      in if e \<noteq> None then (e, d) else mysql_stmt_execute my d)"

definition bind_store :: "'d mysql_client \<Rightarrow> mysql_buffer list \<Rightarrow> 'd \<Rightarrow> string option \<times> 'd" where
  "bind_store my output d =
     (let (e, d) = mysql_stmt_bind_result my output d
      in if e \<noteq> None then (e, d) else mysql_stmt_store_result my d)"

text \<open>The owning pointers at the end of an operation: the statement is closed before the connection.\<close>

definition mysql_release :: "'d mysql_client \<Rightarrow> 'd \<Rightarrow> 'd" where
  "mysql_release my d = mysql_close my (mysql_stmt_close my d)"

section \<open>The operations\<close>

definition kCreateTable :: string where
  "kCreateTable = ''CREATE TABLE IF NOT EXISTS players ('' @
     ''player_id BIGINT UNSIGNED NOT NULL PRIMARY KEY,'' @ ''account VARCHAR(64) NOT NULL UNIQUE,'' @
     ''nickname VARCHAR(64) NOT NULL,'' @ ''position_x DOUBLE NOT NULL,'' @ ''position_y DOUBLE NOT NULL,'' @
     ''position_z DOUBLE NOT NULL,'' @ ''last_login_unix BIGINT NOT NULL'' @
     '') ENGINE=InnoDB DEFAULT CHARSET=utf8mb4''"

definition kSelect :: string where
  "kSelect = ''SELECT player_id, account, nickname, position_x, position_y, '' @
     ''position_z, last_login_unix FROM players WHERE account = ?''"

definition kUpsert :: string where
  "kUpsert = ''INSERT INTO players (player_id, account, nickname, position_x, '' @
     ''position_y, position_z, last_login_unix) VALUES (?, ?, ?, ?, ?, ?, ?) '' @
     ''ON DUPLICATE KEY UPDATE player_id=VALUES(player_id), '' @
     ''nickname=VALUES(nickname), position_x=VALUES(position_x), '' @
     ''position_y=VALUES(position_y), position_z=VALUES(position_z), '' @
     ''last_login_unix=VALUES(last_login_unix)''"

definition kDelete :: string where
  "kDelete = ''DELETE FROM players WHERE account = ?''"

definition EnsureSchema :: "'d mysql_client \<Rightarrow> MySqlConfig \<Rightarrow> 'd \<Rightarrow> OperationResult \<times> 'd" where
  "EnsureSchema my cfg d =
     (if mc_database cfg = [] then (MySqlInvalid ''MySQL database must not be empty'', d)
      else
        let (connection, d) = MySqlConnect my cfg d in
        case connection of
          Inl error \<Rightarrow> (MySqlUnavailable error, d)
        | Inr _ \<Rightarrow>
            let (e, d) = mysql_query my kCreateTable d
            in (case e of Some error \<Rightarrow> MySqlUnavailable error | None \<Rightarrow> OperationResult_Success,
                mysql_close my d))"

text \<open>
  A text column arrives in a zeroed array of 65 bytes together with the length of the stored text, which may
  exceed what was copied.
\<close>

definition text_buffer :: "string \<Rightarrow> string" where
  "text_buffer s = take 65 (s @ replicate 65 (CHR 0x00))"

definition loaded_row :: "PlayerRecord \<Rightarrow> PlayerRecord DataResult" where
  "loaded_row r =
     (let loaded_account_length = length (pr_account r); nickname_length = length (pr_nickname r) in
      if loaded_account_length > 64 \<or> nickname_length > 64
      then DataResult_Failure kUnavailable ''stored player text exceeds schema limit''
      else DataResult_Success
        (r\<lparr>pr_account := take loaded_account_length (text_buffer (pr_account r)),
           pr_nickname := take nickname_length (text_buffer (pr_nickname r))\<rparr>))"

definition output_buffers :: "mysql_buffer list" where
  "output_buffers = [BLongLong True, BString 65, BString 65, BDouble, BDouble, BDouble, BLongLong False]"

definition MySqlPlayerRepository_LoadByAccount ::
  "'d mysql_client \<Rightarrow> MySqlConfig \<Rightarrow> string \<Rightarrow> 'd \<Rightarrow> PlayerRecord DataResult \<times> 'd" where
  "MySqlPlayerRepository_LoadByAccount my cfg account d =
     (if account = [] \<or> length account > 64
      then (DataResult_Failure kInvalidArgument ''account length must be between 1 and 64 bytes'', d)
      else
        let (connection, d) = MySqlConnect my cfg d in
        case connection of
          Inl error \<Rightarrow> (DataResult_Failure kUnavailable error, d)
        | Inr _ \<Rightarrow>
            let (statement, d) = Prepare my kSelect d in
            case statement of
              Inl error \<Rightarrow> (DataResult_Failure kUnavailable error, mysql_close my d)
            | Inr _ \<Rightarrow>
                let (e, d) = bind_execute my [MString account] d in
                case e of
                  Some error \<Rightarrow> (DataResult_Failure kUnavailable error, mysql_release my d)
                | None \<Rightarrow>
                    let (e, d) = bind_store my output_buffers d in
                    case e of
                      Some error \<Rightarrow> (DataResult_Failure kUnavailable error, mysql_release my d)
                    | None \<Rightarrow>
                        let (fetched, d) = mysql_stmt_fetch my d
                        in (case fetched of
                              NoData \<Rightarrow> DataResult_NotFound
                            | FetchFailed error \<Rightarrow> DataResult_Failure kUnavailable error
                            | DataTruncated r \<Rightarrow> loaded_row r
                            | Fetched r \<Rightarrow> loaded_row r, mysql_release my d))"

definition player_params :: "PlayerRecord \<Rightarrow> mysql_value list" where
  "player_params p =
     [MLongLong True (pr_player_id p), MString (pr_account p), MString (pr_nickname p),
      MDouble (pr_position_x p), MDouble (pr_position_y p), MDouble (pr_position_z p),
      MLongLong False (pr_last_login_unix p)]"

definition MySqlPlayerRepository_Save ::
  "'d mysql_client \<Rightarrow> MySqlConfig \<Rightarrow> PlayerRecord \<Rightarrow> 'd \<Rightarrow> OperationResult \<times> 'd" where
  "MySqlPlayerRepository_Save my cfg p d =
     (if pr_player_id p = 0 then (MySqlInvalid ''player_id must be greater than zero'', d)
      else if pr_account p = [] \<or> length (pr_account p) > 64
      then (MySqlInvalid ''account length must be between 1 and 64 bytes'', d)
      else if pr_nickname p = [] \<or> length (pr_nickname p) > 64
      then (MySqlInvalid ''nickname length must be between 1 and 64 bytes'', d)
      else
        let (connection, d) = MySqlConnect my cfg d in
        case connection of
          Inl error \<Rightarrow> (MySqlUnavailable error, d)
        | Inr _ \<Rightarrow>
            let (statement, d) = Prepare my kUpsert d in
            case statement of
              Inl error \<Rightarrow> (MySqlUnavailable error, mysql_close my d)
            | Inr _ \<Rightarrow>
                let (e, d) = bind_execute my (player_params p) d
                in (case e of Some error \<Rightarrow> MySqlUnavailable error | None \<Rightarrow> OperationResult_Success,
                    mysql_release my d))"

definition MySqlPlayerRepository_DeleteByAccount ::
  "'d mysql_client \<Rightarrow> MySqlConfig \<Rightarrow> string \<Rightarrow> 'd \<Rightarrow> OperationResult \<times> 'd" where
  "MySqlPlayerRepository_DeleteByAccount my cfg account d =
     (if account = [] \<or> length account > 64
      then (MySqlInvalid ''account length must be between 1 and 64 bytes'', d)
      else
        let (connection, d) = MySqlConnect my cfg d in
        case connection of
          Inl error \<Rightarrow> (MySqlUnavailable error, d)
        | Inr _ \<Rightarrow>
            let (statement, d) = Prepare my kDelete d in
            case statement of
              Inl error \<Rightarrow> (MySqlUnavailable error, mysql_close my d)
            | Inr _ \<Rightarrow>
                let (e, d) = bind_execute my [MString account] d
                in (case e of Some error \<Rightarrow> MySqlUnavailable error | None \<Rightarrow> OperationResult_Success,
                    mysql_release my d))"

lemmas mysql_result_defs = MySqlInvalid_def MySqlUnavailable_def data_result_defs

lemma text_buffer_take: "length s \<le> 64 \<Longrightarrow> take (length s) (text_buffer s) = s"
  by (simp add: text_buffer_def)

lemma loaded_row_cases:
  "loaded_row r = (if length (pr_account r) > 64 \<or> length (pr_nickname r) > 64
     then DataResult_Failure kUnavailable ''stored player text exceeds schema limit'' else DataResult_Success r)"
  by (simp add: loaded_row_def Let_def text_buffer_take)

section \<open>Handles\<close>

text \<open>
  \<open>opens\<close> counts the connections and statements that the library has allocated and not freed: the two
  \<open>init\<close> functions add one when they succeed, the two \<open>close\<close> functions remove one.
\<close>

definition mysql_handles :: "'d mysql_client \<Rightarrow> ('d \<Rightarrow> int) \<Rightarrow> bool" where
  "mysql_handles my opens \<longleftrightarrow>
     (\<forall>d. opens (snd (mysql_init my d)) = opens d + of_bool (fst (mysql_init my d))) \<and>
     (\<forall>d. opens (snd (mysql_stmt_init my d)) = opens d + of_bool (fst (mysql_stmt_init my d))) \<and>
     (\<forall>d. opens (mysql_close my d) = opens d - 1) \<and>
     (\<forall>d. opens (mysql_stmt_close my d) = opens d - 1) \<and>
     (\<forall>t d. opens (mysql_options my t d) = opens d) \<and>
     (\<forall>h u p b n d. opens (snd (mysql_real_connect my h u p b n d)) = opens d) \<and>
     (\<forall>c d. opens (snd (mysql_set_character_set my c d)) = opens d) \<and>
     (\<forall>q d. opens (snd (mysql_query my q d)) = opens d) \<and>
     (\<forall>q d. opens (snd (mysql_stmt_prepare my q d)) = opens d) \<and>
     (\<forall>ps d. opens (snd (mysql_stmt_bind_param my ps d)) = opens d) \<and>
     (\<forall>d. opens (snd (mysql_stmt_execute my d)) = opens d) \<and>
     (\<forall>bs d. opens (snd (mysql_stmt_bind_result my bs d)) = opens d) \<and>
     (\<forall>d. opens (snd (mysql_stmt_store_result my d)) = opens d) \<and>
     (\<forall>d. opens (snd (mysql_stmt_fetch my d)) = opens d)"

lemma mysql_handle_steps:
  assumes "mysql_handles my opens"
  shows "opens (snd (mysql_init my d)) = opens d + of_bool (fst (mysql_init my d))"
    "opens (snd (mysql_stmt_init my d)) = opens d + of_bool (fst (mysql_stmt_init my d))"
    "opens (mysql_close my d) = opens d - 1" "opens (mysql_stmt_close my d) = opens d - 1"
    "opens (mysql_options my t d) = opens d"
    "opens (snd (mysql_real_connect my h u p b n d)) = opens d"
    "opens (snd (mysql_set_character_set my c d)) = opens d"
    "opens (snd (mysql_query my q d)) = opens d" "opens (snd (mysql_stmt_prepare my q d)) = opens d"
    "opens (snd (mysql_stmt_bind_param my ps d)) = opens d"
    "opens (snd (mysql_stmt_execute my d)) = opens d"
    "opens (snd (mysql_stmt_bind_result my bs d)) = opens d"
    "opens (snd (mysql_stmt_store_result my d)) = opens d" "opens (snd (mysql_stmt_fetch my d)) = opens d"
  using assms by (simp_all add: mysql_handles_def)

lemma mysql_connect_opens:
  assumes "mysql_handles my opens"
  shows "opens (snd (MySqlConnect my cfg d)) = opens d + of_bool (fst (MySqlConnect my cfg d) = Inr ())"
    "opens (snd (Prepare my sql d)) = opens d + of_bool (fst (Prepare my sql d) = Inr ())"
    "opens (snd (bind_execute my ps d)) = opens d" "opens (snd (bind_store my bs d)) = opens d"
    "opens (mysql_release my d) = opens d - 2"
  by (auto simp: MySqlConnect_def Prepare_def bind_execute_def bind_store_def mysql_release_def Let_def
      case_prod_unfold mysql_handle_steps[OF assms] split: option.splits)

section \<open>The table\<close>

text \<open>
  What the MySQL documentation says of the calls that succeed, for a table \<open>players\<close> of the schema of \<open>EnsureSchema\<close>. \<open>same\<close> is
  equality of texts in the collation of the column, \<open>table\<close> the set of its rows; \<open>sql\<close>, \<open>args\<close> and \<open>result\<close> are the
  prepared statement, its bound parameters and its result set. Only execution changes the table. An insertion with
  \<open>ON DUPLICATE KEY UPDATE\<close> adds the row if no row has its player id or its account; if exactly one row has,
  the columns that are named change in that row, and \<open>account\<close> is not among them. About an execution
  that reports an error, and about a duplicate of two rows, nothing is assumed.
\<close>

definition updated_row :: "PlayerRecord \<Rightarrow> PlayerRecord \<Rightarrow> PlayerRecord" where
  "updated_row p r = p\<lparr>pr_account := pr_account r\<rparr>"

definition conflicts :: "(string \<Rightarrow> string \<Rightarrow> bool) \<Rightarrow> PlayerRecord \<Rightarrow> PlayerRecord set \<Rightarrow> PlayerRecord set" where
  "conflicts same p t = {r \<in> t. pr_player_id r = pr_player_id p \<or> same (pr_account r) (pr_account p)}"

definition rows_of :: "(string \<Rightarrow> string \<Rightarrow> bool) \<Rightarrow> string \<Rightarrow> PlayerRecord set \<Rightarrow> PlayerRecord set" where
  "rows_of same a t = {r \<in> t. same (pr_account r) a}"

record 'd mysql_view =
  v_table :: "'d \<Rightarrow> PlayerRecord set"
  v_sql :: "'d \<Rightarrow> string"
  v_args :: "'d \<Rightarrow> mysql_value list"
  v_result :: "'d \<Rightarrow> PlayerRecord list"

definition mysql_setup_documented :: "'d mysql_client \<Rightarrow> 'd mysql_view \<Rightarrow> bool" where
  "mysql_setup_documented my v \<longleftrightarrow>
     (\<forall>d. v_table v (snd (mysql_init my d)) = v_table v d) \<and>
     (\<forall>t d. v_table v (mysql_options my t d) = v_table v d) \<and>
     (\<forall>h u p b n d. v_table v (snd (mysql_real_connect my h u p b n d)) = v_table v d) \<and>
     (\<forall>c d. v_table v (snd (mysql_set_character_set my c d)) = v_table v d) \<and>
     (\<forall>d. v_table v (mysql_close my d) = v_table v d) \<and>
     (\<forall>d. v_table v (snd (mysql_stmt_init my d)) = v_table v d) \<and>
     (\<forall>d. v_table v (mysql_stmt_close my d) = v_table v d) \<and>
     (\<forall>q d. v_table v (snd (mysql_stmt_prepare my q d)) = v_table v d \<and>
        (fst (mysql_stmt_prepare my q d) = None \<longrightarrow> v_sql v (snd (mysql_stmt_prepare my q d)) = q)) \<and>
     (\<forall>ps d. v_table v (snd (mysql_stmt_bind_param my ps d)) = v_table v d \<and>
        (fst (mysql_stmt_bind_param my ps d) = None \<longrightarrow>
           v_sql v (snd (mysql_stmt_bind_param my ps d)) = v_sql v d \<and>
           v_args v (snd (mysql_stmt_bind_param my ps d)) = ps))"

definition mysql_run_documented ::
  "'d mysql_client \<Rightarrow> (string \<Rightarrow> string \<Rightarrow> bool) \<Rightarrow> 'd mysql_view \<Rightarrow> bool" where
  "mysql_run_documented my same v \<longleftrightarrow>
     (\<forall>d d' a. mysql_stmt_execute my d = (None, d') \<longrightarrow> v_sql v d = kSelect \<longrightarrow> v_args v d = [MString a] \<longrightarrow>
        v_table v d' = v_table v d \<and> set (v_result v d') = rows_of same a (v_table v d)) \<and>
     (\<forall>d d' a. mysql_stmt_execute my d = (None, d') \<longrightarrow> v_sql v d = kDelete \<longrightarrow> v_args v d = [MString a] \<longrightarrow>
        v_table v d' = v_table v d - rows_of same a (v_table v d)) \<and>
     (\<forall>d d' p. mysql_stmt_execute my d = (None, d') \<longrightarrow> v_sql v d = kUpsert \<longrightarrow> v_args v d = player_params p \<longrightarrow>
        (conflicts same p (v_table v d) = {} \<longrightarrow> v_table v d' = insert p (v_table v d)) \<and>
        (\<forall>r. conflicts same p (v_table v d) = {r} \<longrightarrow> v_table v d' = insert (updated_row p r) (v_table v d - {r}))) \<and>
     (\<forall>bs d d'. mysql_stmt_bind_result my bs d = (None, d') \<longrightarrow> v_table v d' = v_table v d \<and> v_result v d' = v_result v d) \<and>
     (\<forall>d d'. mysql_stmt_store_result my d = (None, d') \<longrightarrow> v_table v d' = v_table v d \<and> v_result v d' = v_result v d) \<and>
     (\<forall>d. v_table v (snd (mysql_stmt_fetch my d)) = v_table v d) \<and>
     (\<forall>d d'. mysql_stmt_fetch my d = (NoData, d') \<longrightarrow> v_result v d = []) \<and>
     (\<forall>d d' r. mysql_stmt_fetch my d = (Fetched r, d') \<or> mysql_stmt_fetch my d = (DataTruncated r, d') \<longrightarrow>
        r \<in> set (v_result v d))"

text \<open>The keys of the schema: a player id and an account belong to one row.\<close>

definition table_keys :: "(string \<Rightarrow> string \<Rightarrow> bool) \<Rightarrow> PlayerRecord set \<Rightarrow> bool" where
  "table_keys same t \<longleftrightarrow> (\<forall>r\<in>t. \<forall>s\<in>t.
     pr_player_id r = pr_player_id s \<or> same (pr_account r) (pr_account s) \<longrightarrow> r = s)"

lemma mysql_setup_steps:
  assumes "mysql_setup_documented my v"
  shows "v_table v (snd (mysql_init my d)) = v_table v d" "v_table v (mysql_options my t d) = v_table v d"
    "v_table v (snd (mysql_real_connect my h u p b n d)) = v_table v d"
    "v_table v (snd (mysql_set_character_set my c d)) = v_table v d"
    "v_table v (mysql_close my d) = v_table v d" "v_table v (snd (mysql_stmt_init my d)) = v_table v d"
    "v_table v (mysql_stmt_close my d) = v_table v d"
    "v_table v (snd (mysql_stmt_prepare my q d)) = v_table v d"
    "fst (mysql_stmt_prepare my q d) = None \<Longrightarrow> v_sql v (snd (mysql_stmt_prepare my q d)) = q"
    "v_table v (snd (mysql_stmt_bind_param my ps d)) = v_table v d"
    "fst (mysql_stmt_bind_param my ps d) = None \<Longrightarrow>
       v_sql v (snd (mysql_stmt_bind_param my ps d)) = v_sql v d \<and>
       v_args v (snd (mysql_stmt_bind_param my ps d)) = ps"
  using assms by (simp_all add: mysql_setup_documented_def)

lemma connect_table:
  assumes "mysql_setup_documented my v"
  shows "v_table v (snd (MySqlConnect my cfg d)) = v_table v d"
  by (simp add: MySqlConnect_def Let_def case_prod_unfold mysql_setup_steps[OF assms] split: option.splits)

lemma prepare_table:
  assumes "mysql_setup_documented my v"
  shows "v_table v (snd (Prepare my q d)) = v_table v d"
    "fst (Prepare my q d) = Inr () \<Longrightarrow> v_sql v (snd (Prepare my q d)) = q"
  by (auto simp: Prepare_def Let_def case_prod_unfold mysql_setup_steps[OF assms] split: option.splits if_splits)

lemma bind_execute_ok:
  assumes "mysql_setup_documented my v" "bind_execute my ps d = (None, d')"
  obtains d1 where "mysql_stmt_execute my d1 = (None, d')" "v_table v d1 = v_table v d"
    "v_sql v d1 = v_sql v d" "v_args v d1 = ps"
proof -
  let ?b = "mysql_stmt_bind_param my ps d"
  have b: "fst ?b = None" and e: "mysql_stmt_execute my (snd ?b) = (None, d')"
    using assms(2) by (auto simp: bind_execute_def Let_def case_prod_unfold split: if_splits)
  from mysql_setup_steps(10,11)[OF assms(1), of ps d] b e show thesis by (intro that[of "snd ?b"]) auto
qed

lemma release_table:
  assumes "mysql_setup_documented my v"
  shows "v_table v (mysql_release my d) = v_table v d" "v_table v (mysql_close my d) = v_table v d"
  by (simp_all add: mysql_release_def mysql_setup_steps[OF assms])

text \<open>The part that \<open>Save\<close> and \<open>DeleteByAccount\<close> have in common.\<close>

definition run_statement ::
  "'d mysql_client \<Rightarrow> MySqlConfig \<Rightarrow> string \<Rightarrow> mysql_value list \<Rightarrow> 'd \<Rightarrow> OperationResult \<times> 'd" where
  "run_statement my cfg q ps d =
     (let (connection, d) = MySqlConnect my cfg d in
      case connection of Inl error \<Rightarrow> (MySqlUnavailable error, d)
      | Inr _ \<Rightarrow>
          let (statement, d) = Prepare my q d in
          case statement of Inl error \<Rightarrow> (MySqlUnavailable error, mysql_close my d)
          | Inr _ \<Rightarrow>
              let (e, d) = bind_execute my ps d
              in (case e of Some error \<Rightarrow> MySqlUnavailable error | None \<Rightarrow> OperationResult_Success,
                  mysql_release my d))"

definition text_valid :: "string \<Rightarrow> bool" where
  "text_valid s \<longleftrightarrow> s \<noteq> [] \<and> length s \<le> 64"

lemma save_run:
  "MySqlPlayerRepository_Save my cfg p d =
     (if pr_player_id p = 0 then (MySqlInvalid ''player_id must be greater than zero'', d)
      else if \<not> text_valid (pr_account p) then (MySqlInvalid ''account length must be between 1 and 64 bytes'', d)
      else if \<not> text_valid (pr_nickname p) then (MySqlInvalid ''nickname length must be between 1 and 64 bytes'', d)
      else run_statement my cfg kUpsert (player_params p) d)"
  unfolding MySqlPlayerRepository_Save_def run_statement_def text_valid_def not_le de_Morgan_conj not_not ..

lemma delete_run:
  "MySqlPlayerRepository_DeleteByAccount my cfg a d =
     (if \<not> text_valid a then (MySqlInvalid ''account length must be between 1 and 64 bytes'', d)
      else run_statement my cfg kDelete [MString a] d)"
  unfolding MySqlPlayerRepository_DeleteByAccount_def run_statement_def text_valid_def not_le de_Morgan_conj not_not ..

lemma run_statement_ok:
  assumes law: "mysql_setup_documented my v"
    and run: "run_statement my cfg q ps d = (res, d')"
    and ok: "OperationResult_Ok res"
  obtains d1 d2 where "mysql_stmt_execute my d1 = (None, d2)" "v_table v d1 = v_table v d" "v_sql v d1 = q"
    "v_args v d1 = ps" "v_table v d' = v_table v d2"
proof -
  obtain c d1 where c: "MySqlConnect my cfg d = (c, d1)" by fastforce
  obtain s d2 where s: "Prepare my q d1 = (s, d2)" by fastforce
  obtain e d3 where e: "bind_execute my ps d2 = (e, d3)" by fastforce
  have good: "c = Inr ()" "s = Inr ()" "e = None" "d' = mysql_release my d3"
    using run ok c s e by (auto simp: run_statement_def mysql_result_defs split: sum.splits option.splits)
  obtain d4 where d4: "mysql_stmt_execute my d4 = (None, d3)" "v_table v d4 = v_table v d2"
      "v_sql v d4 = v_sql v d2" "v_args v d4 = ps"
    using bind_execute_ok[OF law e[unfolded good(3)]] by blast
  have "v_table v d2 = v_table v d" "v_sql v d2 = q"
    using connect_table[OF law, of cfg d] c prepare_table[OF law, of q d1] s good(2) by auto
  with d4 good(4) release_table(1)[OF law] show thesis by (intro that[of d4 d3]) auto
qed

lemma bind_store_ok:
  assumes "mysql_run_documented my same v" "bind_store my bs d = (None, d')"
  shows "v_result v d' = v_result v d"
proof -
  let ?b = "mysql_stmt_bind_result my bs d"
  have b: "?b = (None, snd ?b)" and e: "mysql_stmt_store_result my (snd ?b) = (None, d')"
    using assms(2) by (auto simp: bind_store_def Let_def case_prod_unfold prod_eq_iff split: if_splits)
  have "v_result v (snd ?b) = v_result v d"
    using assms(1) b unfolding mysql_run_documented_def by metis
  moreover have "v_result v d' = v_result v (snd ?b)"
    using assms(1) e unfolding mysql_run_documented_def by metis
  ultimately show ?thesis by simp
qed

lemma execute_select:
  assumes "mysql_run_documented my same v" "mysql_stmt_execute my d = (None, d')" "v_sql v d = kSelect"
    "v_args v d = [MString a]"
  shows "set (v_result v d') = rows_of same a (v_table v d)"
  using assms unfolding mysql_run_documented_def by metis

lemma execute_delete:
  assumes "mysql_run_documented my same v" "mysql_stmt_execute my d = (None, d')" "v_sql v d = kDelete"
    "v_args v d = [MString a]"
  shows "v_table v d' = v_table v d - rows_of same a (v_table v d)"
  using assms unfolding mysql_run_documented_def by metis

lemma execute_upsert:
  assumes "mysql_run_documented my same v" "mysql_stmt_execute my d = (None, d')" "v_sql v d = kUpsert"
    "v_args v d = player_params p"
  shows "conflicts same p (v_table v d) = {} \<Longrightarrow> v_table v d' = insert p (v_table v d)"
    "conflicts same p (v_table v d) = {r} \<Longrightarrow> v_table v d' = insert (updated_row p r) (v_table v d - {r})"
  using assms unfolding mysql_run_documented_def by metis+

lemma fetch_row:
  assumes "mysql_run_documented my same v"
  shows "mysql_stmt_fetch my d = (NoData, d') \<Longrightarrow> v_result v d = []"
    "mysql_stmt_fetch my d = (Fetched r, d') \<Longrightarrow> r \<in> set (v_result v d)"
    "mysql_stmt_fetch my d = (DataTruncated r, d') \<Longrightarrow> r \<in> set (v_result v d)"
  using assms unfolding mysql_run_documented_def by metis+

text \<open>What a load can answer.\<close>

lemma load_answers:
  assumes base: "mysql_setup_documented my v" and law: "mysql_run_documented my same v"
    and load: "MySqlPlayerRepository_LoadByAccount my cfg a d = (lr, d')"
    and len: "text_valid a"
  shows "(\<exists>r \<in> rows_of same a (v_table v d). lr = loaded_row r) \<or>
    (lr = DataResult_NotFound \<and> rows_of same a (v_table v d) = {}) \<or>
    (\<exists>e. lr = DataResult_Failure kUnavailable e)"
proof -
  obtain c d1 where c: "MySqlConnect my cfg d = (c, d1)" by fastforce
  obtain s d2 where s: "Prepare my kSelect d1 = (s, d2)" by fastforce
  obtain e d3 where e: "bind_execute my [MString a] d2 = (e, d3)" by fastforce
  obtain b d4 where b: "bind_store my output_buffers d3 = (b, d4)" by fastforce
  obtain f d5 where f: "mysql_stmt_fetch my d4 = (f, d5)" by fastforce
  note steps = load len c s e b f
  show ?thesis
  proof (cases "c = Inr () \<and> s = Inr () \<and> e = None \<and> b = None")
    case True
    then have lr: "lr = (case f of NoData \<Rightarrow> DataResult_NotFound | FetchFailed error \<Rightarrow> DataResult_Failure kUnavailable error
        | DataTruncated r \<Rightarrow> loaded_row r | Fetched r \<Rightarrow> loaded_row r)"
      using steps by (simp add: MySqlPlayerRepository_LoadByAccount_def text_valid_def)
    obtain d6 where d6: "mysql_stmt_execute my d6 = (None, d3)" "v_table v d6 = v_table v d2"
        "v_sql v d6 = v_sql v d2" "v_args v d6 = [MString a]"
      using bind_execute_ok[OF base, of "[MString a]" d2 d3] e True by blast
    have "v_table v d2 = v_table v d" "v_sql v d2 = kSelect"
      using connect_table[OF base, of cfg d] c prepare_table[OF base, of kSelect d1] s True by auto
    then have "set (v_result v d3) = rows_of same a (v_table v d)"
      using execute_select[OF law d6(1)] d6 by simp
    then have rows: "set (v_result v d4) = rows_of same a (v_table v d)"
      using bind_store_ok[OF law, of output_buffers d3 d4] b True by simp
    show ?thesis
      using fetch_row[OF law, where d = d4 and d' = d5] f lr rows by (cases f) auto
  next
    case False
    then show ?thesis
      using steps by (auto simp: MySqlPlayerRepository_LoadByAccount_def text_valid_def split: sum.splits option.splits)
  qed
qed

lemma save_executes:
  assumes "mysql_setup_documented my v"
    and "MySqlPlayerRepository_Save my cfg p d = (res, d')" and ok: "OperationResult_Ok res"
  obtains d1 d2 where "mysql_stmt_execute my d1 = (None, d2)" "v_table v d1 = v_table v d" "v_sql v d1 = kUpsert"
    "v_args v d1 = player_params p" "v_table v d' = v_table v d2"
proof -
  have "run_statement my cfg kUpsert (player_params p) d = (res, d')"
    using assms(2) ok by (auto simp: save_run mysql_result_defs split: if_splits)
  from run_statement_ok[OF assms(1) this ok] that show thesis by blast
qed

lemma delete_executes:
  assumes "mysql_setup_documented my v" and law: "mysql_run_documented my same v"
    and "MySqlPlayerRepository_DeleteByAccount my cfg a d = (res, d')" and ok: "OperationResult_Ok res"
  shows "v_table v d' = v_table v d - rows_of same a (v_table v d)"
proof -
  have "run_statement my cfg kDelete [MString a] d = (res, d')"
    using assms(3) ok by (auto simp: delete_run mysql_result_defs split: if_splits)
  from run_statement_ok[OF assms(1) this ok] obtain d1 d2 where
    "mysql_stmt_execute my d1 = (None, d2)" "v_table v d1 = v_table v d" "v_sql v d1 = kDelete"
    "v_args v d1 = [MString a]" "v_table v d' = v_table v d2" by blast
  then show ?thesis using execute_delete[OF law, of d1 d2 a] by simp
qed

text \<open>After a save whose player id no other account has, the rows of an account.\<close>

lemma conflicts_single:
  assumes "equivp same" "table_keys same t"
    and "\<forall>r\<in>t. pr_player_id r = pr_player_id p \<longrightarrow> same (pr_account r) (pr_account p)"
  shows "conflicts same p t = {} \<or> (\<exists>r\<in>t. conflicts same p t = {r} \<and> same (pr_account r) (pr_account p))"
proof (cases "conflicts same p t = {}")
  case False
  then obtain r where r: "r \<in> conflicts same p t" by blast
  then have acc: "r \<in> t" "same (pr_account r) (pr_account p)" using assms(3) by (auto simp: conflicts_def)
  have "s = r" if "s \<in> conflicts same p t" for s
  proof -
    have "s \<in> t" "same (pr_account s) (pr_account p)" using that assms(3) by (auto simp: conflicts_def)
    then have "same (pr_account s) (pr_account r)"
      using acc assms(1) by (metis equivp_symp equivp_transp)
    then show ?thesis using \<open>s \<in> t\<close> acc(1) assms(2) by (auto simp: table_keys_def)
  qed
  with r acc show ?thesis by blast
qed simp

lemma save_rows:
  assumes "mysql_setup_documented my v" and law: "mysql_run_documented my same v" and same: "equivp same"
    and keys: "table_keys same (v_table v d)"
    and own: "\<forall>r\<in>v_table v d. pr_player_id r = pr_player_id p \<longrightarrow> same (pr_account r) (pr_account p)"
    and save: "MySqlPlayerRepository_Save my cfg p d = (res, d')" "OperationResult_Ok res"
  obtains acc where "same acc (pr_account p)"
    "rows_of same b (v_table v d') = (if same (pr_account p) b then {p\<lparr>pr_account := acc\<rparr>} else rows_of same b (v_table v d))"
proof -
  obtain d1 d2 where ex: "mysql_stmt_execute my d1 = (None, d2)" "v_table v d1 = v_table v d" "v_sql v d1 = kUpsert"
    "v_args v d1 = player_params p" "v_table v d' = v_table v d2"
    by (rule save_executes[OF assms(1) save])
  have refl: "same x x" for x using same by (rule equivp_reflp)
  have swap: "same x y \<longleftrightarrow> same y x" for x y using same by (metis equivp_symp)
  have trans: "same x y \<Longrightarrow> same y z \<Longrightarrow> same x z" for x y z using same by (rule equivp_transp)
  from conflicts_single[OF same keys own] consider
      (new) "conflicts same p (v_table v d) = {}"
    | (old) r where "r \<in> v_table v d" "conflicts same p (v_table v d) = {r}" "same (pr_account r) (pr_account p)"
    by blast
  then show thesis
  proof cases
    case new
    then have t: "v_table v d' = insert p (v_table v d)" using execute_upsert(1)[OF law ex(1,3,4)] ex by simp
    have "\<not> same (pr_account s) b" if "same (pr_account p) b" "s \<in> v_table v d" for s
    proof
      assume "same (pr_account s) b"
      with that(1) have "same (pr_account s) (pr_account p)" by (metis swap trans)
      with new that(2) show False by (auto simp: conflicts_def)
    qed
    then show thesis by (intro that[of "pr_account p"]) (auto simp: t refl rows_of_def)
  next
    case old
    then have t: "v_table v d' = insert (updated_row p r) (v_table v d - {r})"
      using execute_upsert(2)[OF law ex(1,3,4)] ex by simp
    have uniq: "s = r" if "same (pr_account p) b" "s \<in> v_table v d" "same (pr_account s) b" for s
    proof -
      from that have "same (pr_account s) (pr_account p)" by (metis swap trans)
      with that(2) have "s \<in> conflicts same p (v_table v d)" by (simp add: conflicts_def)
      with old(2) show ?thesis by simp
    qed
    have r: "same (pr_account r) b \<longleftrightarrow> same (pr_account p) b" by (metis old(3) swap trans)
    have "rows_of same b (v_table v d') =
        (if same (pr_account p) b then {p\<lparr>pr_account := pr_account r\<rparr>} else rows_of same b (v_table v d))"
      using uniq r by (auto simp: t updated_row_def rows_of_def)
    then show thesis by (intro that[of "pr_account r"] old(3))
  qed
qed

section \<open>A plain server\<close>

text \<open>A server that keeps the rows of the table and never fails, with the equality of texts as collation.\<close>

record mysql_world =
  mw_rows :: "PlayerRecord list"
  mw_sql :: string
  mw_args :: "mysql_value list"
  mw_result :: "PlayerRecord list"
  mw_open :: int

definition plain_upsert :: "PlayerRecord \<Rightarrow> PlayerRecord list \<Rightarrow> PlayerRecord list" where
  "plain_upsert p rs =
     (case List.find (\<lambda>r. pr_player_id r = pr_player_id p \<or> pr_account r = pr_account p) rs of
        None \<Rightarrow> p # rs
      | Some r \<Rightarrow> map (\<lambda>s. if s = r then updated_row p r else s) rs)"

fun params_player :: "mysql_value list \<Rightarrow> PlayerRecord option" where
  "params_player [MLongLong _ i, MString a, MString n, MDouble x, MDouble y, MDouble z, MLongLong _ l] =
     Some \<lparr>pr_player_id = i, pr_account = a, pr_nickname = n, pr_position_x = x, pr_position_y = y,
           pr_position_z = z, pr_last_login_unix = l\<rparr>"
| "params_player _ = None"

definition plain_execute :: "mysql_world \<Rightarrow> mysql_world" where
  "plain_execute d =
     (case params_player (mw_args d) of
        Some p \<Rightarrow> d\<lparr>mw_rows := plain_upsert p (mw_rows d)\<rparr>
      | None \<Rightarrow>
          (case mw_args d of
             [MString a] \<Rightarrow>
               if mw_sql d = kSelect then d\<lparr>mw_result := filter (\<lambda>r. pr_account r = a) (mw_rows d)\<rparr>
               else d\<lparr>mw_rows := filter (\<lambda>r. pr_account r \<noteq> a) (mw_rows d)\<rparr>
           | _ \<Rightarrow> d))"

definition plain_mysql :: "mysql_world mysql_client" where
  "plain_mysql =
     \<lparr>mysql_library_init = (\<lambda>d. (True, d)),
      mysql_init = (\<lambda>d. (True, d\<lparr>mw_open := mw_open d + 1\<rparr>)),
      mysql_options = (\<lambda>_ d. d),
      mysql_real_connect = (\<lambda>_ _ _ _ _ d. (None, d)),
      mysql_set_character_set = (\<lambda>_ d. (None, d)),
      mysql_query = (\<lambda>_ d. (None, d)),
      mysql_close = (\<lambda>d. d\<lparr>mw_open := mw_open d - 1\<rparr>),
      mysql_stmt_init = (\<lambda>d. (True, d\<lparr>mw_open := mw_open d + 1\<rparr>)),
      mysql_stmt_prepare = (\<lambda>q d. (None, d\<lparr>mw_sql := q\<rparr>)),
      mysql_stmt_bind_param = (\<lambda>ps d. (None, d\<lparr>mw_args := ps\<rparr>)),
      mysql_stmt_execute = (\<lambda>d. (None, plain_execute d)),
      mysql_stmt_bind_result = (\<lambda>_ d. (None, d)),
      mysql_stmt_store_result = (\<lambda>d. (None, d)),
      mysql_stmt_fetch = (\<lambda>d. (case mw_result d of [] \<Rightarrow> NoData | r # _ \<Rightarrow> Fetched r, d)),
      mysql_stmt_close = (\<lambda>d. d\<lparr>mw_open := mw_open d - 1\<rparr>)\<rparr>"

definition plain_view :: "mysql_world mysql_view" where
  "plain_view = \<lparr>v_table = (\<lambda>d. set (mw_rows d)), v_sql = mw_sql, v_args = mw_args, v_result = mw_result\<rparr>"

lemma plain_handles: "mysql_handles plain_mysql mw_open"
  by (simp add: mysql_handles_def plain_mysql_def plain_execute_def split: option.splits list.splits mysql_value.splits)

lemma plain_setup: "mysql_setup_documented plain_mysql plain_view"
  by (simp add: mysql_setup_documented_def plain_mysql_def plain_view_def)

lemma params_player_params [simp]: "params_player (player_params p) = Some p"
  by (simp add: player_params_def)

lemma plain_upsert_set:
  assumes "conflicts (=) p (set rs) = c"
  shows "c = {} \<Longrightarrow> set (plain_upsert p rs) = insert p (set rs)"
    "c = {r} \<Longrightarrow> set (plain_upsert p rs) = insert (updated_row p r) (set rs - {r})"
proof -
  let ?P = "\<lambda>r. pr_player_id r = pr_player_id p \<or> pr_account r = pr_account p"
  assume "c = {}"
  then have "List.find ?P rs = None" using assms by (auto simp: conflicts_def find_None_iff)
  then show "set (plain_upsert p rs) = insert p (set rs)" by (simp add: plain_upsert_def)
next
  let ?P = "\<lambda>r. pr_player_id r = pr_player_id p \<or> pr_account r = pr_account p"
  assume c: "c = {r}"
  have "List.find ?P rs = Some r"
  proof (cases "List.find ?P rs")
    case None
    then show ?thesis using assms c by (auto simp: conflicts_def find_None_iff)
  next
    case (Some s)
    then have "s \<in> conflicts (=) p (set rs)" by (auto simp: conflicts_def find_Some_iff)
    with Some c assms show ?thesis by simp
  qed
  moreover have "r \<in> set rs" using assms c by (auto simp: conflicts_def)
  ultimately show "set (plain_upsert p rs) = insert (updated_row p r) (set rs - {r})"
    by (auto simp: plain_upsert_def image_iff)
qed

lemma statements_differ: "kDelete \<noteq> kSelect"
  by (simp add: kDelete_def kSelect_def)

lemma plain_run: "mysql_run_documented plain_mysql (=) plain_view"
proof -
  have "set (mw_result (plain_execute d)) = rows_of (=) a (set (mw_rows d)) \<and> mw_rows (plain_execute d) = mw_rows d"
    if "mw_sql d = kSelect" "mw_args d = [MString a]" for d a
    using that by (auto simp: plain_execute_def rows_of_def)
  moreover have "set (mw_rows (plain_execute d)) = set (mw_rows d) - rows_of (=) a (set (mw_rows d))"
    if "mw_sql d = kDelete" "mw_args d = [MString a]" for d a
    using that statements_differ by (auto simp: plain_execute_def rows_of_def)
  moreover have "(conflicts (=) p (set (mw_rows d)) = {} \<longrightarrow> set (mw_rows (plain_execute d)) = insert p (set (mw_rows d))) \<and>
      (\<forall>r. conflicts (=) p (set (mw_rows d)) = {r} \<longrightarrow>
        set (mw_rows (plain_execute d)) = insert (updated_row p r) (set (mw_rows d) - {r}))"
    if "mw_args d = player_params p" for d p
    using that plain_upsert_set[of p "mw_rows d"] by (simp add: plain_execute_def)
  ultimately show ?thesis
    unfolding mysql_run_documented_def
    by (simp add: plain_mysql_def plain_view_def split: list.splits)
qed

section \<open>Properties\<close>

text \<open>
  C21: Over a database that behaves as documented, a record whose player id no other account has, and that \<open>Save\<close>
  reports as saved, is what \<open>LoadByAccount\<close> finds under any spelling of the account that the collation
  identifies with it, in the spelling of the row's first save; otherwise the load
  reports that the database is unavailable, never that there is no such player. The rows of the other accounts
  are as before the save. After a successful \<open>DeleteByAccount\<close> no load of the account returns a player.
\<close>

theorem mysql_load_finds_the_saved_player:
  assumes "mysql_setup_documented my v" "mysql_run_documented my same v" "equivp same"
    and "table_keys same (v_table v d)"
    and "\<forall>r\<in>v_table v d. pr_player_id r = pr_player_id p \<longrightarrow> same (pr_account r) (pr_account p)"
    and "MySqlPlayerRepository_Save my cfg p d = (res, d1)" "OperationResult_Ok res"
    and "text_valid a" "same (pr_account p) a"
    and "MySqlPlayerRepository_LoadByAccount my cfg a d1 = (lr, d2)"
    and "MySqlPlayerRepository_DeleteByAccount my cfg a d1 = (dres, d3)" "OperationResult_Ok dres"
    and "MySqlPlayerRepository_LoadByAccount my cfg a d3 = (lr', d4)"
  shows "((\<exists>acc. same acc a \<and> lr = DataResult_Success (p\<lparr>pr_account := acc\<rparr>)) \<or> dr_status lr = kUnavailable) \<and>
    (\<forall>b. \<not> same (pr_account p) b \<longrightarrow> rows_of same b (v_table v d1) = rows_of same b (v_table v d)) \<and>
    \<not> DataResult_Ok lr'"
proof (intro conjI allI impI)
  obtain acc where acc: "same acc (pr_account p)" "rows_of same a (v_table v d1) = {p\<lparr>pr_account := acc\<rparr>}"
    using save_rows[OF assms(1-7), of a] assms(9) by (metis (full_types))
  have "same acc a" using acc(1) assms(3,9) by (metis equivp_transp)
  with load_answers[OF assms(1,2,10,8)] acc(2)
  show "(\<exists>acc. same acc a \<and> lr = DataResult_Success (p\<lparr>pr_account := acc\<rparr>)) \<or> dr_status lr = kUnavailable"
    by (auto simp: loaded_row_cases DataResult_Failure_def split: if_splits)
  show "rows_of same b (v_table v d1) = rows_of same b (v_table v d)" if "\<not> same (pr_account p) b" for b
    using save_rows[OF assms(1-7), of b] that by (metis (full_types))
  have "rows_of same a (v_table v d3) = {}"
    using delete_executes[OF assms(1,2,11,12)] by (auto simp: rows_of_def)
  then show "\<not> DataResult_Ok lr'"
    using load_answers[OF assms(1,2,13,8)] by (auto simp: data_result_defs)
qed

definition example_record :: "u64 \<Rightarrow> string \<Rightarrow> string \<Rightarrow> PlayerRecord" where
  "example_record i a n = \<lparr>pr_player_id = i, pr_account = a, pr_nickname = n, pr_position_x = DFin 500, pr_position_y = DFin 0,
     pr_position_z = DFin 0, pr_last_login_unix = 0\<rparr>"

definition example_mysql :: mysql_world where
  "example_mysql = \<lparr>mw_rows = [example_record 1 ''a'' ''A''], mw_sql = '''', mw_args = [], mw_result = [], mw_open = 0\<rparr>"

lemmas mysql_eval = save_run delete_run MySqlPlayerRepository_LoadByAccount_def run_statement_def MySqlConnect_def
  Prepare_def bind_execute_def bind_store_def mysql_release_def plain_mysql_def plain_execute_def
  example_record_def example_mysql_def default_mysql_config_def text_valid_def

theorem mysql_load_finds_the_saved_player_witness:
  "\<exists>d1 lr d2. MySqlPlayerRepository_Save plain_mysql default_mysql_config (example_record 2 ''b'' ''B'') example_mysql =
       (OperationResult_Success, d1) \<and>
     MySqlPlayerRepository_LoadByAccount plain_mysql default_mysql_config ''b'' d1 = (lr, d2) \<and>
     lr = DataResult_Success (example_record 2 ''b'' ''B'')"
proof -
  let ?p = "example_record 2 ''b'' ''B''"
  let ?save = "MySqlPlayerRepository_Save plain_mysql default_mysql_config"
  let ?load = "MySqlPlayerRepository_LoadByAccount plain_mysql default_mysql_config ''b''"
  let ?delete = "MySqlPlayerRepository_DeleteByAccount plain_mysql default_mysql_config ''b''"
  obtain d1 where d1: "?save ?p example_mysql = (OperationResult_Success, d1)"
    by (simp add: mysql_eval)
  obtain d3 where d3: "?delete d1 = (OperationResult_Success, d3)"
    by (simp add: mysql_eval)
  obtain lr d2 where lr: "?load d1 = (lr, d2)" by fastforce
  obtain lr' d4 where lr': "?load d3 = (lr', d4)" by fastforce
  have "equivp ((=) :: string \<Rightarrow> _)" by (rule identity_equivp)
  moreover have "table_keys (=) (v_table plain_view example_mysql)"
    "\<forall>r\<in>v_table plain_view example_mysql. pr_player_id r = pr_player_id ?p \<longrightarrow> pr_account r = pr_account ?p"
    by (simp_all add: table_keys_def plain_view_def example_mysql_def example_record_def)
  ultimately have "(\<exists>acc. acc = ''b'' \<and> lr = DataResult_Success (?p\<lparr>pr_account := acc\<rparr>)) \<or> dr_status lr = kUnavailable"
    using mysql_load_finds_the_saved_player[OF plain_setup plain_run, of example_mysql ?p default_mysql_config
        OperationResult_Success d1 "''b''" lr d2 OperationResult_Success d3 lr' d4] d1 d3 lr lr'
    by (simp add: OperationResult_Ok_def OperationResult_Success_def text_valid_def example_record_def)
  moreover have "dr_status lr \<noteq> kUnavailable"
    using lr d1 by (auto simp: mysql_eval plain_upsert_def loaded_row_cases data_result_defs kSelect_def split: list.splits if_splits)
  ultimately show ?thesis using d1 lr by (auto simp: example_record_def)
qed

text \<open>
  The player id is not checked against the account. When exactly one row has the player id of a record, and
  that row belongs to another account, a successful \<open>Save\<close> overwrites that account's row with the record's nickname, position and
  login time, and stores nothing under the record's own account: no load of it returns a player.
\<close>

theorem mysql_save_overwrites_foreign_row:
  assumes "mysql_setup_documented my v" "mysql_run_documented my same v" "equivp same"
    and "conflicts same p (v_table v d) = {r}" "\<not> same (pr_account r) (pr_account p)"
    and "MySqlPlayerRepository_Save my cfg p d = (res, d1)" "OperationResult_Ok res"
    and "MySqlPlayerRepository_LoadByAccount my cfg (pr_account p) d1 = (lr, d2)"
  shows "v_table v d1 = insert (p\<lparr>pr_account := pr_account r\<rparr>) (v_table v d - {r}) \<and> \<not> DataResult_Ok lr"
proof -
  obtain e1 e2 where ex: "mysql_stmt_execute my e1 = (None, e2)" "v_table v e1 = v_table v d" "v_sql v e1 = kUpsert"
    "v_args v e1 = player_params p" "v_table v d1 = v_table v e2"
    by (rule save_executes[OF assms(1,6,7)])
  then have t: "v_table v d1 = insert (updated_row p r) (v_table v d - {r})"
    using execute_upsert(2)[OF assms(2) ex(1,3,4), of r] assms(4) by simp
  have "s = r" if "s \<in> v_table v d" "same (pr_account s) (pr_account p)" for s
    using that assms(4) by (auto simp: conflicts_def)
  then have none: "rows_of same (pr_account p) (v_table v d1) = {}"
    using assms(5) by (auto simp: rows_of_def t updated_row_def)
  have "text_valid (pr_account p)"
    using assms(6,7) by (auto simp: save_run mysql_result_defs split: if_splits)
  from load_answers[OF assms(1,2,8) this] none t show ?thesis
    by (auto simp: updated_row_def data_result_defs)
qed

theorem mysql_save_overwrites_foreign_row_witness:
  "\<exists>d1. MySqlPlayerRepository_Save plain_mysql default_mysql_config (example_record 1 ''b'' ''B'') example_mysql =
       (OperationResult_Success, d1) \<and> set (mw_rows d1) = {example_record 1 ''a'' ''B''}"
proof -
  let ?p = "example_record 1 ''b'' ''B''"
  let ?r = "example_record 1 ''a'' ''A''"
  obtain d1 where d1: "MySqlPlayerRepository_Save plain_mysql default_mysql_config ?p example_mysql = (OperationResult_Success, d1)"
    by (simp add: mysql_eval)
  obtain lr d2 where lr: "MySqlPlayerRepository_LoadByAccount plain_mysql default_mysql_config ''b'' d1 = (lr, d2)"
    by fastforce
  have "equivp ((=) :: string \<Rightarrow> _)" by (rule identity_equivp)
  moreover have "conflicts (=) ?p (v_table plain_view example_mysql) = {?r}"
    by (auto simp: conflicts_def plain_view_def example_mysql_def example_record_def)
  ultimately have "v_table plain_view d1 = insert (?p\<lparr>pr_account := pr_account ?r\<rparr>) (v_table plain_view example_mysql - {?r})"
    using mysql_save_overwrites_foreign_row[OF plain_setup plain_run, of ?p example_mysql ?r default_mysql_config
        OperationResult_Success d1 lr d2] d1 lr
    by (simp add: OperationResult_Ok_def OperationResult_Success_def example_record_def)
  with d1 show ?thesis by (auto simp: plain_view_def example_mysql_def example_record_def)
qed



end
