(* ===== verification/Blocking_Client.thy ===== *)
theory Blocking_Client
  imports Protobuf_Codec Unique_Fd Posix_Net Tcp_Connection Data_Store
begin

text \<open>
  \<open>src/client/blocking_client.cpp\<close>: the client side of a connection. The system calls answer from
  scripts, as in \<open>Tcp_Connection\<close>; a script that has run out means that the call does not return.
\<close>

section \<open>State\<close>

datatype ReceiveStatus = RFrameReady | RTimeout | RClosed | RProtocolError | RIoError

record BlockingClient =
  bc_descriptor :: UniqueFd
  bc_decoder :: FrameDecoder
  bc_shutdown :: bool

text \<open>The descriptors of the process and the descriptors that \<open>shutdown\<close> was called for.\<close>

record client_os =
  co_table :: descriptor_table
  co_shutdowns :: "int list"

definition BlockingClient_new :: "BlockingClient outcome" where
  "BlockingClient_new =
     outcome_bind (FrameDecoder_new kDefaultMaxPayloadSize) (\<lambda>d.
       Inr \<lparr>bc_descriptor = no_fd, bc_decoder = d, bc_shutdown = False\<rparr>)"

definition Connected :: "BlockingClient \<Rightarrow> bool" where
  "Connected c \<longleftrightarrow> UniqueFd_valid (bc_descriptor c) \<and> \<not> bc_shutdown c"

definition os_shutdown :: "int \<Rightarrow> client_os \<Rightarrow> client_os" where
  "os_shutdown fd os = os\<lparr>co_shutdowns := co_shutdowns os @ [fd]\<rparr>"

definition client_Shutdown :: "BlockingClient \<Rightarrow> client_os \<Rightarrow> BlockingClient \<times> client_os" where
  "client_Shutdown c os =
     (if UniqueFd_valid (bc_descriptor c)
      then (c\<lparr>bc_shutdown := True\<rparr>,
            if \<not> bc_shutdown c then os_shutdown (UniqueFd_Get (bc_descriptor c)) os else os)
      else (c, os))"

section \<open>Connecting\<close>

text \<open>
  The answers of \<open>socket\<close> and of \<open>connect\<close>, which receives the address and the port in network byte order.
\<close>

record connect_answers =
  ca_socket :: int
  ca_connect :: "nat list \<Rightarrow> u16 \<Rightarrow> bool"

definition opened :: "int \<Rightarrow> client_os \<Rightarrow> client_os" where
  "opened fd os = os\<lparr>co_table := (co_table os)\<lparr>open_fds := insert fd (open_fds (co_table os))\<rparr>\<rparr>"

definition client_Connect ::
  "connect_answers \<Rightarrow> string \<Rightarrow> u16 \<Rightarrow> BlockingClient \<Rightarrow> client_os \<Rightarrow> bool \<times> BlockingClient \<times> client_os" where
  "client_Connect ca address port c os =
     (let (c, os) =
        (if UniqueFd_valid (bc_descriptor c)
         then let os = os_shutdown (UniqueFd_Get (bc_descriptor c)) os;
                  (u, t) = UniqueFd_Reset no_fd (bc_descriptor c) (co_table os)
              in (c\<lparr>bc_descriptor := u\<rparr>, os\<lparr>co_table := t\<rparr>)
         else (c, os));
        c = c\<lparr>bc_shutdown := False\<rparr>;
        descriptor = ca_socket ca in
      if \<not> UniqueFd_valid descriptor then (False, c, os)
      else
        let os = opened descriptor os;
            connected = (case inet_pton address of
                           None \<Rightarrow> False
                         | Some endpoint \<Rightarrow> ca_connect ca endpoint (htons port)) in
        if \<not> connected then (False, c, os\<lparr>co_table := UniqueFd_destroy descriptor (co_table os)\<rparr>)
        else
          let (u, rest, t) = UniqueFd_assign (bc_descriptor c) descriptor (co_table os)
          in (True, c\<lparr>bc_descriptor := u, bc_decoder := FrameDecoder_Reset (bc_decoder c)\<rparr>,
              os\<lparr>co_table := UniqueFd_destroy rest t\<rparr>))"

section \<open>Sending\<close>

text \<open>
  The loop of \<open>Send\<close> returns what the function returns, \<open>None\<close> if a call never returns, and the bytes
  that the kernel has taken over.
\<close>

fun send_loop :: "send_result list \<Rightarrow> byte list \<Rightarrow> nat \<Rightarrow> bool option \<times> byte list" where
  "send_loop [] bytes offset = (if offset < length bytes then None else Some True, [])"
| "send_loop (r # rs) bytes offset =
     (if \<not> offset < length bytes then (Some True, [])
      else case r of
        Sent n \<Rightarrow>
          let n = min n (length bytes - offset)
          in if n > 0
             then let (result, more) = send_loop rs bytes (offset + n)
                  in (result, take n (drop offset bytes) @ more)
             else (Some False, [])
      | SendInterrupted \<Rightarrow> send_loop rs bytes offset
      | SendWouldBlock \<Rightarrow> (Some False, [])
      | SendFailed \<Rightarrow> (Some False, []))"

definition client_Send ::
  "protobuf \<Rightarrow> send_result list \<Rightarrow> MessageType \<Rightarrow> Message \<Rightarrow> BlockingClient \<Rightarrow> (bool option \<times> byte list) outcome" where
  "client_Send pb rs type message c =
     (if \<not> Connected c then Inr (Some False, [])
      else case EncodeProtobufFrame pb type message kDefaultMaxPayloadSize of
             Inl (Throw _) \<Rightarrow> Inr (Some False, [])
           | Inl UndefinedBehaviour \<Rightarrow> Inl UndefinedBehaviour
           | Inr bytes \<Rightarrow> Inr (send_loop rs bytes 0))"

section \<open>Receiving\<close>

text \<open>
  \<open>poll\<close> on the socket: it reports nothing within the given time, is interrupted, fails, reports \<open>POLLERR\<close>
  or \<open>POLLNVAL\<close>, or reports something else, and then \<open>recv\<close> is called.
\<close>

datatype poll_answer = PollNothing | PollInterrupted | PollFailed | PollError | PollReady recv_result

text \<open>An entry of the script: what the clock shows, in nanoseconds, and how \<open>poll\<close> answers a timeout.\<close>

type_synonym wait_step = "int \<times> (int \<Rightarrow> poll_answer)"

definition ns_per_ms :: int where
  "ns_per_ms = 1000000"

text \<open>\<open>duration_cast\<close> to milliseconds truncates towards zero; the cast to \<open>int\<close> keeps 32 bits.\<close>

definition whole_ms :: "int \<Rightarrow> int" where
  "whole_ms ns = sgn ns * (\<bar>ns\<bar> div ns_per_ms)"

definition cast_int :: "int \<Rightarrow> int" where
  "cast_int n = sint (word_of_int n :: 32 word)"

text \<open>What one pass over the decoder gives: a result, or nothing when more data are needed.\<close>

definition try_decode :: "FrameDecoder \<Rightarrow> Frame \<Rightarrow> ReceiveStatus option \<times> Frame \<times> FrameDecoder" where
  "try_decode d frame =
     (let (decode_status, frame, d) = FrameDecoder_Next d frame
      in (if decode_status = kFrameReady then Some RFrameReady
          else if decode_status \<noteq> kNeedMoreData then Some RProtocolError
          else None, frame, d))"

text \<open>
  The loop of \<open>Receive\<close>: the status, or \<open>None\<close> if a call never returns, the frame, the decoder, and the bytes that
  were read.
\<close>

type_synonym receive_result = "ReceiveStatus option \<times> Frame \<times> FrameDecoder \<times> byte list"

fun client_receive_loop ::
  "int \<Rightarrow> wait_step list \<Rightarrow> FrameDecoder \<Rightarrow> Frame \<Rightarrow> byte list \<Rightarrow> receive_result outcome" where
  "client_receive_loop expiry [] d frame got =
     (let (status, frame, d) = try_decode d frame in Inr (status, frame, d, got))"
| "client_receive_loop expiry ((now, poll) # steps) d frame got =
     (let (status, frame, d) = try_decode d frame in
      if status \<noteq> None then Inr (status, frame, d, got)
      else if \<not> int64 (expiry - now) then Inl UndefinedBehaviour
      else
        let remaining = whole_ms (expiry - now) in
        if remaining \<le> 0 then Inr (Some RTimeout, frame, d, got)
        else case poll (cast_int remaining) of
          PollNothing \<Rightarrow> Inr (Some RTimeout, frame, d, got)
        | PollInterrupted \<Rightarrow> client_receive_loop expiry steps d frame got
        | PollFailed \<Rightarrow> Inr (Some RIoError, frame, d, got)
        | PollError \<Rightarrow> Inr (Some RIoError, frame, d, got)
        | PollReady (Received bytes) \<Rightarrow>
            if bytes \<noteq> []
            then outcome_bind (FrameDecoder_Append_ptr (Some bytes) (length bytes) d) (\<lambda>d.
                   client_receive_loop expiry steps d frame (got @ bytes))
            else Inr (Some RClosed, frame, d, got)
        | PollReady RecvInterrupted \<Rightarrow> client_receive_loop expiry steps d frame got
        | PollReady RecvWouldBlock \<Rightarrow> client_receive_loop expiry steps d frame got
        | PollReady RecvFailed \<Rightarrow> Inr (Some RIoError, frame, d, got))"

definition client_Receive ::
  "int \<Rightarrow> wait_step list \<Rightarrow> int \<Rightarrow> Frame \<Rightarrow> BlockingClient \<Rightarrow>
   (ReceiveStatus option \<times> Frame \<times> BlockingClient \<times> byte list) outcome" where
  "client_Receive now steps timeout frame c =
     (if \<not> Connected c then Inr (Some RClosed, frame, c, [])
      else if \<not> (int64 (timeout * ns_per_ms) \<and> int64 (now + timeout * ns_per_ms)) then Inl UndefinedBehaviour
      else outcome_bind (client_receive_loop (now + timeout * ns_per_ms) steps (bc_decoder c) frame [])
        (\<lambda>(status, frame, d, got). Inr (status, frame, c\<lparr>bc_decoder := d\<rparr>, got)))"


section \<open>Descriptors\<close>

datatype client_op = CConnect connect_answers string u16 | CShutdown

fun client_step :: "client_op \<Rightarrow> BlockingClient \<times> client_os \<Rightarrow> BlockingClient \<times> client_os" where
  "client_step (CConnect ca address port) (c, os) = snd (client_Connect ca address port c os)"
| "client_step CShutdown (c, os) = client_Shutdown c os"

definition BlockingClient_destroy :: "BlockingClient \<Rightarrow> client_os \<Rightarrow> client_os" where
  "BlockingClient_destroy c os = os\<lparr>co_table := UniqueFd_destroy (bc_descriptor c) (co_table os)\<rparr>"

definition client_owns :: "BlockingClient \<times> client_os \<Rightarrow> bool" where
  "client_owns s \<longleftrightarrow> open_fds (co_table (snd s)) =
     (if UniqueFd_valid (bc_descriptor (fst s)) then {bc_descriptor (fst s)} else {})"

lemmas client_defs = client_Connect_def client_Shutdown_def os_shutdown_def opened_def unique_fd_defs

lemma client_Connect_result:
  assumes "client_Connect ca address port c os = (ok, c', os')"
  shows "ok \<longleftrightarrow> Connected c'" "\<not> bc_shutdown c'"
    "bc_decoder c' = (if ok then FrameDecoder_Reset (bc_decoder c) else bc_decoder c)"
    "client_owns (c, os) \<Longrightarrow> client_owns (c', os')"
  using assms
  by (auto simp: client_defs client_owns_def Connected_def Let_def split: if_splits option.splits)

lemma client_step_owns: "client_owns s \<Longrightarrow> client_owns (client_step op s)"
proof (cases "(op, s)" rule: client_step.cases)
  case (1 ca address port c os)
  then show "client_owns s \<Longrightarrow> client_owns (client_step op s)"
    using client_Connect_result(4)[of ca address port c os] by (cases "client_Connect ca address port c os") auto
next
  case (2 c os)
  then show "client_owns s \<Longrightarrow> client_owns (client_step op s)"
    by (auto simp: client_defs client_owns_def)
qed

lemma client_fold_owns: "client_owns s \<Longrightarrow> client_owns (fold client_step ops s)"
  by (induction ops arbitrary: s) (simp_all add: client_step_owns)

section \<open>The received stream\<close>

lemma try_decode_parse:
  assumes "decoder_wf d" "\<not> dec_failed d"
  shows "case parse_frame (dec_max_payload_size d) (pending d) of
      Incomplete \<Rightarrow> try_decode d f = (None, f, d)
    | Rejected s \<Rightarrow> \<exists>d'. try_decode d f = (Some RProtocolError, f, d') \<and> decoder_wf d' \<and> dec_failed d' \<and>
        pending d' = pending d \<and> dec_max_payload_size d' = dec_max_payload_size d
    | Parsed g rest \<Rightarrow> \<exists>d'. try_decode d f = (Some RFrameReady, g, d') \<and> decoder_wf d' \<and> \<not> dec_failed d' \<and>
        pending d' = rest \<and> dec_max_payload_size d' = dec_max_payload_size d"
  using fd.next_incomplete[OF assms, of f] fd.next_rejected[OF assms, of _ f] fd.next_parsed[OF assms, of _ _ f]
    parse_frame_Rejected[of "dec_max_payload_size d" "pending d"]
  by (auto simp: try_decode_def split: parse_result.splits)

text \<open>What a call leaves behind, by the status it returns.\<close>

definition received_as :: "FrameDecoder \<Rightarrow> byte list \<Rightarrow> receive_result \<Rightarrow> bool" where
  "received_as d bs r \<longleftrightarrow>
     (case r of (st, f, d', _) \<Rightarrow>
        decoder_wf d' \<and> dec_max_payload_size d' = dec_max_payload_size d \<and>
        (if st = Some RFrameReady
         then \<not> dec_failed d' \<and> parse_frame (dec_max_payload_size d) (pending d @ bs) = Parsed f (pending d')
         else pending d' = pending d @ bs \<and>
           (if st = Some RProtocolError
            then dec_failed d' \<and> (\<exists>s. parse_frame (dec_max_payload_size d) (pending d @ bs) = Rejected s)
            else \<not> dec_failed d' \<and> parse_frame (dec_max_payload_size d) (pending d @ bs) = Incomplete)))"

lemma received_as_decode:
  assumes "decoder_wf d" "\<not> dec_failed d" "try_decode d f = (st, g, d1)"
  shows "st \<noteq> None \<Longrightarrow> received_as d [] (st, g, d1, got)"
    "st = None \<Longrightarrow> d1 = d \<and> g = f \<and> parse_frame (dec_max_payload_size d) (pending d) = Incomplete"
  using try_decode_parse[OF assms(1,2), of f] assms(3)
  by (auto simp: received_as_def split: parse_result.splits)

lemma received_as_append:
  assumes "received_as (d\<lparr>dec_buffer := dec_buffer d @ xs\<rparr>) bs r" "decoder_wf d"
  shows "received_as d (xs @ bs) r"
proof -
  have "pending (d\<lparr>dec_buffer := dec_buffer d @ xs\<rparr>) = pending d @ xs"
    using assms(2) by (simp add: pending_def decoder_wf_def)
  then show ?thesis using assms(1) by (cases r) (auto simp: received_as_def split: if_splits)
qed

lemma client_receive_parse:
  assumes "decoder_wf d" "\<not> dec_failed d"
    and "client_receive_loop expiry steps d f got = Inr (st, g, d', got')"
  shows "\<exists>bs. got' = got @ bs \<and> received_as d bs (st, g, d', got')"
  using assms
proof (induction steps arbitrary: d f got)
  case Nil
  obtain s1 g1 d1 where t: "try_decode d f = (s1, g1, d1)" using prod_cases3 by blast
  show ?case
  proof (cases s1)
    case None
    with received_as_decode(2)[OF Nil(1,2) t] Nil t show ?thesis by (simp add: received_as_def)
  next
    case (Some s)
    with received_as_decode(1)[OF Nil(1,2) t] Nil(3) t show ?thesis by auto
  qed
next
  case (Cons step steps)
  obtain now poll where step: "step = (now, poll)" by fastforce
  obtain s1 g1 d1 where t: "try_decode d f = (s1, g1, d1)" using prod_cases3 by blast
  show ?case
  proof (cases s1)
    case (Some s)
    with received_as_decode(1)[OF Cons.prems(1,2) t] Cons.prems(3) t step show ?thesis by auto
  next
    case None
    then have t': "try_decode d f = (None, f, d)"
      and inc: "parse_frame (dec_max_payload_size d) (pending d) = Incomplete"
      using received_as_decode(2)[OF Cons.prems(1,2) t] t by auto
    have stop: ?thesis if "s = st" "f = g" "d = d'" "got = got'" "s \<noteq> Some RFrameReady" "s \<noteq> Some RProtocolError" for s
      using that inc Cons.prems(1,2) by (auto simp: received_as_def)
    have again: ?thesis if "client_receive_loop expiry steps d f got = Inr (st, g, d', got')"
      using Cons.IH[OF Cons.prems(1,2) that] .
    have more: ?thesis if "client_receive_loop expiry steps (d\<lparr>dec_buffer := dec_buffer d @ xs\<rparr>) f (got @ xs) = Inr (st, g, d', got')"
      for xs
    proof -
      have "decoder_wf (d\<lparr>dec_buffer := dec_buffer d @ xs\<rparr>)" "\<not> dec_failed (d\<lparr>dec_buffer := dec_buffer d @ xs\<rparr>)"
        using Cons.prems(1,2) by (auto simp: decoder_wf_def)
      from Cons.IH[OF this that] show ?thesis using received_as_append[OF _ Cons.prems(1)] by fastforce
    qed
    from Cons.prems(3) show ?thesis
      using stop again more unfolding step
      by (auto simp: t' FrameDecoder_Append_ptr_def Let_def split: if_splits poll_answer.splits recv_result.splits)
  qed
qed


lemma client_receive_failed:
  assumes "decoder_wf d" "dec_failed d" "client_receive_loop expiry steps d f got = Inr (st, g, d', got')"
  shows "st = Some RProtocolError \<and> d' = d \<and> got' = got"
proof -
  have "try_decode d f = (Some RProtocolError, f, d)"
    using fd.next_sticky[OF assms(1,2), of f] by (simp add: try_decode_def)
  with assms(3) show ?thesis by (cases steps) auto
qed

text \<open>A sequence of calls, each with its own time and script: the frames they returned and the bytes they read.\<close>

fun receive_calls ::
  "(int \<times> wait_step list \<times> int) list \<Rightarrow> BlockingClient \<Rightarrow> (Frame list \<times> byte list \<times> BlockingClient) outcome" where
  "receive_calls [] c = Inr ([], [], c)"
| "receive_calls ((now, steps, timeout) # calls) c =
     outcome_bind (client_Receive now steps timeout empty_frame c) (\<lambda>(st, frame, c, got).
       outcome_bind (receive_calls calls c) (\<lambda>(frames, more, c).
         Inr (if st = Some RFrameReady then frame # frames else frames, got @ more, c)))"

lemma client_Receive_step:
  assumes "decoder_wf (bc_decoder c)" "client_Receive now steps timeout f c = Inr (st, g, c', got)"
  shows "decoder_wf (bc_decoder c') \<and> dec_max_payload_size (bc_decoder c') = dec_max_payload_size (bc_decoder c) \<and>
    pending (bc_decoder c) @ got = (if st = Some RFrameReady then encode_bytes g else []) @ pending (bc_decoder c') \<and>
    (st = Some RFrameReady \<longrightarrow> valid_frame (dec_max_payload_size (bc_decoder c)) g) \<and>
    (dec_failed (bc_decoder c') \<longrightarrow> dec_failed (bc_decoder c) \<or>
       (\<exists>s. parse_frame (dec_max_payload_size (bc_decoder c)) (pending (bc_decoder c')) = Rejected s))"
proof (cases "Connected c")
  case False
  then show ?thesis using assms by (auto simp: client_Receive_def)
next
  case True
  let ?d = "bc_decoder c"
  obtain d' where l: "client_receive_loop (now + timeout * ns_per_ms) steps ?d f [] = Inr (st, g, d', got)" "bc_decoder c' = d'"
    using assms(2) True by (auto simp: client_Receive_def outcome_bind_Inr_iff split: if_splits)
  show ?thesis
  proof (cases "dec_failed ?d")
    case True
    with client_receive_failed[OF assms(1) True l(1)] l(2) assms(1) show ?thesis by simp
  next
    case False
    from client_receive_parse[OF assms(1) False l(1)] have "received_as ?d got (st, g, d', got)" by simp
    with l(2) show ?thesis by (auto simp: received_as_def parse_frame_Parsed_iff split: if_splits)
  qed
qed

lemma receive_calls_stream:
  assumes "decoder_wf (bc_decoder c)" "receive_calls calls c = Inr (frames, bytes, c')"
  shows "decoder_wf (bc_decoder c') \<and> dec_max_payload_size (bc_decoder c') = dec_max_payload_size (bc_decoder c) \<and>
    pending (bc_decoder c) @ bytes = concat (map encode_bytes frames) @ pending (bc_decoder c') \<and>
    list_all (valid_frame (dec_max_payload_size (bc_decoder c))) frames"
  using assms
proof (induction calls arbitrary: c frames bytes)
  case (Cons call calls)
  obtain now steps timeout where call: "call = (now, steps, timeout)" using prod_cases3 by blast
  obtain st g c1 got fs more where r: "client_Receive now steps timeout empty_frame c = Inr (st, g, c1, got)"
      "receive_calls calls c1 = Inr (fs, more, c')"
      "frames = (if st = Some RFrameReady then g # fs else fs)" "bytes = got @ more"
    using Cons.prems(2) call by (auto simp: outcome_bind_Inr_iff)
  note one = client_Receive_step[OF Cons.prems(1) r(1)]
  then have rest: "decoder_wf (bc_decoder c') \<and> dec_max_payload_size (bc_decoder c') = dec_max_payload_size (bc_decoder c1) \<and>
      pending (bc_decoder c1) @ more = concat (map encode_bytes fs) @ pending (bc_decoder c') \<and>
      list_all (valid_frame (dec_max_payload_size (bc_decoder c1))) fs"
    using Cons.IH[OF _ r(2)] by blast
  have "pending (bc_decoder c) @ bytes =
      (if st = Some RFrameReady then encode_bytes g else []) @ concat (map encode_bytes fs) @ pending (bc_decoder c')"
    using one rest r(4) by (metis append.assoc)
  with one rest r(3) show ?case by auto
qed simp

lemma encode_bytes_inject:
  assumes "valid_frame m f" "valid_frame m g" "encode_bytes f @ xs = encode_bytes g @ ys"
  shows "f = g \<and> xs = ys"
proof -
  have "Parsed f xs = Parsed g ys"
    unfolding parse_frame_encode[OF assms(1), of xs, symmetric] parse_frame_encode[OF assms(2), of ys, symmetric] assms(3) ..
  then show ?thesis by simp
qed

lemma encoded_prefix:
  assumes "list_all (valid_frame m) fs" "list_all (valid_frame m) sent"
    and "concat (map encode_bytes fs) @ rest @ tail = concat (map encode_bytes sent)"
  shows "\<exists>later. sent = fs @ later \<and> rest @ tail = concat (map encode_bytes later)"
  using assms
proof (induction fs arbitrary: sent)
  case (Cons f fs)
  obtain g sent' where s: "sent = g # sent'"
    using Cons.prems(3) by (cases sent) (auto dest: arg_cong[of _ _ length])
  have "f = g \<and> concat (map encode_bytes fs) @ rest @ tail = concat (map encode_bytes sent')"
    using encode_bytes_inject[of m f g "concat (map encode_bytes fs) @ rest @ tail"] Cons.prems s by simp
  with Cons.IH[of sent'] Cons.prems s show ?case by auto
qed simp

lemma encoded_not_rejected:
  assumes "list_all (valid_frame m) sent" "xs @ ys = concat (map encode_bytes sent)"
  shows "parse_frame m xs \<noteq> Rejected s"
proof
  assume "parse_frame m xs = Rejected s"
  then have r: "parse_frame m (concat (map encode_bytes sent)) = Rejected s"
    using parse_frame_append(2)[of m xs s ys] assms(2) by simp
  then show False using assms(1) by (cases sent) (auto simp: parse_frame_encode)
qed

section \<open>Sending and waiting\<close>

lemma send_loop_taken:
  "send_loop rs bytes offset = (r, taken) \<Longrightarrow> offset \<le> length bytes \<Longrightarrow>
     (\<exists>n. taken = take n (drop offset bytes)) \<and> (r = Some True \<longleftrightarrow> taken = drop offset bytes)"
proof (induction rs bytes offset arbitrary: taken rule: send_loop.induct)
  case (1 bytes offset)
  then show ?case by (auto split: if_splits intro: exI[of _ 0])
next
  case (2 r1 rs bytes offset)
  show ?case
  proof (cases "offset < length bytes \<and> (\<exists>n. r1 = Sent n \<and> n > 0)")
    case True
    then obtain n where n: "r1 = Sent n" "n > 0" "offset < length bytes" by blast
    let ?n = "min n (length bytes - offset)"
    obtain taken' where t: "send_loop rs bytes (offset + ?n) = (r, taken')" "taken = take ?n (drop offset bytes) @ taken'"
      using "2.prems"(1) n by (auto simp: Let_def split: prod.splits)
    have "\<not> (\<not> offset < length bytes)" using n by simp
    from "2.IH"(1)[OF this n(1) refl] t(1) n have ih: "(\<exists>k. taken' = take k (drop (offset + ?n) bytes)) \<and>
        (r = Some True \<longleftrightarrow> taken' = drop (offset + ?n) bytes)" by auto
    then obtain k where k: "taken' = take k (drop (offset + ?n) bytes)" by blast
    have "taken = take (?n + k) (drop offset bytes)"
      using t(2) k take_add[of ?n k "drop offset bytes"] by (simp add: add.commute)
    moreover have "taken' = drop (offset + ?n) bytes \<longleftrightarrow> taken = drop offset bytes"
      using t(2) append_take_drop_id[of ?n "drop offset bytes"] by (metis add.commute drop_drop same_append_eq)
    ultimately show ?thesis using ih by blast
  next
    case False
    then show ?thesis
      using "2.prems" "2.IH"(2) by (auto split: if_splits send_result.splits intro: exI[of _ 0])
  qed
qed

lemma client_receive_ends:
  assumes "client_receive_loop expiry steps d f got = Inr (st, r)" "(t, p) \<in> set steps" "expiry - t < ns_per_ms"
  shows "st \<noteq> None"
  using assms
proof (induction steps arbitrary: d f got)
  case (Cons step steps)
  obtain now poll where step: "step = (now, poll)" by fastforce
  show ?case
  proof (cases "step = (t, p)")
    case True
    have "whole_ms (expiry - t) \<le> 0"
      using Cons.prems(3) by (cases "expiry - t < 0") (auto simp: whole_ms_def ns_per_ms_def sgn_if)
    with Cons.prems(1) True show ?thesis by (auto simp: Let_def split: prod.splits if_splits)
  next
    case False
    then have "(t, p) \<in> set steps" using Cons.prems(2) by simp
    with Cons.IH Cons.prems(1,3) show ?thesis
      unfolding step
      by (auto simp: Let_def outcome_bind_Inr_iff split: prod.splits if_splits poll_answer.splits recv_result.splits)
  qed
qed simp

lemma cast_int_id: "0 \<le> n \<Longrightarrow> n < 2 ^ 31 \<Longrightarrow> cast_int n = n"
  by (simp add: cast_int_def signed_of_int signed_take_bit_int_eq_self)

lemma poll_timeout_bound:
  assumes "now \<le> t" "0 \<le> timeout" "timeout < 2 ^ 31" "0 < whole_ms (now + timeout * ns_per_ms - t)"
  shows "0 < cast_int (whole_ms (now + timeout * ns_per_ms - t)) \<and>
    cast_int (whole_ms (now + timeout * ns_per_ms - t)) \<le> timeout"
proof -
  let ?r = "now + timeout * ns_per_ms - t"
  have r: "0 < ?r" using assms(4) by (auto simp: whole_ms_def ns_per_ms_def sgn_if split: if_splits)
  then have "whole_ms ?r = ?r div ns_per_ms" by (simp add: whole_ms_def)
  moreover have "?r div ns_per_ms \<le> timeout"
    using assms(1) zdiv_mono1[of ?r "timeout * ns_per_ms" ns_per_ms] by (simp add: ns_per_ms_def)
  ultimately show ?thesis using cast_int_id[of "whole_ms ?r"] assms(3,4) by simp
qed


section \<open>Properties\<close>


definition example_client :: BlockingClient where
  "example_client = \<lparr>bc_descriptor = 3,
     bc_decoder = \<lparr>dec_max_payload_size = 16, dec_buffer = [], dec_read_offset = 0,
       dec_failure_status = kNeedMoreData, dec_failed = False\<rparr>,
     bc_shutdown = False\<rparr>"

lemma example_client_decoder:
  "decoder_wf (bc_decoder example_client)" "\<not> dec_failed (bc_decoder example_client)"
  "pending (bc_decoder example_client) = []" "dec_max_payload_size (bc_decoder example_client) = 16"
  by (simp_all add: example_client_def decoder_wf_def pending_def)

lemmas client_eval = example_client_def client_Receive_def Connected_def UniqueFd_valid_def int64_def ns_per_ms_def
  whole_ms_def try_decode_def FrameDecoder_Next_def FrameDecoder_BufferedBytes_def kFrameHeaderSize_def
  ReadNetworkUint32_def IsKnownMessageId_def message_ids FrameDecoder_Compact_def FrameDecoder_Append_ptr_def
  empty_frame_def Let_def

text \<open>Two calls: the first one times out with half of a heartbeat, the second one gets the rest and half of the next frame.\<close>

definition example_calls :: "(int \<times> wait_step list \<times> int) list" where
  "example_calls =
     [(0, [(0, \<lambda>_. PollReady (Received [0, 0, 0, 0])), (1000000, \<lambda>_. PollInterrupted), (5000000, \<lambda>_. PollNothing)], 5),
      (6000000, [(6000000, \<lambda>_. PollReady (Received [0, 0, 0, 4, 0, 0]))], 5)]"


text \<open>
  When \<open>Send\<close> returns true, the kernel has taken over one whole frame, and the receiving decoder,
  however the bytes are split on the way, gets that frame and parses the same message from it. When \<open>Send\<close>
  returns false, at most a proper prefix of the frame has left.
\<close>

theorem client_request_reaches_the_decoder:
  assumes "Connected c" "codec_law pb m" "ByteSizeLong pb m \<le> unat kDefaultMaxPayloadSize"
    and "client_Send pb rs (message_type m) m c = Inr (result, taken)"
    and "FrameDecoder_new kDefaultMaxPayloadSize = Inr d"
  shows "\<exists>bytes. EncodeProtobufFrame pb (message_type m) m kDefaultMaxPayloadSize = Inr bytes \<and>
    (result = Some True \<longrightarrow> taken = bytes \<and>
      (\<forall>chunks. concat chunks = taken \<longrightarrow> (\<exists>frame d'. receive_chunks chunks d = Inr ([frame], d') \<and>
        ParseProtobufPayload pb frame (message_type m) (message_type m) = Some m))) \<and>
    (result \<noteq> Some True \<longrightarrow> (\<exists>n < length bytes. taken = take n bytes))"
proof -
  have "ByteSizeLong pb m \<le> INT_MAX" using assms(3) by (simp add: kDefaultMaxPayloadSize_def INT_MAX_def)
  then obtain bytes and frame :: Frame
    where e: "EncodeProtobufFrame pb (message_type m) m kDefaultMaxPayloadSize = Inr bytes"
      "EncodeFrame (message_id frame) (payload frame) kDefaultMaxPayloadSize = Inr bytes"
      "message_id frame = message_type m" "ParseFromArray pb (message_type m) (payload frame) = Some m"
      "length (payload frame) \<le> INT_MAX"
    using EncodeProtobufFrame_fits[OF assms(2,3)] by metis
  then have parse: "ParseProtobufPayload pb frame (message_type m) (message_type m) = Some m"
    by (simp add: ParseProtobufPayload_def)
  have "send_loop rs bytes 0 = (result, taken)" using assms(1,4) e(1) by (simp add: client_Send_def)
  from send_loop_taken[OF this] obtain n where n: "taken = take n bytes" "result = Some True \<longleftrightarrow> taken = bytes" by auto
  then have "result \<noteq> Some True \<longrightarrow> n < length bytes" using take_all[of bytes n] by (auto simp: not_less)
  with n e(1) parse single_frame_received[OF assms(5) e(2)] show ?thesis by metis
qed

theorem client_request_reaches_the_decoder_witness:
  "\<exists>d. FrameDecoder_new kDefaultMaxPayloadSize = Inr d \<and>
     client_Send text_codec [Sent 3, SendInterrupted, Sent 100] kChatRequest (ChatRequest ''hi'') example_client =
       Inr (Some True, [0, 0, 0, 2, 0, 0, 0, 2, 104, 105]) \<and>
     (\<exists>frame d'. receive_chunks [[0, 0, 0, 2], [0, 0, 0, 2, 104, 105]] d = Inr ([frame], d') \<and>
        ParseProtobufPayload text_codec frame kChatRequest kChatRequest = Some (ChatRequest ''hi''))"
proof -
  obtain d where d: "FrameDecoder_new kDefaultMaxPayloadSize = Inr d"
    by (simp add: FrameDecoder_new_def kDefaultMaxPayloadSize_def)
  have conn: "Connected example_client" by (simp add: Connected_def example_client_def UniqueFd_valid_def)
  have size: "ByteSizeLong text_codec (ChatRequest ''hi'') \<le> unat kDefaultMaxPayloadSize"
    by (simp add: text_codec_def kDefaultMaxPayloadSize_def)
  have send: "client_Send text_codec [Sent 3, SendInterrupted, Sent 100] kChatRequest (ChatRequest ''hi'') example_client =
       Inr (Some True, [0, 0, 0, 2, 0, 0, 0, 2, 104, 105])"
    by (simp add: client_Send_def conn EncodeProtobufFrame_def text_codec_def EncodeFrame_def IsKnownMessageId_def
        message_ids AppendNetworkUint32_def UINT32_MAX_def INT_MAX_def kDefaultMaxPayloadSize_def)
  have "concat [[0, 0, 0, 2], [0, 0, 0, 2, 104, 105]] = ([0, 0, 0, 2, 0, 0, 0, 2, 104, 105] :: byte list)" by simp
  with client_request_reaches_the_decoder[OF conn text_codec_law size _ d, of _ "Some True" "[0, 0, 0, 2, 0, 0, 0, 2, 104, 105]"] send
  have "\<exists>frame d'. receive_chunks [[0, 0, 0, 2], [0, 0, 0, 2, 104, 105]] d = Inr ([frame], d') \<and>
        ParseProtobufPayload text_codec frame kChatRequest kChatRequest = Some (ChatRequest ''hi'')"
    by (simp only: message_type.simps) blast
  with d send show ?thesis by blast
qed



text \<open>
  A client holds the one descriptor it is connected with and no other: after any sequence of \<open>Connect\<close>, successful or not,
  and \<open>Shutdown\<close> calls the open descriptors of the client are exactly its own, and none is left after the
  destructor. \<open>Connect\<close> returns true exactly if the client is connected afterwards, and then the decoder is empty.
\<close>

theorem client_owns_one_descriptor:
  assumes "BlockingClient_new = Inr c0" "open_fds (co_table os0) = {}"
    and "fold client_step ops (c0, os0) = (c, os)"
    and "client_Connect ca address port c os = (ok, c', os')"
  shows "client_owns (c, os) \<and> open_fds (co_table (BlockingClient_destroy c os)) = {} \<and>
    client_owns (c', os') \<and> (ok \<longleftrightarrow> Connected c') \<and>
    (ok \<longrightarrow> pending (bc_decoder c') = [] \<and> \<not> dec_failed (bc_decoder c'))"
proof (intro conjI)
  have "client_owns (c0, os0)"
    using assms(1,2) by (auto simp: BlockingClient_new_def outcome_bind_Inr_iff client_owns_def unique_fd_defs)
  from client_fold_owns[OF this, of ops] assms(3) show own: "client_owns (c, os)" by simp
  then show "open_fds (co_table (BlockingClient_destroy c os)) = {}"
    by (auto simp: client_owns_def BlockingClient_destroy_def unique_fd_defs split: if_splits)
  from client_Connect_result[OF assms(4)] own show "client_owns (c', os')" "ok \<longleftrightarrow> Connected c'" by blast+
  from client_Connect_result(3)[OF assms(4)]
  show "ok \<longrightarrow> pending (bc_decoder c') = [] \<and> \<not> dec_failed (bc_decoder c')"
    by (simp add: FrameDecoder_Reset_def pending_def)
qed

theorem client_owns_one_descriptor_witness:
  "\<exists>c0 c os c' os'. BlockingClient_new = Inr c0 \<and>
     fold client_step [CConnect \<lparr>ca_socket = 3, ca_connect = \<lambda>_ _. True\<rparr> ''127.0.0.1'' 9000, CShutdown]
       (c0, \<lparr>co_table = \<lparr>open_fds = {}, close_calls = []\<rparr>, co_shutdowns = []\<rparr>) = (c, os) \<and>
     client_Connect \<lparr>ca_socket = 4, ca_connect = \<lambda>_ _. False\<rparr> ''127.0.0.1'' 9000 c os = (False, c', os') \<and>
     open_fds (co_table (BlockingClient_destroy c os)) = {}"
proof -
  let ?os = "\<lparr>co_table = \<lparr>open_fds = {}, close_calls = []\<rparr>, co_shutdowns = []\<rparr>"
  obtain c0 where c0: "BlockingClient_new = Inr c0"
    by (simp add: BlockingClient_new_def FrameDecoder_new_def kDefaultMaxPayloadSize_def)
  let ?ops = "[CConnect \<lparr>ca_socket = 3, ca_connect = \<lambda>_ _. True\<rparr> ''127.0.0.1'' 9000, CShutdown]"
  obtain c os where r: "fold client_step ?ops (c0, ?os) = (c, os)" by fastforce
  let ?ca = "\<lparr>ca_socket = 4, ca_connect = \<lambda>_ _. False\<rparr>"
  obtain ok c' os' where k: "client_Connect ?ca ''127.0.0.1'' 9000 c os = (ok, c', os')"
    using prod_cases3 by blast
  have "\<not> ok" using k by (auto simp: client_defs Let_def split: if_splits option.splits)
  then have k': "client_Connect ?ca ''127.0.0.1'' 9000 c os = (False, c', os')" using k by simp
  have "open_fds (co_table ?os) = {}" by simp
  from client_owns_one_descriptor[OF c0 this r k'] have "open_fds (co_table (BlockingClient_destroy c os)) = {}" by blast
  with c0 r k' show ?thesis by (intro exI conjI)
qed

end
