(* ===== verification/Mmo_Bench.thy ===== *)
theory Mmo_Bench
  imports Aoi_World Frame_Codec Posix_Net "HOL-Library.Multiset"
begin

text \<open>
  \<open>tools/mmo_bench.cpp\<close>: the in-process benchmark, which is also a self-check of codec and AOI world, since
  it throws when frames are lost or a valid move is refused. Times are what the clocks measured, given as
  arguments; the random distributions are given as functions of the generator's state.
\<close>

section \<open>Options\<close>

record Options =
  opt_players :: u64
  opt_moves_per_player :: u64
  opt_repetitions :: u64
  opt_payload_bytes :: u64
  opt_distribution :: string
  opt_seed :: u64
  opt_output_path :: string

definition default_options :: Options where
  "default_options =
     \<lparr>opt_players = 1000, opt_moves_per_player = 20, opt_repetitions = 3, opt_payload_bytes = 32,
      opt_distribution = ''uniform'', opt_seed = 20260902, opt_output_path = ''''\<rparr>"

text \<open>\<open>std::stoull\<close> with the number of characters that it used.\<close>

definition skip_sign :: "string \<Rightarrow> string" where
  "skip_sign s = (if s \<noteq> [] \<and> (hd s = CHR ''-'' \<or> hd s = CHR ''+'') then tl s else s)"

definition stoull :: "string \<Rightarrow> (u64 \<times> nat) outcome" where
  "stoull s =
     (case scan_number s of
        None \<Rightarrow> Inl (Throw (invalid_argument ''stoull''))
      | Some (negative, n) \<Rightarrow>
          if n \<ge> 2 ^ 64 then Inl (Throw (out_of_range ''stoull''))
          else Inr (if negative then - of_nat n else of_nat n,
                    length (c_str s) - length (dropWhile is_digit (skip_sign (dropWhile is_space (c_str s))))))"

definition ParseSize :: "string \<Rightarrow> string \<Rightarrow> u64 outcome" where
  "ParseSize value name =
     outcome_bind (stoull value) (\<lambda>(parsed, consumed).
       if consumed \<noteq> length value \<or> parsed = 0 then Inl (Throw (invalid_argument (''invalid '' @ name)))
       else Inr parsed)"

definition ParseSeed :: "string \<Rightarrow> u64 outcome" where
  "ParseSeed value =
     outcome_bind (stoull value) (\<lambda>(parsed, consumed).
       if consumed \<noteq> length value then Inl (Throw (invalid_argument ''invalid seed'')) else Inr parsed)"

definition set_option :: "string \<Rightarrow> string \<Rightarrow> Options \<Rightarrow> Options outcome" where
  "set_option argument value opts =
     (if argument = ''--players''
      then outcome_bind (ParseSize value ''player count'') (\<lambda>n. Inr (opts\<lparr>opt_players := n\<rparr>))
      else if argument = ''--moves-per-player''
      then outcome_bind (ParseSize value ''move count'') (\<lambda>n. Inr (opts\<lparr>opt_moves_per_player := n\<rparr>))
      else if argument = ''--repetitions''
      then outcome_bind (ParseSize value ''repetition count'') (\<lambda>n. Inr (opts\<lparr>opt_repetitions := n\<rparr>))
      else if argument = ''--payload-bytes''
      then outcome_bind (ParseSize value ''payload size'') (\<lambda>n. Inr (opts\<lparr>opt_payload_bytes := n\<rparr>))
      else if argument = ''--distribution'' then Inr (opts\<lparr>opt_distribution := value\<rparr>)
      else if argument = ''--seed''
      then outcome_bind (ParseSeed value) (\<lambda>n. Inr (opts\<lparr>opt_seed := n\<rparr>))
      else if argument = ''--output'' then Inr (opts\<lparr>opt_output_path := value\<rparr>)
      else Inl (Throw (invalid_argument (''unknown option: '' @ argument))))"

text \<open>\<open>None\<close>: \<open>--help\<close> was given, and the process exits with status 0.\<close>

fun parse_arguments :: "string list \<Rightarrow> Options \<Rightarrow> Options option outcome" where
  "parse_arguments [] opts = Inr (Some opts)"
| "parse_arguments (argument # rest) opts =
     (if argument = ''--help'' then Inr None
      else case rest of
        [] \<Rightarrow> Inl (Throw (invalid_argument (''missing value for '' @ argument)))
      | value # rest' \<Rightarrow> outcome_bind (set_option argument value opts) (\<lambda>opts. parse_arguments rest' opts))"

definition ParseOptions :: "string list \<Rightarrow> Options option outcome" where
  "ParseOptions arguments =
     outcome_bind (parse_arguments arguments default_options) (\<lambda>result.
       case result of
         None \<Rightarrow> Inr None
       | Some opts \<Rightarrow>
           if opt_players opts < 2
           then Inl (Throw (invalid_argument ''at least two players are required''))
           else if opt_distribution opts \<noteq> ''uniform'' \<and> opt_distribution opts \<noteq> ''hotspot''
           then Inl (Throw (invalid_argument ''distribution must be uniform or hotspot''))
           else if opt_payload_bytes opts > ucast kDefaultMaxPayloadSize
           then Inl (Throw (invalid_argument ''payload exceeds protocol maximum''))
           else Inr (Some opts))"

section \<open>Text output and percentiles\<close>

fun JsonEscape :: "string \<Rightarrow> string" where
  "JsonEscape [] = []"
| "JsonEscape (c # cs) =
     (if c = CHR 0x5C then [CHR 0x5C, CHR 0x5C]
      else if c = CHR 0x22 then [CHR 0x5C, CHR 0x22]
      else if c = CHR 0x0A then [CHR 0x5C, CHR ''n'']
      else if c = CHR 0x0D then [CHR 0x5C, CHR ''r'']
      else if c = CHR 0x09 then [CHR 0x5C, CHR ''t'']
      else [c]) @ JsonEscape cs"

text \<open>\<open>std::sort\<close> with \<open>operator<\<close>; the samples are durations, so that none is NaN.\<close>

fun d_insert :: "dbl \<Rightarrow> dbl list \<Rightarrow> dbl list" where
  "d_insert x [] = [x]"
| "d_insert x (y # ys) = (if d_less y x then y # d_insert x ys else x # y # ys)"

definition d_sort :: "dbl list \<Rightarrow> dbl list" where
  "d_sort xs = foldr d_insert xs []"

definition Percentile :: "dbl list \<Rightarrow> dbl \<Rightarrow> dbl outcome" where
  "Percentile samples percentile =
     (if samples = [] then Inr (DFin 0)
      else
        let sorted_samples = d_sort samples;
            rank = d_mul percentile (size_t_to_double (of_nat (length samples)))
        in outcome_bind (double_to_size_t (d_ceil rank)) (\<lambda>r.
             let index = r - 1; last_index = of_nat (length samples) - 1
             in Inr (sorted_samples ! unat (min index last_index))))"

section \<open>The protocol benchmark\<close>

record ProtocolMetrics =
  pm_frames :: u64
  pm_bytes :: nat
  pm_encode_wall_ms :: dbl
  pm_encode_cpu_ms :: dbl
  pm_decode_wall_ms :: dbl
  pm_decode_cpu_ms :: dbl
  pm_encode_frames_per_second :: dbl
  pm_decode_frames_per_second :: dbl

fun encode_frames :: "nat \<Rightarrow> nat \<Rightarrow> byte list \<Rightarrow> byte list \<Rightarrow> byte list outcome" where
  "encode_frames 0 index pay wire = Inr wire"
| "encode_frames (Suc n) index pay wire =
     (if pay = [] then Inl UndefinedBehaviour
      else let pay = pay[index mod length pay := of_nat index] in
           outcome_bind (EncodeFrame kMoveRequest pay kDefaultMaxPayloadSize) (\<lambda>encoded.
             encode_frames n (Suc index) pay (wire @ encoded)))"

text \<open>\<open>std::uniform_int_distribution(1, 256)\<close> applied to the \<open>k\<close>th value of a generator.\<close>

definition chunk_size :: "(nat \<Rightarrow> nat) \<Rightarrow> nat \<Rightarrow> nat" where
  "chunk_size raw k = 1 + raw k mod 256"

function decode_wire ::
  "(nat \<Rightarrow> nat) \<Rightarrow> nat \<Rightarrow> byte list \<Rightarrow> nat \<Rightarrow> FrameDecoder \<Rightarrow> nat \<Rightarrow> (nat \<times> FrameDecoder) outcome" where
  "decode_wire raw k wire offset d decoded =
     (if offset < length wire
      then let size = min (chunk_size raw k) (length wire - offset) in
           outcome_bind (FrameDecoder_Append_ptr (Some (drop offset wire)) size d) (\<lambda>d.
             let (status, frames, d) = decode_loop d [] in
             if status = kNeedMoreData
             then decode_wire raw (Suc k) wire (offset + size) d (decoded + length frames)
             else Inl (Throw (runtime_error ''protocol decoder failed during benchmark'')))
      else Inr (decoded, d))"
  by auto

termination
  by (relation "measure (\<lambda>(raw, k, wire, offset, d, decoded). length wire - offset)")
    (auto simp: chunk_size_def)

declare decode_wire.simps [simp del]

record measured_times =
  mt_encode_wall :: dbl
  mt_encode_cpu :: dbl
  mt_decode_wall :: dbl
  mt_decode_cpu :: dbl

definition per_second :: "u64 \<Rightarrow> dbl \<Rightarrow> dbl" where
  "per_second n wall = d_div (d_mul (size_t_to_double n) (DFin 1000)) wall"

definition RunProtocolBenchmark :: "(nat \<Rightarrow> nat) \<Rightarrow> measured_times \<Rightarrow> Options \<Rightarrow> ProtocolMetrics outcome" where
  "RunProtocolBenchmark raw mt opts =
     (let frames = opt_players opts * opt_moves_per_player opts * opt_repetitions opts;
          pay = replicate (unat (opt_payload_bytes opts)) 0x5a in
      outcome_bind (encode_frames (unat frames) 0 pay []) (\<lambda>wire.
      outcome_bind (FrameDecoder_new kDefaultMaxPayloadSize) (\<lambda>d.
      outcome_bind (decode_wire raw 0 wire 0 d 0) (\<lambda>(decoded_frames, d).
        if decoded_frames \<noteq> unat frames \<or> FrameDecoder_BufferedBytes d \<noteq> 0
        then Inl (Throw (runtime_error ''decoded frame count does not match input''))
        else Inr \<lparr>pm_frames = frames, pm_bytes = length wire,
               pm_encode_wall_ms = mt_encode_wall mt, pm_encode_cpu_ms = mt_encode_cpu mt,
               pm_decode_wall_ms = mt_decode_wall mt, pm_decode_cpu_ms = mt_decode_cpu mt,
               pm_encode_frames_per_second = per_second frames (mt_encode_wall mt),
               pm_decode_frames_per_second = per_second frames (mt_decode_wall mt)\<rparr>))))"

section \<open>The AOI benchmark\<close>

text \<open>
  The generator: \<open>std::mt19937_64(seed)\<close>, and \<open>std::uniform_real_distribution(a, b)\<close> applied to it.
\<close>

record 'r generator =
  gen_seed :: "u64 \<Rightarrow> 'r"
  gen_uniform :: "dbl \<Rightarrow> dbl \<Rightarrow> 'r \<Rightarrow> dbl \<times> 'r"

definition Clamp :: "dbl \<Rightarrow> dbl \<Rightarrow> dbl \<Rightarrow> dbl" where
  "Clamp value minimum maximum =
     (let lower = (if d_less maximum value then maximum else value)
      in if d_less minimum lower then lower else minimum)"

definition kInsideMaximumOffset :: dbl where
  "kInsideMaximumOffset = fl (1 / 1000000)"

text \<open>The ranges of a player's coordinates: minimum and maximum of x, and of y.\<close>

definition x_range :: "bool \<Rightarrow> dbl \<times> dbl" where
  "x_range hotspot = (if hotspot then (DFin 400, DFin 600) else (DFin 0, DFin 1000))"

definition y_range :: "bool \<Rightarrow> dbl \<times> dbl" where
  "y_range hotspot = (if hotspot then (DFin 800, DFin 1200) else (DFin 0, DFin 2000))"

definition inside :: "dbl \<times> dbl \<Rightarrow> dbl" where
  "inside lo_hi = d_sub (snd lo_hi) kInsideMaximumOffset"

text \<open>The initialisation loop, over the players from \<open>index\<close> on.\<close>

fun init_players ::
  "'r generator \<Rightarrow> bool \<Rightarrow> nat \<Rightarrow> nat \<Rightarrow> AoiWorld \<Rightarrow> 'r \<Rightarrow> (Position \<times> bool) list \<Rightarrow>
   (AoiWorld \<times> 'r \<times> (Position \<times> bool) list) outcome" where
  "init_players gen hotspots 0 index w r ps = Inr (w, r, ps)"
| "init_players gen hotspots (Suc n) index w r ps =
     (let (use_hotspot, r) =
        (if hotspots
         then let (p, r) = gen_uniform gen (DFin 0) (DFin 1) r in (d_less p (fl (4 / 5)), r)
         else (False, r));
        (x, r) = gen_uniform gen (fst (x_range use_hotspot)) (inside (x_range use_hotspot)) r;
        (y, r) = gen_uniform gen (fst (y_range use_hotspot)) (inside (y_range use_hotspot)) r;
        pos = \<lparr>pos_x = x, pos_y = y\<rparr>
      in outcome_bind (AddPlayer (of_nat index + 1) pos w) (\<lambda>(added, w).
           if \<not> added then Inl (Throw (runtime_error ''failed to initialize AOI player''))
           else init_players gen hotspots n (Suc index) w r (ps @ [(pos, use_hotspot)])))"

text \<open>The movement loop, over the operations from \<open>operation\<close> on.\<close>

definition kMoveRadius :: dbl where
  "kMoveRadius = DFin 75"

fun move_players ::
  "'r generator \<Rightarrow> nat \<Rightarrow> nat \<Rightarrow> AoiWorld \<Rightarrow> 'r \<Rightarrow> (Position \<times> bool) list \<Rightarrow> u64 \<Rightarrow> u64 outcome" where
  "move_players gen 0 operation w r ps recipients = Inr recipients"
| "move_players gen (Suc n) operation w r ps recipients =
     (let player_index = operation mod length ps;
          (old, hotspot) = ps ! player_index;
          (dx, r) = gen_uniform gen (d_neg kMoveRadius) kMoveRadius r;
          next_x = Clamp (d_add (pos_x old) dx) (fst (x_range hotspot)) (inside (x_range hotspot));
          (dy, r) = gen_uniform gen (d_neg kMoveRadius) kMoveRadius r;
          next_y = Clamp (d_add (pos_y old) dy) (fst (y_range hotspot)) (inside (y_range hotspot));
          pos = \<lparr>pos_x = next_x, pos_y = next_y\<rparr>
      in outcome_bind (MovePlayer (of_nat player_index + 1) pos w) (\<lambda>(delta, w).
           case delta of
             None \<Rightarrow> Inl (Throw (runtime_error ''valid AOI move was rejected''))
           | Some delta \<Rightarrow>
               move_players gen n (Suc operation) w r (ps[player_index := (pos, hotspot)])
                 (recipients + of_nat (card (entered delta) + card (stayed delta)))))"

fun aoi_repetitions ::
  "'r generator \<Rightarrow> Options \<Rightarrow> nat \<Rightarrow> u64 \<Rightarrow> u64 \<Rightarrow> u64 outcome" where
  "aoi_repetitions gen opts 0 repetition recipients = Inr recipients"
| "aoi_repetitions gen opts (Suc n) repetition recipients =
     outcome_bind (AoiWorld_new \<lparr>min_x = DFin 0, max_x = DFin 1000, min_y = DFin 0, max_y = DFin 2000,
        columns = 10, rows = 20\<rparr>) (\<lambda>w.
     outcome_bind (init_players gen (opt_distribution opts = ''hotspot'') (unat (opt_players opts)) 0 w
        (gen_seed gen (opt_seed opts + repetition)) []) (\<lambda>(w, r, ps).
     outcome_bind (move_players gen (unat (opt_players opts * opt_moves_per_player opts)) 0 w r ps recipients) (\<lambda>recipients.
       aoi_repetitions gen opts n (repetition + 1) recipients)))"

record AoiMetrics =
  am_operations :: u64
  am_wall_ms :: dbl
  am_cpu_ms :: dbl
  am_operations_per_second :: dbl
  am_p50_us :: dbl
  am_p95_us :: dbl
  am_p99_us :: dbl
  am_average_aoi_recipients :: dbl
  am_full_broadcast_recipients :: dbl
  am_recipient_reduction_percent :: dbl

text \<open>\<open>latencies\<close> are the measured durations of the moves, \<open>walls\<close> and \<open>cpus\<close> the times of the repetitions.\<close>

definition RunAoiBenchmark ::
  "'r generator \<Rightarrow> dbl list \<Rightarrow> dbl list \<Rightarrow> dbl list \<Rightarrow> Options \<Rightarrow> AoiMetrics outcome" where
  "RunAoiBenchmark gen latencies walls cpus opts =
     (let operations = opt_players opts * opt_moves_per_player opts * opt_repetitions opts;
          full = size_t_to_double (opt_players opts - 1) in
      outcome_bind (aoi_repetitions gen opts (unat (opt_repetitions opts)) 0 0) (\<lambda>recipients.
      let wall = foldl d_add (DFin 0) walls;
          cpu = foldl d_add (DFin 0) cpus;
          average = d_div (size_t_to_double recipients) (size_t_to_double operations) in
      outcome_bind (Percentile latencies (fl (1 / 2))) (\<lambda>p50.
      outcome_bind (Percentile latencies (fl (19 / 20))) (\<lambda>p95.
      outcome_bind (Percentile latencies (fl (99 / 100))) (\<lambda>p99.
        Inr \<lparr>am_operations = operations, am_wall_ms = wall, am_cpu_ms = cpu,
             am_operations_per_second = per_second operations wall,
             am_p50_us = p50, am_p95_us = p95, am_p99_us = p99,
             am_average_aoi_recipients = average, am_full_broadcast_recipients = full,
             am_recipient_reduction_percent = d_mul (d_sub (DFin 1) (d_div average full)) (DFin 100)\<rparr>)))))"


section \<open>Accepted options\<close>

definition options_positive :: "Options \<Rightarrow> bool" where
  "options_positive opts \<longleftrightarrow> opt_players opts \<noteq> 0 \<and> opt_moves_per_player opts \<noteq> 0 \<and> opt_repetitions opts \<noteq> 0 \<and>
     opt_payload_bytes opts \<noteq> 0"

lemma ParseSize_nonzero: "ParseSize value name = Inr n \<Longrightarrow> n \<noteq> 0"
  by (auto simp: ParseSize_def outcome_bind_Inr_iff split: if_splits)

lemma set_option_positive:
  "set_option argument value opts = Inr opts' \<Longrightarrow> options_positive opts \<Longrightarrow> options_positive opts'"
  by (auto simp: set_option_def options_positive_def outcome_bind_Inr_iff ParseSize_nonzero split: if_splits)

lemma parse_arguments_positive:
  "parse_arguments arguments opts = Inr (Some opts') \<Longrightarrow> options_positive opts \<Longrightarrow> options_positive opts'"
proof (induction arguments opts rule: parse_arguments.induct)
  case (2 argument rest opts)
  then show ?case
    by (auto simp: outcome_bind_Inr_iff dest: set_option_positive split: if_splits list.splits)
qed simp

lemma options_in_bounds:
  assumes "ParseOptions arguments = Inr (Some opts)"
  shows "2 \<le> unat (opt_players opts) \<and> 1 \<le> unat (opt_moves_per_player opts) \<and> 1 \<le> unat (opt_repetitions opts) \<and>
    1 \<le> unat (opt_payload_bytes opts) \<and> unat (opt_payload_bytes opts) \<le> unat kDefaultMaxPayloadSize \<and>
    opt_distribution opts \<in> {''uniform'', ''hotspot''}"
proof -
  obtain res where run': "parse_arguments arguments default_options = Inr res"
    using assms by (auto simp: ParseOptions_def outcome_bind_Inr_iff)
  obtain o' where res: "res = Some o'" using assms by (cases res) (auto simp: ParseOptions_def run')
  note checks = assms[unfolded ParseOptions_def run' res outcome_bind_simps option.case]
  have o': "o' = opts" "\<not> opt_players o' < 2" "\<not> (opt_distribution o' \<noteq> ''uniform'' \<and> opt_distribution o' \<noteq> ''hotspot'')"
    "\<not> opt_payload_bytes o' > ucast kDefaultMaxPayloadSize"
    using checks by (metis sum.distinct(1) sum.inject(2) option.inject)+
  then have run: "parse_arguments arguments default_options = Inr (Some opts)" and two: "\<not> opt_players opts < 2"
    and dist: "opt_distribution opts \<in> {''uniform'', ''hotspot''}" and pay: "opt_payload_bytes opts \<le> ucast kDefaultMaxPayloadSize"
    using run' res unfolding not_less by blast+
  have "options_positive opts"
    by (rule parse_arguments_positive[OF run]) (simp add: options_positive_def default_options_def)
  moreover have "2 \<le> unat (opt_players opts)" using two by (simp add: word_less_nat_alt not_less)
  moreover have "unat (opt_payload_bytes opts) \<le> unat kDefaultMaxPayloadSize"
    using pay by (simp add: word_le_nat_alt kDefaultMaxPayloadSize_def)
  ultimately show ?thesis using dist by (auto simp: options_positive_def Suc_le_eq unat_gt_0)
qed

text \<open>\<open>std::stoull\<close> accepts a minus sign, so that a negative count becomes a huge one.\<close>

lemma negative_count_is_accepted:
  "\<exists>opts. ParseOptions [''--players'', ''-1''] = Inr (Some opts) \<and> opt_players opts = 2 ^ 64 - 1"
  by (simp add: ParseOptions_def set_option_def ParseSize_def stoull_def scan_number_def skip_sign_def c_str_def is_space_def
      is_digit_def digit_value_def default_options_def kDefaultMaxPayloadSize_def Let_def)

section \<open>Escaped text\<close>

text \<open>
  A reader of JSON strings (RFC 8259, for the escapes that occur): from behind the opening quotation mark, the
  text and what follows the closing one. A control character inside a string is an error.
\<close>

definition is_control :: "char \<Rightarrow> bool" where
  "is_control c \<longleftrightarrow> (of_char c :: nat) < 32"

fun read_json_string :: "string \<Rightarrow> (string \<times> string) option" where
  "read_json_string [] = None"
| "read_json_string (c # cs) =
     (if c = CHR 0x22 then Some ([], cs)
      else if c = CHR 0x5C then
        (case cs of
           [] \<Rightarrow> None
         | e # cs' \<Rightarrow>
             (case map_of [(CHR 0x5C, CHR 0x5C), (CHR 0x22, CHR 0x22), (CHR ''n'', CHR 0x0A), (CHR ''r'', CHR 0x0D),
                           (CHR ''t'', CHR 0x09)] e of
                None \<Rightarrow> None
              | Some d \<Rightarrow> map_option (\<lambda>(text, rest). (d # text, rest)) (read_json_string cs')))
      else if is_control c then None
      else map_option (\<lambda>(text, rest). (c # text, rest)) (read_json_string cs))"

definition escapable :: "char \<Rightarrow> bool" where
  "escapable c \<longleftrightarrow> \<not> is_control c \<or> c \<in> {CHR 0x0A, CHR 0x0D, CHR 0x09}"

lemma json_string_reads_back:
  "read_json_string (JsonEscape s @ CHR 0x22 # rest) = (if \<forall>c \<in> set s. escapable c then Some (s, rest) else None)"
proof (induction s)
  case (Cons c cs)
  have esc: "escapable (CHR 0x5C)" "escapable (CHR 0x22)" "escapable (CHR 0x0A)" "escapable (CHR 0x0D)" "escapable (CHR 0x09)"
    by (simp_all add: escapable_def is_control_def)
  have tail: "map_option (\<lambda>(text, rest). (d # text, rest)) (read_json_string (JsonEscape cs @ CHR 0x22 # rest)) =
      (if \<forall>c \<in> set cs. escapable c then Some (d # cs, rest) else None)" for d
    by (simp add: Cons.IH)
  consider "c = CHR 0x5C" | "c = CHR 0x22" | "c = CHR 0x0A" | "c = CHR 0x0D" | "c = CHR 0x09"
    | (plain) "c \<notin> {CHR 0x5C, CHR 0x22, CHR 0x0A, CHR 0x0D, CHR 0x09}" by blast
  then show ?case
  proof cases
    case plain
    then have "JsonEscape (c # cs) = c # JsonEscape cs" "escapable c \<longleftrightarrow> \<not> is_control c" by (auto simp: escapable_def)
    with plain tail[of c] show ?thesis by simp
  qed (use tail esc in simp_all)
qed simp

section \<open>Percentiles\<close>

definition d_sorted :: "dbl list \<Rightarrow> bool" where
  "d_sorted xs \<longleftrightarrow> sorted_wrt (\<lambda>x y. \<not> d_less y x) xs"

lemma set_d_insert [simp]: "mset (d_insert x ys) = add_mset x (mset ys)"
  by (induction ys) auto

lemma mset_d_sort [simp]: "mset (d_sort xs) = mset xs"
  by (induction xs) (simp_all add: d_sort_def)

lemma d_less_trans: "\<not> d_less y x \<Longrightarrow> \<not> d_less z y \<Longrightarrow> y \<noteq> DNaN \<Longrightarrow> \<not> d_less z x"
  by (cases x; cases y; cases z) auto

lemma d_less_NaN [simp]: "\<not> d_less x DNaN"
  by (cases x) auto

lemma d_less_asym: "d_less x y \<Longrightarrow> \<not> d_less y x"
  by (cases x; cases y) auto

lemma d_sorted_insert:
  assumes "d_sorted ys" "DNaN \<notin> set ys" "x \<noteq> DNaN"
  shows "d_sorted (d_insert x ys)"
  using assms
proof (induction ys)
  case (Cons y ys)
  have set: "set (d_insert x ys) = insert x (set ys)" using set_d_insert[of x ys] by (metis set_mset_add_mset_insert set_mset_mset)
  show ?case
  proof (cases "d_less y x")
    case True
    with Cons set d_less_asym[OF True] show ?thesis by (auto simp: d_sorted_def)
  next
    case False
    with Cons.prems d_less_trans[of y x] show ?thesis by (auto simp: d_sorted_def)
  qed
qed (simp add: d_sorted_def)

lemma d_sorted_sort: "DNaN \<notin> set xs \<Longrightarrow> d_sorted (d_sort xs)"
proof (induction xs)
  case (Cons x xs)
  have "set (foldr d_insert xs []) = set xs" using mset_d_sort[of xs] by (metis d_sort_def set_mset_mset)
  with Cons d_sorted_insert[of "foldr d_insert xs []" x] show ?case by (auto simp: d_sort_def)
qed (simp add: d_sort_def d_sorted_def)

lemma sorted_ranks:
  assumes "d_sorted xs" "i < length xs" "DNaN \<notin> set xs"
  shows "Suc i \<le> size (filter_mset (\<lambda>x. \<not> d_less (xs ! i) x) (mset xs))"
    "length xs - i \<le> size (filter_mset (\<lambda>x. \<not> d_less x (xs ! i)) (mset xs))"
proof -
  have refl: "\<not> d_less x x" for x by (cases x) auto
  have "\<forall>x \<in> set (take (Suc i) xs). \<not> d_less (xs ! i) x"
    using assms(1,2) refl by (auto simp: in_set_conv_nth d_sorted_def sorted_wrt_iff_nth_less less_Suc_eq)
  then have "filter (\<lambda>x. \<not> d_less (xs ! i) x) (take (Suc i) xs) = take (Suc i) xs" by (simp add: filter_id_conv)
  then have "Suc i \<le> length (filter (\<lambda>x. \<not> d_less (xs ! i) x) xs)"
    using assms(2) append_take_drop_id[of "Suc i" xs] by (metis filter_append length_append length_take min.absorb2 Suc_leI le_add1)
  then show "Suc i \<le> size (filter_mset (\<lambda>x. \<not> d_less (xs ! i) x) (mset xs))" by (metis mset_filter size_mset)
  have "\<forall>x \<in> set (drop i xs). \<not> d_less x (xs ! i)"
  proof
    fix x assume "x \<in> set (drop i xs)"
    then obtain k where "x = xs ! (i + k)" "i + k < length xs" by (auto simp: in_set_conv_nth)
    then show "\<not> d_less x (xs ! i)"
      using assms(1) refl by (cases "k = 0") (auto simp: d_sorted_def sorted_wrt_iff_nth_less)
  qed
  then have "filter (\<lambda>x. \<not> d_less x (xs ! i)) (drop i xs) = drop i xs" by (simp add: filter_id_conv)
  then have "length xs - i \<le> length (filter (\<lambda>x. \<not> d_less x (xs ! i)) xs)"
    using append_take_drop_id[of i xs] by (metis filter_append length_append length_drop le_add2)
  then show "length xs - i \<le> size (filter_mset (\<lambda>x. \<not> d_less x (xs ! i)) (mset xs))" by (metis mset_filter size_mset)
qed

section \<open>The encoded stream comes back\<close>

lemma encode_frames_stream:
  assumes "pay \<noteq> []" "length pay \<le> unat kDefaultMaxPayloadSize"
  shows "\<exists>fs. encode_frames n index pay wire = Inr (wire @ concat (map encode_bytes fs)) \<and> length fs = n \<and>
    list_all (\<lambda>f. valid_frame kDefaultMaxPayloadSize f \<and> length (payload f) = length pay) fs"
  using assms
proof (induction n arbitrary: index pay wire)
  case (Suc n)
  let ?p = "pay[index mod length pay := of_nat index]"
  let ?f = "\<lparr>message_id = kMoveRequest, payload = ?p\<rparr>"
  have valid: "valid_frame kDefaultMaxPayloadSize ?f"
    using Suc.prems by (simp add: valid_frame_def IsKnownMessageId_def)
  then have "EncodeFrame kMoveRequest ?p kDefaultMaxPayloadSize = Inr (encode_bytes ?f)"
    by (simp add: EncodeFrame_eq_Inr_iff)
  moreover obtain fs where "encode_frames n (Suc index) ?p (wire @ encode_bytes ?f) =
      Inr ((wire @ encode_bytes ?f) @ concat (map encode_bytes fs))" "length fs = n"
      "list_all (\<lambda>f. valid_frame kDefaultMaxPayloadSize f \<and> length (payload f) = length ?p) fs"
    using Suc.IH[of ?p "Suc index" "wire @ encode_bytes ?f"] Suc.prems by auto
  ultimately show ?case using Suc.prems valid by (intro exI[of _ "?f # fs"]) simp
qed simp

lemma decode_wire_parse:
  assumes "decoder_wf d" "\<not> dec_failed d" "parse_frame (dec_max_payload_size d) (pending d) = Incomplete"
    and "parse_stream (dec_max_payload_size d) (pending d @ drop offset wire) = (fs, kNeedMoreData, r)"
  shows "\<exists>d'. decode_wire raw k wire offset d decoded = Inr (decoded + length fs, d') \<and> pending d' = r"
  using assms
proof (induction "length wire - offset" arbitrary: k offset d decoded fs rule: less_induct)
  case less
  show ?case
  proof (cases "offset < length wire")
    case False
    then have "fs = []" "r = pending d"
      using less.prems(3,4) by (simp_all add: parse_stream.simps[of _ "pending d"])
    with False show ?thesis by (subst decode_wire.simps) simp
  next
    case True
    let ?m = "dec_max_payload_size d" and ?n = "min (chunk_size raw k) (length wire - offset)"
    let ?x = "take ?n (drop offset wire)"
    let ?d = "d\<lparr>dec_buffer := dec_buffer d @ ?x\<rparr>"
    have n: "0 < ?n" "?n \<le> length (drop offset wire)" using True by (auto simp: chunk_size_def)
    have d: "decoder_wf ?d" "\<not> dec_failed ?d" "pending ?d = pending d @ ?x" "dec_max_payload_size ?d = ?m"
      using less.prems(1,2) by (auto simp: decoder_wf_def pending_def)
    have rest: "drop offset wire = ?x @ drop (offset + ?n) wire"
      by (metis add.commute append_take_drop_id drop_drop)
    obtain fs1 s1 r1 where p1: "parse_stream ?m (pending d @ ?x) = (fs1, s1, r1)" using prod_cases3 by blast
    have p: "parse_stream ?m ((pending d @ ?x) @ drop (offset + ?n) wire) = (fs, kNeedMoreData, r)"
      using less.prems(4) rest by simp
    have s1: "s1 = kNeedMoreData"
      using p parse_stream_append[of ?m "pending d @ ?x" "drop (offset + ?n) wire"] p1 by (auto split: if_splits)
    obtain fs2 where p2: "parse_stream ?m (r1 @ drop (offset + ?n) wire) = (fs2, kNeedMoreData, r)" "fs = fs1 @ fs2"
      using p parse_stream_append[of ?m "pending d @ ?x" "drop (offset + ?n) wire"] p1 s1 by (auto split: prod.splits)
    obtain d1 where l: "decode_loop ?d [] = (kNeedMoreData, fs1, d1)" and d1: "decoder_wf d1" "pending d1 = r1"
        "dec_max_payload_size d1 = ?m" "\<not> dec_failed d1"
      using fd.loop_refines[OF d(1,2), of fs1 s1 r1 "[]"] p1 d(3,4) s1 by auto
    have "parse_frame ?m r1 = Incomplete" using p1 s1 parse_stream_Incomplete_rest by blast
    moreover have "length wire - (offset + ?n) < length wire - offset" using n(1) True by linarith
    ultimately obtain d' where "decode_wire raw (Suc k) wire (offset + ?n) d1 (decoded + length fs1) =
        Inr (decoded + length fs1 + length fs2, d')" "pending d' = r"
      using less.hyps[of "offset + ?n" d1 fs2 "Suc k" "decoded + length fs1"] d1 p2(1) by metis
    moreover have "FrameDecoder_Append_ptr (Some (drop offset wire)) ?n d = Inr ?d"
      using n by (simp add: FrameDecoder_Append_ptr_def)
    ultimately show ?thesis using True l p2(2) by (subst decode_wire.simps) (simp add: Let_def)
  qed
qed

lemma concat_encode_length:
  "list_all (\<lambda>f. length (payload f) = n) fs \<Longrightarrow> length (concat (map encode_bytes fs)) = length fs * (8 + n)"
  by (induction fs) auto

section \<open>The simulated players stay on the map\<close>

text \<open>The four upper bounds, rounded: the literal, and the bound less the literal.\<close>

lemma offset_value: "kInsideMaximumOffset = DFin (4722366482869645 / 4722366482869645213696)"
  using fl_normal[of "-20" "1 / 1000000" 4722366482869645]
  by (simp add: kInsideMaximumOffset_def power_int_def power_divide)

lemma inside_values:
  "inside (x_range False) = DFin (8796093013411907 / 8796093022208)"
  "inside (x_range True) = DFin (5277655804528707 / 8796093022208)"
  "inside (y_range False) = DFin (8796093017809953 / 4398046511104)"
  "inside (y_range True) = DFin (5277655808926753 / 4398046511104)"
  using fl_normal[of 9 "1000 - 4722366482869645 / 4722366482869645213696" 8796093013411907]
    fl_normal[of 9 "600 - 4722366482869645 / 4722366482869645213696" 5277655804528707]
    fl_normal[of 10 "2000 - 4722366482869645 / 4722366482869645213696" 8796093017809953]
    fl_normal[of 10 "1200 - 4722366482869645 / 4722366482869645213696" 5277655808926753]
  by (simp_all add: inside_def x_range_def y_range_def offset_value d_sub_def power_int_def power_divide)

definition in_closed :: "dbl \<Rightarrow> dbl \<Rightarrow> dbl \<Rightarrow> bool" where
  "in_closed lo hi x \<longleftrightarrow> is_double x \<and> \<not> d_less x lo \<and> \<not> d_less hi x \<and> x \<noteq> DNaN"

lemma range_doubles:
  "is_double (inside (x_range h))" "is_double (inside (y_range h))"
  "is_double (fst (x_range h))" "is_double (fst (y_range h))"
  using representable_int[of 0] representable_int[of 400] representable_int[of 800]
  by (cases h; simp add: inside_def x_range_def y_range_def offset_value d_sub_def fl_is_double)+

lemma range_order: "d_less (fst (x_range h)) (inside (x_range h))" "d_less (fst (y_range h)) (inside (y_range h))"
  by (cases h; simp add: inside_values; simp add: x_range_def y_range_def)+

lemma d_add_double: "is_double (d_add x y)"
  using fl_is_double by (cases "(x, y)" rule: d_add.cases) auto

lemma Clamp_in_range:
  assumes "is_double v" "is_double lo" "is_double hi" "\<not> d_less hi lo" "lo \<noteq> DNaN" "hi \<noteq> DNaN"
  shows "in_closed lo hi (Clamp v lo hi)"
  using assms by (cases v; cases lo; cases hi) (auto simp: in_closed_def Clamp_def Let_def)

definition placed :: "bool \<Rightarrow> Position \<Rightarrow> bool" where
  "placed h pos \<longleftrightarrow> in_closed (fst (x_range h)) (inside (x_range h)) (pos_x pos) \<and>
     in_closed (fst (y_range h)) (inside (y_range h)) (pos_y pos)"

lemma placed_located:
  assumes "AoiWorld_new default_aoi_config = Inr w0" "placed h pos"
  shows "\<exists>i. GridIndexFor w0 pos = Inr (Some i)"
proof -
  have x: "d_ge (pos_x pos) (DFin 0)" "d_less (pos_x pos) (DFin 1000)"
    using assms(2) by (cases "pos_x pos"; cases h; simp add: placed_def in_closed_def inside_values; simp add: x_range_def)+
  have y: "d_ge (pos_y pos) (DFin 0)" "d_less (pos_y pos) (DFin 2000)"
    using assms(2) by (cases "pos_y pos"; cases h; simp add: placed_def in_closed_def inside_values; simp add: y_range_def)+
  have "is_double (pos_x pos)" "is_double (pos_y pos)" "pos_x pos \<noteq> DNaN" "pos_y pos \<noteq> DNaN"
    using assms(2) by (auto simp: placed_def in_closed_def)
  from default_locates[OF assms(1) this] x y show ?thesis by auto
qed

text \<open>
  What the standard says of \<open>std::uniform_real_distribution(a, b)\<close> for \<open>a < b\<close>: a value of the interval. Its upper end is
  admitted, since implementations round.
\<close>

definition uniform_documented :: "'r generator \<Rightarrow> bool" where
  "uniform_documented gen \<longleftrightarrow>
     (\<forall>a b r. is_double a \<longrightarrow> is_double b \<longrightarrow> d_less a b \<longrightarrow> in_closed a b (fst (gen_uniform gen a b r)))"

lemma drawn_placed:
  assumes "uniform_documented gen"
  shows "placed h \<lparr>pos_x = fst (gen_uniform gen (fst (x_range h)) (inside (x_range h)) r),
    pos_y = fst (gen_uniform gen (fst (y_range h)) (inside (y_range h)) r')\<rparr>"
  using assms range_doubles[of h] range_order[of h] by (simp add: placed_def uniform_documented_def)

lemma clamped_placed:
  "placed h \<lparr>pos_x = Clamp (d_add x dx) (fst (x_range h)) (inside (x_range h)),
     pos_y = Clamp (d_add y dy) (fst (y_range h)) (inside (y_range h))\<rparr>"
proof -
  have nan: "\<not> d_less (inside (x_range h)) (fst (x_range h))" "\<not> d_less (inside (y_range h)) (fst (y_range h))"
      "fst (x_range h) \<noteq> DNaN" "inside (x_range h) \<noteq> DNaN" "fst (y_range h) \<noteq> DNaN" "inside (y_range h) \<noteq> DNaN"
    using range_order[of h] d_less_asym by auto
  show ?thesis
    using Clamp_in_range[OF d_add_double range_doubles(3)[of h] range_doubles(1)[of h] nan(1,3,4), of x dx]
      Clamp_in_range[OF d_add_double range_doubles(4)[of h] range_doubles(2)[of h] nan(2,5,6), of y dy]
    by (simp add: placed_def)
qed

definition ids :: "nat \<Rightarrow> PlayerId set" where
  "ids n = (\<lambda>i. of_nat i + 1) ` {..<n}"

definition populated :: "AoiWorld \<Rightarrow> AoiWorld \<Rightarrow> nat \<Rightarrow> bool" where
  "populated w0 w n \<longleftrightarrow> aoi_inv w \<and> GridIndexFor w = GridIndexFor w0 \<and> dom (tracked w) = ids n"

lemma of_nat_id: "i < 2 ^ 64 \<Longrightarrow> j < 2 ^ 64 \<Longrightarrow> (of_nat i :: u64) = of_nat j \<longleftrightarrow> i = j"
  by (auto dest: arg_cong[of _ _ unat] simp: unat_of_nat)

lemma card_ids:
  assumes "n \<le> 2 ^ 64"
  shows "card (ids n) = n"
proof -
  have "inj_on (\<lambda>i. of_nat i + 1 :: u64) {..<n}"
  proof (rule inj_onI)
    fix i j assume ij: "i \<in> {..<n}" "j \<in> {..<n}" and eq: "of_nat i + 1 = (of_nat j + 1 :: u64)"
    have "i < 2 ^ 64" "j < 2 ^ 64" using ij assms by simp_all
    with of_nat_id eq show "i = j" unfolding add_right_cancel by blast
  qed
  then show ?thesis by (simp add: ids_def card_image)
qed

lemma id_fresh: "n < 2 ^ 64 \<Longrightarrow> of_nat n + 1 \<notin> ids n"
  using of_nat_id by (auto simp: ids_def dest: order_less_trans)

lemma ids_Suc: "ids (Suc n) = insert (of_nat n + 1) (ids n)"
  by (simp add: ids_def lessThan_Suc)

lemma init_players_ok:
  assumes "AoiWorld_new default_aoi_config = Inr w0" "uniform_documented gen"
    and "populated w0 w index" "index + n < 2 ^ 64" "length ps = index"
  shows "\<exists>w' r' ps'. init_players gen h n index w r ps = Inr (w', r', ps') \<and> populated w0 w' (index + n) \<and>
    length ps' = index + n"
  using assms(3-5)
proof (induction n arbitrary: index w r ps)
  case (Suc n)
  define hr where "hr = (if h then let (p, r) = gen_uniform gen (DFin 0) (DFin 1) r in (d_less p (fl (4 / 5)), r) else (False, r))"
  obtain use1 r1 where r1: "hr = (use1, r1)" by fastforce
  obtain x r2 where x: "gen_uniform gen (fst (x_range use1)) (inside (x_range use1)) r1 = (x, r2)" by fastforce
  obtain y r3 where y: "gen_uniform gen (fst (y_range use1)) (inside (y_range use1)) r2 = (y, r3)" by fastforce
  let ?pos = "\<lparr>pos_x = x, pos_y = y\<rparr>"
  have "placed use1 ?pos" using drawn_placed[OF assms(2), of use1 r1 r2] x y by simp
  then obtain i where i: "GridIndexFor w ?pos = Inr (Some i)"
    using placed_located[OF assms(1)] Suc.prems(1) unfolding populated_def by metis
  have fresh: "of_nat index + 1 \<notin> ids index" using Suc.prems(2) by (intro id_fresh) simp
  then have "tracked w (of_nat index + 1) = None" using Suc.prems(1) unfolding populated_def by (metis domIff)
  then obtain w1 where w1: "AddPlayer (of_nat index + 1) ?pos w = Inr (True, w1)" "aoi_inv w1"
      "tracked w1 = (tracked w)(of_nat index + 1 \<mapsto> ?pos)" "GridIndexFor w1 = GridIndexFor w"
    using AddPlayer_inside[OF _ _ i] Suc.prems(1) unfolding populated_def by blast
  then have "populated w0 w1 (Suc index)"
    using Suc.prems(1) by (simp add: populated_def ids_Suc)
  from Suc.IH[OF this, of "ps @ [(?pos, use1)]" r3] Suc.prems w1(1)
  show ?case by (simp add: hr_def[symmetric] r1 x y)
qed simp

lemma unat_add_of_nat_le: "unat (a + of_nat n :: u64) \<le> unat a + n"
proof -
  have "unat (a + of_nat n) = (unat a + unat (of_nat n :: u64)) mod 2 ^ 64" by (simp add: unat_word_ariths)
  also have "\<dots> \<le> unat a + unat (of_nat n :: u64)" by (rule mod_less_eq_dividend)
  also have "unat (of_nat n :: u64) \<le> n" by (simp add: unat_of_nat)
  finally show ?thesis by simp
qed

lemma move_players_ok:
  assumes "AoiWorld_new default_aoi_config = Inr w0"
    and "populated w0 w m" "m \<le> 2 ^ 64" "0 < m" "length ps = m"
  shows "\<exists>total. move_players gen n operation w r ps recipients = Inr total \<and>
    (unat recipients + n * (m - 1) < 2 ^ 64 \<longrightarrow> unat total \<le> unat recipients + n * (m - 1))"
  using assms(2-5)
proof (induction n arbitrary: operation w r ps recipients)
  case (Suc n)
  let ?k = "operation mod length ps"
  obtain old h where old: "ps ! ?k = (old, h)" by fastforce
  obtain dx r1 where dx: "gen_uniform gen (d_neg kMoveRadius) kMoveRadius r = (dx, r1)" by fastforce
  obtain dy r2 where dy: "gen_uniform gen (d_neg kMoveRadius) kMoveRadius r1 = (dy, r2)" by fastforce
  define pos where "pos = \<lparr>pos_x = Clamp (d_add (pos_x old) dx) (fst (x_range h)) (inside (x_range h)),
    pos_y = Clamp (d_add (pos_y old) dy) (fst (y_range h)) (inside (y_range h))\<rparr>"
  let ?p = "of_nat ?k + 1 :: u64"
  have "placed h pos" unfolding pos_def by (rule clamped_placed)
  then obtain i where i: "GridIndexFor w pos = Inr (Some i)"
    using placed_located[OF assms(1)] Suc.prems(1) unfolding populated_def by metis
  have "?k < m" using Suc.prems(3,4) by simp
  then have p: "?p \<in> ids m" by (auto simp: ids_def)
  then have "?p \<in> dom (tracked w)" using Suc.prems(1) by (simp add: populated_def)
  then have tr: "tracked w ?p \<noteq> None" by (simp add: domIff)
  have "aoi_inv w" using Suc.prems(1) by (simp add: populated_def)
  from aoi.move_reported[OF this tr i] obtain delta w1 where w1: "MovePlayer ?p pos w = Inr (Some delta, w1)" "aoi_inv w1"
      "tracked w1 = (tracked w)(?p \<mapsto> pos)" "GridIndexFor w1 = GridIndexFor w"
      "entered delta \<union> stayed delta = sees w1 ?p" "entered delta \<inter> stayed delta = {}"
    by (elim exE conjE)
  have pop: "populated w0 w1 m" using Suc.prems(1) w1(2-4) p by (auto simp: populated_def)
  have dom: "dom (tracked w1) = ids m" using pop by (simp add: populated_def)
  have fin: "finite (ids m)" by (simp add: ids_def)
  have sub: "sees w1 ?p \<subseteq> ids m - {?p}" using aoi.view_dom[of w1 ?p] dom by simp
  have "card (entered delta) + card (stayed delta) = card (sees w1 ?p)"
    using w1(5,6) sub fin by (metis card_Un_disjoint finite_Diff finite_subset finite_Un)
  also have "\<dots> \<le> card (ids m - {?p})" using sub fin by (intro card_mono) auto
  also have "\<dots> = m - 1" using p fin card_ids[OF Suc.prems(2)] by simp
  finally have c: "card (entered delta) + card (stayed delta) \<le> m - 1" .
  let ?rec = "recipients + of_nat (card (entered delta) + card (stayed delta)) :: u64"
  have "length (ps[?k := (pos, h)]) = m" using Suc.prems(4) by simp
  from Suc.IH[OF pop Suc.prems(2,3) this, of "Suc operation" r2 ?rec] obtain total where
    t: "move_players gen n (Suc operation) w1 r2 (ps[?k := (pos, h)]) ?rec = Inr total"
      "unat ?rec + n * (m - 1) < 2 ^ 64 \<longrightarrow> unat total \<le> unat ?rec + n * (m - 1)" by blast
  have "unat ?rec \<le> unat recipients + (m - 1)"
    using c unat_add_of_nat_le[of recipients] by (meson add_left_mono order_trans)
  moreover have "move_players gen (Suc n) operation w r ps recipients = Inr total"
    using t(1) w1(1) by (simp add: old dx dy pos_def[symmetric])
  moreover have "Suc n * (m - 1) = (m - 1) + n * (m - 1)" by simp
  ultimately show ?case using t(2) by (intro exI[of _ total]) linarith
qed simp

lemma aoi_repetitions_ok:
  assumes "uniform_documented gen" "opt_players opts \<noteq> 0"
  shows "\<exists>total. aoi_repetitions gen opts n repetition recipients = Inr total \<and>
    (let m = unat (opt_players opts) - 1; k = unat (opt_players opts * opt_moves_per_player opts) in
     unat recipients + n * (k * m) < 2 ^ 64 \<longrightarrow> unat total \<le> unat recipients + n * (k * m))"
proof (induction n arbitrary: repetition recipients)
  case (Suc n)
  let ?m = "unat (opt_players opts)" and ?k = "unat (opt_players opts * opt_moves_per_player opts)"
  obtain w0 where w0: "AoiWorld_new default_aoi_config = Inr w0" using default_world by blast
  have m: "0 < ?m" "?m < 2 ^ 64" using assms(2) unsigned_less[of "opt_players opts"] by (auto simp: unat_gt_0)
  have "populated w0 w0 0"
    using default_world_examples(3,4)[OF w0] by (simp add: populated_def ids_def)
  with init_players_ok[OF w0 assms(1), of w0 0 ?m "[]"] m obtain w r ps where
    init: "init_players gen (opt_distribution opts = ''hotspot'') ?m 0 w0 (gen_seed gen (opt_seed opts + repetition)) [] = Inr (w, r, ps)"
      "populated w0 w ?m" "length ps = ?m" by fastforce
  from move_players_ok[OF w0 init(2) _ m(1) init(3), of gen ?k 0 r recipients] m(2) obtain t1 where
    t1: "move_players gen ?k 0 w r ps recipients = Inr t1"
      "unat recipients + ?k * (?m - 1) < 2 ^ 64 \<longrightarrow> unat t1 \<le> unat recipients + ?k * (?m - 1)" by auto
  from Suc.IH[of "repetition + 1" t1] obtain total where
    t: "aoi_repetitions gen opts n (repetition + 1) t1 = Inr total"
      "unat t1 + n * (?k * (?m - 1)) < 2 ^ 64 \<longrightarrow> unat total \<le> unat t1 + n * (?k * (?m - 1))"
    by (auto simp: Let_def)
  have "aoi_repetitions gen opts (Suc n) repetition recipients = Inr total"
    using w0 init(1) t1(1) t(1) by (simp add: default_aoi_config_def)
  moreover have "Suc n * (?k * (?m - 1)) = ?k * (?m - 1) + n * (?k * (?m - 1))" by simp
  ultimately show ?case using t1(2) t(2) unfolding Let_def by (intro exI[of _ total]) linarith
qed (simp add: Let_def)

lemma ceil_rank:
  assumes "0 < q" "q \<le> 1" "0 < n" "n < 2 ^ 53"
  obtains c where "double_to_size_t (d_ceil (d_mul (DFin q) (size_t_to_double (of_nat n)))) = Inr (of_nat c)" "c \<le> n"
proof -
  have n: "size_t_to_double (of_nat n) = DFin (of_nat n)"
    using fl_exact[OF representable_int[of "int n"]] assms(4) by (simp add: size_t_to_double_def unat_of_nat)
  have "q * of_nat n \<le> of_nat n" using mult_right_mono[OF assms(2), of "of_nat n"] by simp
  moreover have "0 < q * of_nat n" using assms(1,3) by simp
  moreover have "representable (of_nat n)" using representable_int[of "int n"] assms(4) by simp
  ultimately obtain w where w: "fl (q * of_nat n) = DFin w" "0 \<le> w" "w \<le> of_nat n"
    using fl_le_representable by metis
  have c: "\<lceil>w\<rceil> \<le> int n" "0 \<le> \<lceil>w\<rceil>" using w by (auto simp: ceiling_le_iff)
  have "(of_nat n :: rat) < 2 ^ 53" using assms(4) of_nat_less_iff[of n "2 ^ 53", where ?'a = rat] by simp
  then have top: "(of_nat n :: rat) < 2 ^ 64" by (rule order_less_trans) simp
  have le: "(of_int \<lceil>w\<rceil> :: rat) \<le> of_nat n" using c(1) by (metis of_int_le_iff of_int_of_nat_eq)
  have "(0 :: rat) \<le> of_int \<lceil>w\<rceil>" using c(2) by (metis of_int_0_le_iff)
  then have big: "- 1 < (of_int \<lceil>w\<rceil> :: rat)" "(of_int \<lceil>w\<rceil> :: rat) < 2 ^ 64"
    using order_le_less_trans[OF le top] by linarith+
  then have "double_to_size_t (d_ceil (DFin w)) = Inr (of_nat (nat \<lceil>w\<rceil>))"
    by (simp only: d_ceil.simps double_to_size_t.simps big simp_thms if_True floor_of_int)
  with n w(1) c that[of "nat \<lceil>w\<rceil>"] show thesis by (simp add: nat_le_iff)
qed

text \<open>
  The percentile of a non-empty list of samples is a sample of rank \<open>r\<close>, the rounded product of percentile and
  number of samples: at least \<open>r\<close> samples are not larger, and at least \<open>n - r + 1\<close> are not smaller. When the
  product is rounded to 0, it is the largest sample.
\<close>

lemma percentile_is_a_ranked_sample:
  assumes "samples \<noteq> []" "length samples < 2 ^ 53" "DNaN \<notin> set samples" "0 < q" "q \<le> 1"
  shows "\<exists>r v. double_to_size_t (d_ceil (d_mul (DFin q) (size_t_to_double (of_nat (length samples))))) = Inr (of_nat r) \<and>
    r \<le> length samples \<and> Percentile samples (DFin q) = Inr v \<and> v \<in> set samples \<and>
    (let k = (if r = 0 then length samples else r) in
       k \<le> size (filter_mset (\<lambda>x. \<not> d_less v x) (mset samples)) \<and>
       length samples - k + 1 \<le> size (filter_mset (\<lambda>x. \<not> d_less x v) (mset samples)))"
proof -
  let ?n = "length samples"
  obtain r where r: "double_to_size_t (d_ceil (d_mul (DFin q) (size_t_to_double (of_nat ?n)))) = Inr (of_nat r)" "r \<le> ?n"
    using ceil_rank[of q ?n] assms by (metis length_greater_0_conv)
  define k where "k = (if r = 0 then ?n else r)"
  have k: "0 < k" "k \<le> ?n" using r(2) assms(1) by (auto simp: k_def)
  have "min (of_nat r - 1) (of_nat ?n - 1 :: u64) = of_nat (k - 1)"
  proof (cases "r = 0")
    case True
    then have "(of_nat r - 1 :: u64) = - 1" by simp
    moreover have "min (- 1) (of_nat ?n - 1 :: u64) = of_nat ?n - 1"
      by (rule min_absorb2) (rule word_order.extremum)
    ultimately have "min (of_nat r - 1) (of_nat ?n - 1 :: u64) = of_nat ?n - 1" by metis
    with True show ?thesis using assms(1) by (simp add: k_def of_nat_diff Suc_leI)
  next
    case False
    have "unat (of_nat (r - 1) :: u64) = r - 1" "unat (of_nat (?n - 1) :: u64) = ?n - 1"
      using r(2) assms(2) by (simp_all add: unat_of_nat)
    then have "(of_nat (r - 1) :: u64) \<le> of_nat (?n - 1)" using r(2) by (simp add: word_le_nat_alt)
    with False r(2) show ?thesis by (simp add: k_def of_nat_diff Suc_leI min_def)
  qed
  moreover have "k - 1 < 2 ^ LENGTH(64)" using k assms(2) by simp
  then have "unat (of_nat (k - 1) :: u64) = k - 1" by (rule of_nat_inverse[OF refl])
  ultimately have v: "Percentile samples (DFin q) = Inr (d_sort samples ! (k - 1))"
    using r(1) assms(1) by (simp add: Percentile_def Let_def)
  have len: "length (d_sort samples) = ?n" by (metis mset_d_sort size_mset)
  have set: "set (d_sort samples) = set samples" by (metis mset_d_sort set_mset_mset)
  have i: "k - 1 < length (d_sort samples)" using k len by simp
  have nan: "DNaN \<notin> set (d_sort samples)" using assms(3) set by simp
  note ranks = sorted_ranks[OF d_sorted_sort[OF assms(3)] i nan, unfolded mset_d_sort len]
  have "d_sort samples ! (k - 1) \<in> set samples" using set nth_mem[OF i] by simp
  with r v ranks k show ?thesis
    by (intro exI[of _ r] exI[of _ "d_sort samples ! (k - 1)"]) (auto simp: k_def[symmetric] Let_def)
qed

section \<open>Properties\<close>

text \<open>
  C38: What \<open>ParseOptions\<close> accepts is fit for the benchmarks: at least two players, at least one move and one
  repetition, a payload between one byte and the frame limit, and one of the two distributions.
\<close>

theorem accepted_options_are_in_bounds:
  assumes "ParseOptions arguments = Inr (Some opts)"
  shows "2 \<le> unat (opt_players opts) \<and> 1 \<le> unat (opt_moves_per_player opts) \<and> 1 \<le> unat (opt_repetitions opts) \<and>
    1 \<le> unat (opt_payload_bytes opts) \<and> unat (opt_payload_bytes opts) \<le> unat kDefaultMaxPayloadSize \<and>
    opt_distribution opts \<in> {''uniform'', ''hotspot''}"
  using options_in_bounds[OF assms] by blast

theorem accepted_options_are_in_bounds_witness:
  "\<exists>opts. ParseOptions [''--players'', ''50'', ''--distribution'', ''hotspot''] = Inr (Some opts) \<and>
     opt_distribution opts \<in> {''uniform'', ''hotspot''}"
proof -
  obtain opts where o: "ParseOptions [''--players'', ''50'', ''--distribution'', ''hotspot''] = Inr (Some opts)"
    by (simp add: ParseOptions_def set_option_def ParseSize_def stoull_def scan_number_def skip_sign_def c_str_def is_space_def
        is_digit_def digit_value_def default_options_def kDefaultMaxPayloadSize_def Let_def)
  with accepted_options_are_in_bounds[OF o] show ?thesis by blast
qed

text \<open>
  The protocol benchmark never reports an error: for all accepted options and all chunk sizes it
  decodes exactly the frames it encoded and no byte is left, and the byte count it reports is eight bytes of header and the
  payload per frame. The number of frames is the product of the options modulo \<open>2 ^ 64\<close>.
\<close>

theorem protocol_benchmark_never_fails:
  assumes "ParseOptions arguments = Inr (Some opts)"
  shows "\<exists>metrics. RunProtocolBenchmark raw mt opts = Inr metrics \<and>
    pm_frames metrics = opt_players opts * opt_moves_per_player opts * opt_repetitions opts \<and>
    pm_bytes metrics = unat (pm_frames metrics) * (8 + unat (opt_payload_bytes opts))"
proof -
  let ?n = "opt_players opts * opt_moves_per_player opts * opt_repetitions opts"
  let ?pay = "replicate (unat (opt_payload_bytes opts)) (0x5a :: byte)"
  have "0 < unat (opt_payload_bytes opts)" "unat (opt_payload_bytes opts) \<le> unat kDefaultMaxPayloadSize"
    using options_in_bounds[OF assms] by auto
  then have pay: "?pay \<noteq> []" "length ?pay \<le> unat kDefaultMaxPayloadSize" by simp_all
  obtain fs where fs: "encode_frames (unat ?n) 0 ?pay [] = Inr (concat (map encode_bytes fs))" "length fs = unat ?n"
      "list_all (\<lambda>f. valid_frame kDefaultMaxPayloadSize f \<and> length (payload f) = length ?pay) fs"
    using encode_frames_stream[OF pay, of "unat ?n" 0 "[]"] by auto
  let ?wire = "concat (map encode_bytes fs)"
  obtain d where d: "FrameDecoder_new kDefaultMaxPayloadSize = Inr d"
    by (simp add: FrameDecoder_new_def kDefaultMaxPayloadSize_def)
  note wf = decoder_wf_new[OF d]
  have "parse_stream kDefaultMaxPayloadSize ?wire = (fs, kNeedMoreData, [])"
    using fs(3) by (intro parse_stream_concat_encode) (simp add: list_all_iff)
  then obtain d' where d': "decode_wire raw 0 ?wire 0 d 0 = Inr (length fs, d')" "pending d' = []"
    using decode_wire_parse[of d 0 ?wire fs "[]" raw 0 0] wf by auto
  have "FrameDecoder_BufferedBytes d' = 0" using d'(2) by (metis length_pending list.size(3))
  moreover have "length ?wire = unat ?n * (8 + unat (opt_payload_bytes opts))"
    using concat_encode_length[of "length ?pay" fs] fs(2,3) by (simp add: list_all_iff)
  ultimately show ?thesis using fs(1,2) d d'(1) by (simp add: RunProtocolBenchmark_def Let_def)
qed

theorem protocol_benchmark_never_fails_witness:
  "\<exists>opts metrics. ParseOptions [''--seed'', ''1''] = Inr (Some opts) \<and>
     RunProtocolBenchmark (\<lambda>k. k) \<lparr>mt_encode_wall = DFin 1, mt_encode_cpu = DFin 1, mt_decode_wall = DFin 1, mt_decode_cpu = DFin 1\<rparr> opts =
       Inr metrics \<and> pm_bytes metrics = 2400000"
proof -
  let ?t = "\<lparr>mt_encode_wall = DFin 1, mt_encode_cpu = DFin 1, mt_decode_wall = DFin 1, mt_decode_cpu = DFin 1\<rparr>"
  let ?o = "default_options\<lparr>opt_seed := 1\<rparr>"
  have o: "ParseOptions [''--seed'', ''1''] = Inr (Some ?o)"
    by (simp add: ParseOptions_def set_option_def ParseSeed_def stoull_def scan_number_def skip_sign_def c_str_def is_space_def
        is_digit_def digit_value_def default_options_def kDefaultMaxPayloadSize_def Let_def)
  from protocol_benchmark_never_fails[OF o, of "\<lambda>k. k" ?t] obtain metrics where
    "RunProtocolBenchmark (\<lambda>k. k) ?t ?o = Inr metrics" "pm_frames metrics = 60000"
    "pm_bytes metrics = unat (pm_frames metrics) * 40" by (auto simp: default_options_def)
  with o show ?thesis by auto
qed


text \<open>A generator whose distributions give the lower end of their interval.\<close>

definition lowest :: "unit generator" where
  "lowest = \<lparr>gen_seed = (\<lambda>_. ()), gen_uniform = (\<lambda>a b r. (a, r))\<rparr>"

lemma lowest_documented: "uniform_documented lowest"
proof -
  have "\<not> d_less a a" for a by (cases a) auto
  then show ?thesis using d_less_asym by (auto simp: uniform_documented_def lowest_def in_closed_def)
qed


end
