(* ===== verification/Bench_Report.thy ===== *)
theory Bench_Report
  imports Mmo_Bench
begin

text \<open>
  The rest of \<open>tools/mmo_bench.cpp\<close>: the operating system queries, the two reports and \<open>main\<close>. The answers of the system
  (\<open>getrusage\<close>, \<open>uname\<close>, the formatted time, the compiler's version, the number of hardware threads) are arguments;
  of the conditional parts those for Linux and GCC are modelled.
\<close>

section \<open>Queries\<close>

record bench_environment =
  be_maxrss :: "int option"
  be_uname :: "(string \<times> string \<times> string) option"
  be_compiler_version :: string
  be_timestamp :: string
  be_hardware_concurrency :: nat

definition PeakResidentMemoryMb :: "bench_environment \<Rightarrow> dbl" where
  "PeakResidentMemoryMb be =
     (case be_maxrss be of None \<Rightarrow> DFin 0 | Some kilobytes \<Rightarrow> d_div (fl (of_int kilobytes)) (DFin 1024))"

definition OperatingSystem :: "bench_environment \<Rightarrow> string" where
  "OperatingSystem be =
     (case be_uname be of
        None \<Rightarrow> ''Unix-like''
      | Some (sysname, release, machine) \<Rightarrow> sysname @ '' '' @ release @ '' '' @ machine)"

definition Compiler :: "bench_environment \<Rightarrow> string" where
  "Compiler be = ''GCC '' @ be_compiler_version be"

text \<open>\<open>CpuMilliseconds\<close> and \<open>Milliseconds\<close>, of a number of clock ticks and of nanoseconds.\<close>

definition CpuMilliseconds :: "int \<Rightarrow> dbl" where
  "CpuMilliseconds ticks = d_div (d_mul (DFin 1000) (fl (of_int ticks))) (DFin 1000000)"

definition Milliseconds :: "int \<Rightarrow> dbl" where
  "Milliseconds ns = d_div (fl (of_int ns)) (DFin 1000000)"

section \<open>The reports\<close>

text \<open>A \<open>double\<close> inserted with \<open>std::fixed\<close> and \<open>std::setprecision(3)\<close>.\<close>

definition fixed3 :: "dbl \<Rightarrow> string" where
  "fixed3 v =
     (case v of
        DNaN \<Rightarrow> ''nan''
      | DInf negative \<Rightarrow> (if negative then ''-inf'' else ''inf'')
      | DFin q \<Rightarrow>
          let m = nat (round_half_even (\<bar>q\<bar> * 1000)); thousandths = to_string (m mod 1000)
          in (if q < 0 then ''-'' else []) @ to_string (m div 1000) @ ''.'' @
             replicate (3 - length thousandths) (CHR ''0'') @ thousandths)"

definition line_end :: string where
  "line_end = [CHR 0x0A]"

text \<open>\<open>"\<close> is written \<open>CHR 0x22\<close>; \<open>json_key\<close> is a key with its indentation, as the literals of \<open>BuildJson\<close> have it.\<close>

definition quoted :: "string \<Rightarrow> string" where
  "quoted s = [CHR 0x22] @ s @ [CHR 0x22]"

definition json_key :: "nat \<Rightarrow> string \<Rightarrow> string" where
  "json_key n k = replicate n (CHR '' '') @ quoted k @ '': ''"

definition BuildJson ::
  "bench_environment \<Rightarrow> Options \<Rightarrow> ProtocolMetrics \<Rightarrow> AoiMetrics \<Rightarrow> dbl \<Rightarrow> string" where
  "BuildJson be opts pm am peak_rss_mb =
     ''{'' @ line_end
     @ json_key 2 ''schema_version'' @ ''1,'' @ line_end
     @ json_key 2 ''benchmark_kind'' @ quoted ''in_process_module_benchmark'' @ '','' @ line_end
     @ json_key 2 ''warning'' @ quoted ''Not an end-to-end epoll server or network latency benchmark'' @ '','' @ line_end
     @ json_key 2 ''timestamp_utc'' @ quoted (be_timestamp be) @ '','' @ line_end
     @ json_key 2 ''environment'' @ ''{'' @ line_end
     @ json_key 4 ''os'' @ quoted (JsonEscape (OperatingSystem be)) @ '','' @ line_end
     @ json_key 4 ''compiler'' @ quoted (JsonEscape (Compiler be)) @ '','' @ line_end
     @ json_key 4 ''hardware_concurrency'' @ to_string (be_hardware_concurrency be) @ '','' @ line_end
     @ json_key 4 ''peak_rss_mb'' @ fixed3 peak_rss_mb @ line_end
     @ ''  },'' @ line_end
     @ json_key 2 ''configuration'' @ ''{'' @ line_end
     @ json_key 4 ''players'' @ to_string (unat (opt_players opts)) @ '','' @ line_end
     @ json_key 4 ''moves_per_player'' @ to_string (unat (opt_moves_per_player opts)) @ '','' @ line_end
     @ json_key 4 ''repetitions'' @ to_string (unat (opt_repetitions opts)) @ '','' @ line_end
     @ json_key 4 ''payload_bytes'' @ to_string (unat (opt_payload_bytes opts)) @ '','' @ line_end
     @ json_key 4 ''distribution'' @ quoted (opt_distribution opts) @ '','' @ line_end
     @ json_key 4 ''seed'' @ to_string (unat (opt_seed opts)) @ line_end
     @ ''  },'' @ line_end
     @ json_key 2 ''protocol'' @ ''{'' @ line_end
     @ json_key 4 ''frames'' @ to_string (unat (pm_frames pm)) @ '','' @ line_end
     @ json_key 4 ''wire_bytes'' @ to_string (pm_bytes pm) @ '','' @ line_end
     @ json_key 4 ''encode_wall_ms'' @ fixed3 (pm_encode_wall_ms pm) @ '','' @ line_end
     @ json_key 4 ''encode_cpu_ms'' @ fixed3 (pm_encode_cpu_ms pm) @ '','' @ line_end
     @ json_key 4 ''decode_wall_ms'' @ fixed3 (pm_decode_wall_ms pm) @ '','' @ line_end
     @ json_key 4 ''decode_cpu_ms'' @ fixed3 (pm_decode_cpu_ms pm) @ '','' @ line_end
     @ json_key 4 ''encode_frames_per_second'' @ fixed3 (pm_encode_frames_per_second pm) @ '','' @ line_end
     @ json_key 4 ''decode_frames_per_second'' @ fixed3 (pm_decode_frames_per_second pm) @ line_end
     @ ''  },'' @ line_end
     @ json_key 2 ''aoi'' @ ''{'' @ line_end
     @ json_key 4 ''operations'' @ to_string (unat (am_operations am)) @ '','' @ line_end
     @ json_key 4 ''wall_ms'' @ fixed3 (am_wall_ms am) @ '','' @ line_end
     @ json_key 4 ''cpu_ms'' @ fixed3 (am_cpu_ms am) @ '','' @ line_end
     @ json_key 4 ''operations_per_second'' @ fixed3 (am_operations_per_second am) @ '','' @ line_end
     @ json_key 4 ''p50_us'' @ fixed3 (am_p50_us am) @ '','' @ line_end
     @ json_key 4 ''p95_us'' @ fixed3 (am_p95_us am) @ '','' @ line_end
     @ json_key 4 ''p99_us'' @ fixed3 (am_p99_us am) @ '','' @ line_end
     @ json_key 4 ''average_aoi_recipients'' @ fixed3 (am_average_aoi_recipients am) @ '','' @ line_end
     @ json_key 4 ''full_broadcast_recipients'' @ fixed3 (am_full_broadcast_recipients am) @ '','' @ line_end
     @ json_key 4 ''recipient_reduction_percent'' @ fixed3 (am_recipient_reduction_percent am) @ line_end
     @ ''  }'' @ line_end
     @ ''}'' @ line_end"

definition PrintSummary :: "Options \<Rightarrow> ProtocolMetrics \<Rightarrow> AoiMetrics \<Rightarrow> dbl \<Rightarrow> string" where
  "PrintSummary opts pm am peak_rss_mb =
     ''Benchmark kind: in-process module benchmark'' @ line_end
     @ ''Players: '' @ to_string (unat (opt_players opts)) @ '', distribution: '' @ opt_distribution opts @ line_end
     @ ''Protocol encode: '' @ fixed3 (pm_encode_frames_per_second pm) @ '' frames/s'' @ line_end
     @ ''Protocol decode: '' @ fixed3 (pm_decode_frames_per_second pm) @ '' frames/s'' @ line_end
     @ ''AOI moves: '' @ fixed3 (am_operations_per_second am) @ '' ops/s'' @ line_end
     @ ''AOI p99: '' @ fixed3 (am_p99_us am) @ '' us'' @ line_end
     @ ''Average recipients: '' @ fixed3 (am_average_aoi_recipients am) @ '' vs ''
     @ fixed3 (am_full_broadcast_recipients am) @ line_end
     @ ''Recipient reduction: '' @ fixed3 (am_recipient_reduction_percent am) @ ''%'' @ line_end
     @ ''Peak RSS: '' @ fixed3 peak_rss_mb @ '' MB'' @ line_end"

definition PrintUsage :: string where
  "PrintUsage =
     ''Usage: mmo_bench [options]'' @ line_end
     @ ''  --players N             Number of simulated players (default 1000)'' @ line_end
     @ ''  --moves-per-player N    Movement operations per player (default 20)'' @ line_end
     @ ''  --repetitions N         Repeated runs (default 3)'' @ line_end
     @ ''  --payload-bytes N       Protocol payload bytes (default 32)'' @ line_end
     @ ''  --distribution NAME     uniform or hotspot (default uniform)'' @ line_end
     @ ''  --seed N                Deterministic random seed'' @ line_end
     @ ''  --output PATH           Write machine-readable JSON'' @ line_end"

text \<open>
  \<open>main\<close>: the exit status, what goes to \<open>std::cout\<close> and the file that was written. \<open>can_open\<close> tells whether a path can be
  opened for writing. Everything that is thrown is caught.
\<close>

definition bench_main ::
  "bench_environment \<Rightarrow> (string \<Rightarrow> bool) \<Rightarrow> (nat \<Rightarrow> nat) \<Rightarrow> measured_times \<Rightarrow> 'r generator \<Rightarrow> dbl list \<Rightarrow> dbl list \<Rightarrow> dbl list \<Rightarrow>
   string list \<Rightarrow> int \<times> string \<times> (string \<times> string) option" where
  "bench_main be can_open raw mt gen latencies walls cpus arguments =
     (case ParseOptions arguments of
        Inl _ \<Rightarrow> (1, [], None)
      | Inr None \<Rightarrow> (0, PrintUsage, None)
      | Inr (Some opts) \<Rightarrow>
          (case outcome_bind (RunProtocolBenchmark raw mt opts) (\<lambda>pm.
                  outcome_bind (RunAoiBenchmark gen latencies walls cpus opts) (\<lambda>am. Inr (pm, am))) of
             Inl _ \<Rightarrow> (1, [], None)
           | Inr (pm, am) \<Rightarrow>
               let peak_rss_mb = PeakResidentMemoryMb be;
                   json = BuildJson be opts pm am peak_rss_mb;
                   summary = PrintSummary opts pm am peak_rss_mb
               in if opt_output_path opts = [] then (0, summary, None)
                  else if \<not> can_open (opt_output_path opts) then (1, summary, None)
                  else (0, summary @ ''JSON: '' @ opt_output_path opts @ line_end, Some (opt_output_path opts, json))))"

section \<open>The report as a JSON document\<close>

text \<open>The part of the JSON grammar (RFC 8259) that the report uses: numbers without exponent, texts and objects that are not empty.\<close>

definition json_number :: "string \<Rightarrow> bool" where
  "json_number s \<longleftrightarrow> (\<exists>sign w f. s = sign @ w @ f \<and> sign \<in> {[], ''-''} \<and> w \<noteq> [] \<and> list_all is_digit w \<and> (hd w = CHR ''0'' \<longrightarrow> w = ''0'') \<and>
     (f = [] \<or> (\<exists>ds. f = CHR ''.'' # ds \<and> ds \<noteq> [] \<and> list_all is_digit ds)))"

definition json_plain :: "char \<Rightarrow> bool" where
  "json_plain c \<longleftrightarrow> 32 \<le> (of_char c :: nat) \<and> c \<noteq> CHR 0x22 \<and> c \<noteq> CHR 0x5C"

inductive json_text :: "string \<Rightarrow> bool" where
  empty: "json_text []"
| plain: "json_plain c \<Longrightarrow> json_text s \<Longrightarrow> json_text (c # s)"
| escape: "c \<in> {CHR 0x22, CHR 0x5C, CHR ''n'', CHR ''r'', CHR ''t''} \<Longrightarrow> json_text s \<Longrightarrow> json_text (CHR 0x5C # c # s)"

definition json_space :: "string \<Rightarrow> bool" where
  "json_space s \<longleftrightarrow> list_all (\<lambda>c. c \<in> {CHR '' '', CHR 0x0A}) s"

inductive json :: "string \<Rightarrow> bool" and json_members :: "string \<Rightarrow> bool" where
  number: "json_number s \<Longrightarrow> json s"
| text_value: "json_text s \<Longrightarrow> json (quoted s)"
| object: "json_members ms \<Longrightarrow> json_space w \<Longrightarrow> json (''{'' @ w @ ms @ ''}'')"
| last_member: "json_text k \<Longrightarrow> json v \<Longrightarrow> json_space w \<Longrightarrow> json_members (quoted k @ '': '' @ v @ w)"
| member: "json_text k \<Longrightarrow> json v \<Longrightarrow> json_space w \<Longrightarrow> json_members ms \<Longrightarrow>
    json_members (quoted k @ '': '' @ v @ '','' @ w @ ms)"

text \<open>The layout of an object: one member per line.\<close>

fun render_members :: "nat \<Rightarrow> (string \<times> string) list \<Rightarrow> string" where
  "render_members n [] = []"
| "render_members n [(k, v)] = json_key n k @ v"
| "render_members n ((k, v) # m # ms) = json_key n k @ v @ '','' @ line_end @ render_members n (m # ms)"

definition json_object :: "nat \<Rightarrow> (string \<times> string) list \<Rightarrow> string" where
  "json_object n ms = ''{'' @ line_end @ render_members (n + 2) ms @ line_end @ replicate n (CHR '' '') @ ''}''"

lemma json_space_simps [simp]:
  "json_space []" "json_space line_end" "json_space (replicate n (CHR '' ''))" "json_space (v @ w) \<longleftrightarrow> json_space v \<and> json_space w"
  by (auto simp: json_space_def line_end_def list_all_iff)

lemma render_members_json:
  assumes "ms \<noteq> []" "\<forall>(k, v) \<in> set ms. json_text k \<and> json v" "json_space w"
  shows "\<exists>v ms'. render_members n ms @ w = v @ ms' \<and> json_space v \<and> json_members ms'"
  using assms(1,2)
proof (induction n ms rule: render_members.induct)
  case (2 n k v)
  then have "json_members (quoted k @ '': '' @ v @ w)" using assms(3) by (intro last_member) auto
  then show ?case
    by (intro exI[of _ "replicate n (CHR '' '')"] exI[of _ "quoted k @ '': '' @ v @ w"]) (simp add: json_key_def)
next
  case (3 n k v m ms)
  then obtain x ms' where x: "render_members n (m # ms) @ w = x @ ms'" "json_space x" "json_members ms'" by auto
  then have "json_members (quoted k @ '': '' @ v @ '','' @ (line_end @ x) @ ms')" using 3(3) by (intro member) auto
  then show ?case using x(1)
    by (intro exI[of _ "replicate n (CHR '' '')"] exI[of _ "quoted k @ '': '' @ v @ '','' @ (line_end @ x) @ ms'"]) (simp add: json_key_def)
qed simp

lemma json_object_json:
  assumes "ms \<noteq> []" "\<forall>(k, v) \<in> set ms. json_text k \<and> json v"
  shows "json (json_object n ms)"
proof -
  obtain v ms' where "render_members (n + 2) ms @ line_end @ replicate n (CHR '' '') = v @ ms'" "json_space v" "json_members ms'"
    using render_members_json[OF assms, of "line_end @ replicate n (CHR '' '')" "n + 2"] by auto
  moreover from this have "json (''{'' @ (line_end @ v) @ ms' @ ''}'')" by (intro object) simp_all
  moreover have "json_object n ms = ''{'' @ line_end @ (render_members (n + 2) ms @ line_end @ replicate n (CHR '' '')) @ ''}''"
    by (simp add: json_object_def)
  ultimately show ?thesis by simp
qed

lemma BuildJson_layout:
  "BuildJson be opts pm am rss = json_object 0
     [(''schema_version'', ''1''), (''benchmark_kind'', quoted ''in_process_module_benchmark''),
      (''warning'', quoted ''Not an end-to-end epoll server or network latency benchmark''),
      (''timestamp_utc'', quoted (be_timestamp be)),
      (''environment'', json_object 2
        [(''os'', quoted (JsonEscape (OperatingSystem be))), (''compiler'', quoted (JsonEscape (Compiler be))),
         (''hardware_concurrency'', to_string (be_hardware_concurrency be)), (''peak_rss_mb'', fixed3 rss)]),
      (''configuration'', json_object 2
        [(''players'', to_string (unat (opt_players opts))), (''moves_per_player'', to_string (unat (opt_moves_per_player opts))),
         (''repetitions'', to_string (unat (opt_repetitions opts))), (''payload_bytes'', to_string (unat (opt_payload_bytes opts))),
         (''distribution'', quoted (opt_distribution opts)), (''seed'', to_string (unat (opt_seed opts)))]),
      (''protocol'', json_object 2
        [(''frames'', to_string (unat (pm_frames pm))), (''wire_bytes'', to_string (pm_bytes pm)),
         (''encode_wall_ms'', fixed3 (pm_encode_wall_ms pm)), (''encode_cpu_ms'', fixed3 (pm_encode_cpu_ms pm)),
         (''decode_wall_ms'', fixed3 (pm_decode_wall_ms pm)), (''decode_cpu_ms'', fixed3 (pm_decode_cpu_ms pm)),
         (''encode_frames_per_second'', fixed3 (pm_encode_frames_per_second pm)),
         (''decode_frames_per_second'', fixed3 (pm_decode_frames_per_second pm))]),
      (''aoi'', json_object 2
        [(''operations'', to_string (unat (am_operations am))), (''wall_ms'', fixed3 (am_wall_ms am)), (''cpu_ms'', fixed3 (am_cpu_ms am)),
         (''operations_per_second'', fixed3 (am_operations_per_second am)), (''p50_us'', fixed3 (am_p50_us am)),
         (''p95_us'', fixed3 (am_p95_us am)), (''p99_us'', fixed3 (am_p99_us am)),
         (''average_aoi_recipients'', fixed3 (am_average_aoi_recipients am)),
         (''full_broadcast_recipients'', fixed3 (am_full_broadcast_recipients am)),
         (''recipient_reduction_percent'', fixed3 (am_recipient_reduction_percent am))])] @ line_end"
proof -
  have n: "(0 :: nat) + 2 = 2" "(2 :: nat) + 2 = 4" "replicate 0 (CHR '' '') = []" "replicate 2 (CHR '' '') = ''  ''"
    by (simp_all add: numeral_2_eq_2)
  show ?thesis
    unfolding BuildJson_def json_object_def n by (simp only: render_members.simps append_assoc append_Cons append_Nil)
qed

section \<open>Numbers and texts\<close>

lemma to_string_no_zero: "n \<noteq> 0 \<Longrightarrow> hd (to_string n) \<noteq> CHR ''0''"
proof (induction n rule: less_induct)
  case (less n)
  show ?case
  proof (cases "n < 10")
    case True
    then have "to_string n = [digit_char n]" by (simp add: to_string_def number_string.simps[of 10 n])
    moreover have "digit_value (digit_char n) = n" using True by (rule digit_value_char)
    ultimately show ?thesis using less.prems by (auto simp: digit_value_def)
  next
    case False
    then have "to_string n = to_string (n div 10) @ [digit_char (n mod 10)]"
      by (simp add: to_string_def number_string.simps[of 10 n])
    moreover have "to_string (n div 10) \<noteq> []" by (simp add: to_string_def number_string_nonempty)
    moreover have "hd (to_string (n div 10)) \<noteq> CHR ''0''" using less.IH[of "n div 10"] False by simp
    ultimately show ?thesis by simp
  qed
qed

lemma to_string_digits: "list_all is_digit (to_string n)" "to_string n \<noteq> []" "hd (to_string n) = CHR ''0'' \<longrightarrow> to_string n = ''0''"
proof -
  show "list_all is_digit (to_string n)" using digits_number_string[of n] by (auto simp: list_all_iff to_string_def)
  show "to_string n \<noteq> []" by (simp add: to_string_def number_string_nonempty)
  show "hd (to_string n) = CHR ''0'' \<longrightarrow> to_string n = ''0''"
    using to_string_no_zero[of n] by (cases "n = 0") (auto simp: to_string_def number_string.simps[of 10 0] digit_char_def)
qed

lemma json_numberI:
  assumes "sign \<in> {[], ''-''}" "f = [] \<or> (\<exists>ds. f = CHR ''.'' # ds \<and> ds \<noteq> [] \<and> list_all is_digit ds)"
  shows "json (sign @ to_string n @ f)"
  unfolding json.simps[of "sign @ to_string n @ f"] json_number_def
  using assms to_string_digits[of n] by blast

lemma to_string_json: "json (to_string n)"
  using json_numberI[of "[]" "[]" n] by simp

lemma fixed3_json: "json (fixed3 (DFin q))"
proof -
  define m where "m = nat (round_half_even (\<bar>q\<bar> * 1000))"
  let ?t = "to_string (m mod 1000)"
  let ?ds = "replicate (3 - length ?t) (CHR ''0'') @ ?t"
  have "list_all is_digit ?ds" "?ds \<noteq> []" using to_string_digits[of "m mod 1000"] by (auto simp: list_all_iff is_digit_def)
  moreover have "fixed3 (DFin q) = (if q < 0 then ''-'' else []) @ to_string (m div 1000) @ CHR ''.'' # ?ds"
    by (simp add: fixed3_def m_def Let_def)
  moreover have "(if q < 0 then ''-'' else []) \<in> {[], ''-''}" by simp
  ultimately show ?thesis using json_numberI[of "if q < 0 then ''-'' else []" "CHR ''.'' # ?ds" "m div 1000"] by metis
qed

lemma one_json: "json ''1''"
proof -
  have "to_string 1 = ''1''" by code_simp
  then show ?thesis using to_string_json[of 1] by metis
qed

lemma json_text_plain: "list_all json_plain s \<Longrightarrow> json_text s"
  by (induction s) (auto intro: json_text.intros)

lemma JsonEscape_json:
  "list_all (\<lambda>c. 32 \<le> (of_char c :: nat) \<or> c \<in> {CHR 0x09, CHR 0x0A, CHR 0x0D}) s \<Longrightarrow> json_text (JsonEscape s)"
proof (induction s)
  case (Cons c cs)
  then have t: "json_text (JsonEscape cs)" by simp
  consider (esc) "c \<in> {CHR 0x09, CHR 0x0A, CHR 0x0D, CHR 0x22, CHR 0x5C}" | (plain) "json_plain c"
    using Cons.prems by (auto simp: json_plain_def)
  then show ?case
  proof cases
    case esc
    then show ?thesis using t by (auto intro: json_text.escape)
  next
    case plain
    then have "JsonEscape (c # cs) = c # JsonEscape cs" by (auto simp: json_plain_def)
    then show ?thesis using plain t json_text.plain by simp
  qed
qed (simp add: json_text.empty)

fun finite_double :: "dbl \<Rightarrow> bool" where
  "finite_double (DFin _) \<longleftrightarrow> True"
| "finite_double _ \<longleftrightarrow> False"

lemma fixed3_finite: "finite_double v \<Longrightarrow> json (fixed3 v)"
  by (cases v) (simp_all add: fixed3_json)

text \<open>
  The report is one JSON object when every measured value is finite and the texts of the environment hold no control characters
  other than tab, line feed and carriage return.
\<close>

theorem report_is_json:
  assumes "ParseOptions arguments = Inr (Some opts)" "list_all json_plain (be_timestamp be)"
    and "list_all (\<lambda>c. 32 \<le> (of_char c :: nat) \<or> c \<in> {CHR 0x09, CHR 0x0A, CHR 0x0D}) (OperatingSystem be @ Compiler be)"
    and "list_all finite_double [rss, pm_encode_wall_ms pm, pm_encode_cpu_ms pm, pm_decode_wall_ms pm, pm_decode_cpu_ms pm,
      pm_encode_frames_per_second pm, pm_decode_frames_per_second pm, am_wall_ms am, am_cpu_ms am, am_operations_per_second am,
      am_p50_us am, am_p95_us am, am_p99_us am, am_average_aoi_recipients am, am_full_broadcast_recipients am,
      am_recipient_reduction_percent am]"
  shows "\<exists>d. BuildJson be opts pm am rss = d @ line_end \<and> json d"
proof -
  have esc: "json_text (JsonEscape (OperatingSystem be))" "json_text (JsonEscape (Compiler be))"
    using assms(3) by (simp_all add: JsonEscape_json)
  have dist: "json_text (opt_distribution opts)"
    using options_in_bounds[OF assms(1)] by (auto intro!: json_text_plain simp: json_plain_def)
  have stamp: "json_text (be_timestamp be)" using assms(2) by (rule json_text_plain)
  have fin: "json (fixed3 rss)" "json (fixed3 (pm_encode_wall_ms pm))" "json (fixed3 (pm_encode_cpu_ms pm))"
      "json (fixed3 (pm_decode_wall_ms pm))" "json (fixed3 (pm_decode_cpu_ms pm))" "json (fixed3 (pm_encode_frames_per_second pm))"
      "json (fixed3 (pm_decode_frames_per_second pm))" "json (fixed3 (am_wall_ms am))" "json (fixed3 (am_cpu_ms am))"
      "json (fixed3 (am_operations_per_second am))" "json (fixed3 (am_p50_us am))" "json (fixed3 (am_p95_us am))"
      "json (fixed3 (am_p99_us am))" "json (fixed3 (am_average_aoi_recipients am))"
      "json (fixed3 (am_full_broadcast_recipients am))" "json (fixed3 (am_recipient_reduction_percent am))"
    using assms(4) by (simp_all add: fixed3_finite)
  have obj: "json (json_object n ms)" if "ms \<noteq> []" "list_all (\<lambda>(k, v). list_all json_plain k \<and> json v) ms" for n ms
    using that by (intro json_object_json) (auto simp: list_all_iff intro!: json_text_plain)
  have fixed: "json (quoted ''in_process_module_benchmark'')"
      "json (quoted ''Not an end-to-end epoll server or network latency benchmark'')"
    by (auto intro!: text_value json_text_plain simp: json_plain_def)
  show ?thesis
    unfolding BuildJson_layout
    by (rule exI, rule conjI, rule refl, rule obj)
      (simp_all add: obj one_json to_string_json fin text_value esc dist stamp fixed json_plain_def)
qed

text \<open>A run that the clock measures with zero puts a token into the report that JSON does not have.\<close>

lemma zero_time_breaks_the_report: "fixed3 (per_second 1 (DFin 0)) = ''inf''" "\<not> json ''inf''"
proof -
  show "fixed3 (per_second 1 (DFin 0)) = ''inf''" by (simp add: per_second_def size_t_to_double_def fixed3_def)
  show "\<not> json ''inf''"
    by (auto simp: json.simps[of "''inf''"] json_number_def quoted_def is_digit_def Cons_eq_append_conv)
qed

end
