(* ===== verification/Server_Main.thy ===== *)
theory Server_Main
  imports Server_Properties Mysql_Repository Redis_Store
begin

text \<open>
  \<open>apps/mmo_server_main.cpp\<close>: from the command line and the environment to a running server. The build
  option \<open>MMO_HAS_DATABASES\<close> is an argument; the environment is a function from names to values; the
  system calls of the server answer as in \<open>Game_Server\<close>. An exception ends the program with status 1.
\<close>

section \<open>Arguments and environment\<close>

definition kServerUsage :: string where
  "kServerUsage = ''usage: mmo_server [--memory] [--host IPv4] [--port N]''"

text \<open>The loop over \<open>argv[1..]\<close>, with \<open>use_memory\<close> and \<open>config\<close>. The cast to \<open>std::uint16_t\<close> keeps 16 bits.\<close>

fun parse_server_arguments :: "string list \<Rightarrow> bool \<Rightarrow> ServerConfig \<Rightarrow> (bool \<times> ServerConfig) outcome" where
  "parse_server_arguments [] use_memory cfg = Inr (use_memory, cfg)"
| "parse_server_arguments (argument # rest) use_memory cfg =
     (if argument = ''--memory'' then parse_server_arguments rest True cfg
      else case rest of
        [] \<Rightarrow> Inl (Throw (invalid_argument kServerUsage))
      | value # rest' \<Rightarrow>
          if argument = ''--port''
          then outcome_bind (stoul value) (\<lambda>n. parse_server_arguments rest' use_memory (cfg\<lparr>sc_port := ucast n\<rparr>))
          else if argument = ''--host''
          then parse_server_arguments rest' use_memory (cfg\<lparr>sc_bind_address := value\<rparr>)
          else Inl (Throw (invalid_argument kServerUsage)))"

definition Environment :: "(string \<Rightarrow> string option) \<Rightarrow> string \<Rightarrow> string \<Rightarrow> string" where
  "Environment getenv name fallback = (case getenv name of None \<Rightarrow> fallback | Some value \<Rightarrow> value)"

section \<open>Stores\<close>

datatype store_choice = MemoryStores | DatabaseStores MySqlConfig RedisConfig

definition mysql_environment :: "(string \<Rightarrow> string option) \<Rightarrow> MySqlConfig outcome" where
  "mysql_environment getenv =
     (let mysql = default_mysql_config\<lparr>mc_host := Environment getenv ''MMO_MYSQL_HOST'' ''127.0.0.1''\<rparr> in
      outcome_bind (stoul (Environment getenv ''MMO_MYSQL_PORT'' ''3306'')) (\<lambda>port.
        let mysql = mysql\<lparr>mc_port := ucast port, mc_user := Environment getenv ''MMO_MYSQL_USER'' '''',
              mc_password := Environment getenv ''MMO_MYSQL_PASSWORD'' '''',
              mc_database := Environment getenv ''MMO_MYSQL_DATABASE'' ''''\<rparr>
        in if mc_user mysql = [] \<or> mc_database mysql = []
           then Inl (Throw (invalid_argument ''set MMO_MYSQL_USER and MMO_MYSQL_DATABASE, or use --memory''))
           else Inr mysql))"

definition redis_environment :: "(string \<Rightarrow> string option) \<Rightarrow> RedisConfig outcome" where
  "redis_environment getenv =
     (let redis = default_redis_config\<lparr>rc_host := Environment getenv ''MMO_REDIS_HOST'' ''127.0.0.1''\<rparr> in
      outcome_bind (stoi (Environment getenv ''MMO_REDIS_PORT'' ''6379'')) (\<lambda>port. Inr (redis\<lparr>rc_port := port\<rparr>)))"

text \<open>The world changes only where MySQL is called, so a result comes with the world after it.\<close>

definition open_stores ::
  "bool \<Rightarrow> 'd mysql_client \<Rightarrow> (string \<Rightarrow> string option) \<Rightarrow> bool \<Rightarrow> 'd \<Rightarrow> store_choice outcome \<times> 'd" where
  "open_stores has_databases my getenv use_memory d =
     (if use_memory then (Inr MemoryStores, d)
      else if \<not> has_databases
      then (Inl (Throw (invalid_argument ''this build has no database adapters; use --memory'')), d)
      else
        case mysql_environment getenv of
          Inl e \<Rightarrow> (Inl e, d)
        | Inr mysql \<Rightarrow>
            let (repository, d) = MySqlPlayerRepository_new my mysql False d in
            case repository of
              Inl e \<Rightarrow> (Inl e, d)
            | Inr (repo, _) \<Rightarrow>
                let (schema, d) = EnsureSchema my repo d in
                if \<not> OperationResult_Ok schema
                then (Inl (Throw (runtime_error (''MySQL setup failed: '' @ op_error schema))), d)
                else (outcome_bind (redis_environment getenv) (\<lambda>redis. Inr (DatabaseStores repo redis)), d))"

section \<open>The program\<close>

text \<open>The part of \<open>main\<close> before \<open>server.Run()\<close>.\<close>

definition start_server ::
  "bool \<Rightarrow> 'd mysql_client \<Rightarrow> (string \<Rightarrow> string option) \<Rightarrow> server_os \<Rightarrow> (nat \<Rightarrow> u64) \<Rightarrow> (nat \<Rightarrow> u64) \<Rightarrow>
   string list \<Rightarrow> 'd \<Rightarrow> (store_choice \<times> GameServer) outcome \<times> 'd" where
  "start_server has_databases my getenv so draws clock arguments d =
     (case parse_server_arguments arguments False default_server_config of
        Inl e \<Rightarrow> (Inl e, d)
      | Inr (use_memory, cfg) \<Rightarrow>
          let (stores, d) = open_stores has_databases my getenv use_memory d
          in (outcome_bind stores (\<lambda>s. outcome_bind (GameServer_new so cfg draws clock) (\<lambda>g. Inr (s, g))), d))"

text \<open>
  The global pointer \<open>g_server\<close> and the object it points to: null, the living server, or a server that has been
  destroyed.
\<close>

datatype server_pointer = NullServer | LiveServer | DeadServer

definition HandleSignal :: "server_pointer \<Rightarrow> server_transport \<Rightarrow> server_transport outcome" where
  "HandleSignal g_server t =
     (case g_server of
        NullServer \<Rightarrow> Inr t
      | LiveServer \<Rightarrow> Inr (server_Stop t)
      | DeadServer \<Rightarrow> Inl UndefinedBehaviour)"

text \<open>
  The rest of \<open>main\<close>: the exit status, and what \<open>g_server\<close> is once the local variables are destroyed, after \<open>Run\<close>
  has returned or thrown. An exception skips the assignment of the null pointer. \<open>None\<close>: \<open>Run\<close> still waits for events.
\<close>

definition finish_main :: "(bool \<times> GameServer) outcome \<Rightarrow> (int \<times> server_pointer) option" where
  "finish_main run =
     (case run of
        Inr (returned, _) \<Rightarrow> if returned then Some (0, NullServer) else None
      | Inl _ \<Rightarrow> Some (1, DeadServer))"

text \<open>
  The whole program. \<open>events\<close> are the results of \<open>epoll_wait\<close>; \<open>acc\<close>, \<open>snd_answers\<close>, \<open>rcv_answers\<close> and \<open>ok\<close> the answers
  of the kernel to the calls of the running server.
\<close>

definition server_main ::
  "bool \<Rightarrow> 'd mysql_client \<Rightarrow> (string \<Rightarrow> string option) \<Rightarrow> server_os \<Rightarrow> (nat \<Rightarrow> u64) \<Rightarrow> (nat \<Rightarrow> u64) \<Rightarrow>
   protobuf \<Rightarrow> wait_result list \<Rightarrow> accept_result list \<Rightarrow> (int \<Rightarrow> send_result list) \<Rightarrow> (int \<Rightarrow> recv_result list) \<Rightarrow>
   (nat \<Rightarrow> bool) \<Rightarrow> string list \<Rightarrow> 'd \<Rightarrow> (int \<times> server_pointer) option \<times> 'd" where
  "server_main has_databases my getenv so draws clock pb events acc snd_answers rcv_answers ok arguments d =
     (let (started, d) = start_server has_databases my getenv so draws clock arguments d in
      case started of
        Inl _ \<Rightarrow> (Some (1, NullServer), d)
      | Inr (_, g) \<Rightarrow>
          (finish_main (server_Run pb events
             (at_transport (\<lambda>t. t\<lparr>os_accept := acc, os_send := snd_answers, os_recv := rcv_answers, os_epoll_ok := ok\<rparr>) g)), d))"

section \<open>Facts\<close>

text \<open>A port is taken modulo \<open>2 ^ 16\<close>: a number that is none is not refused.\<close>

lemma port_is_truncated:
  assumes "n < 2 ^ 64"
  shows "parse_server_arguments [''--port'', to_string n] m cfg = Inr (m, cfg\<lparr>sc_port := of_nat n\<rparr>)"
proof -
  have "(ucast (of_nat n :: u64) :: u16) = of_nat n" by (rule bit_word_eqI) (simp add: bit_simps)
  then show ?thesis using assms by (simp add: stoul_to_string)
qed

text \<open>The command lines that are accepted, as sequences of options, and what each option does.\<close>

datatype server_option = OptMemory | OptPort string | OptHost string

fun option_words :: "server_option \<Rightarrow> string list" where
  "option_words OptMemory = [''--memory'']"
| "option_words (OptPort v) = [''--port'', v]"
| "option_words (OptHost v) = [''--host'', v]"

fun apply_option :: "server_option \<Rightarrow> bool \<times> ServerConfig \<Rightarrow> bool \<times> ServerConfig" where
  "apply_option OptMemory (_, cfg) = (True, cfg)"
| "apply_option (OptPort v) (m, cfg) = (m, cfg\<lparr>sc_port := (case stoul v of Inr n \<Rightarrow> ucast n | Inl _ \<Rightarrow> 0)\<rparr>)"
| "apply_option (OptHost v) (m, cfg) = (m, cfg\<lparr>sc_bind_address := v\<rparr>)"

fun option_valid :: "server_option \<Rightarrow> bool" where
  "option_valid (OptPort v) \<longleftrightarrow> \<not> isl (stoul v)"
| "option_valid _ \<longleftrightarrow> True"

lemma parse_options:
  "list_all option_valid opts \<Longrightarrow>
     parse_server_arguments (concat (map option_words opts)) m cfg = Inr (fold apply_option opts (m, cfg))"
proof (induction opts arbitrary: m cfg)
  case (Cons opt opts)
  then show ?case by (cases opt) (auto split: sum.splits)
qed simp

lemma parse_only_options:
  "parse_server_arguments arguments m cfg = Inr r \<Longrightarrow>
     \<exists>opts. arguments = concat (map option_words opts) \<and> list_all option_valid opts"
proof (induction arguments m cfg rule: parse_server_arguments.induct)
  case (1 m cfg)
  then show ?case by (auto intro: exI[of _ "[]"])
next
  case (2 argument rest m cfg)
  have cons: "\<exists>opts. option_words opt @ rest' = concat (map option_words opts) \<and> list_all option_valid opts"
    if opts: "\<exists>opts. rest' = concat (map option_words opts) \<and> list_all option_valid opts" and opt: "option_valid opt" for opt rest'
  proof -
    obtain opts where "rest' = concat (map option_words opts)" "list_all option_valid opts" using opts by blast
    then show ?thesis using opt by (intro exI[of _ "opt # opts"]) simp
  qed
  show ?case
  proof (cases "argument = ''--memory''")
    case True
    then show ?thesis using 2 cons[of rest OptMemory] by simp
  next
    case False
    then obtain v rest' where r: "rest = v # rest'" using "2.prems" by (cases rest) auto
    then consider (port) n where "argument = ''--port''" "stoul v = Inr n"
        "parse_server_arguments rest' m (cfg\<lparr>sc_port := ucast n\<rparr>) = Inr r"
      | (host) "argument = ''--host''" "parse_server_arguments rest' m (cfg\<lparr>sc_bind_address := v\<rparr>) = Inr r"
      using "2.prems" False by (auto simp: outcome_bind_Inr_iff split: if_splits)
    then show ?thesis
    proof cases
      case port
      then show ?thesis using "2.IH"(2)[OF False r port] r cons[of rest' "OptPort v"] by simp
    next
      case host
      then show ?thesis using "2.IH"(3)[OF False r _ host] r cons[of rest' "OptHost v"] by simp
    qed
  qed
qed

lemma fold_apply_option:
  "fold apply_option opts (m, cfg) = (m', cfg') \<Longrightarrow>
     m' = (m \<or> OptMemory \<in> set opts) \<and> (\<exists>port address. cfg' = cfg\<lparr>sc_port := port, sc_bind_address := address\<rparr>)"
proof (induction opts arbitrary: m cfg)
  case Nil
  then show ?case by (auto intro!: exI[of _ "sc_port cfg"] exI[of _ "sc_bind_address cfg"])
next
  case (Cons opt opts)
  show ?case
  proof (cases opt)
    case OptMemory
    then show ?thesis using Cons.prems Cons.IH[of True cfg] by simp
  next
    case (OptPort v)
    then show ?thesis
      using Cons.prems Cons.IH[of m "cfg\<lparr>sc_port := (case stoul v of Inr n \<Rightarrow> ucast n | Inl _ \<Rightarrow> 0)\<rparr>"] by auto
  next
    case (OptHost v)
    then show ?thesis using Cons.prems Cons.IH[of m "cfg\<lparr>sc_bind_address := v\<rparr>"] by auto
  qed
qed

lemma mysql_environment_named:
  "mysql_environment getenv = Inr mysql \<Longrightarrow> mc_user mysql \<noteq> [] \<and> mc_database mysql \<noteq> []"
  by (auto simp: mysql_environment_def Let_def outcome_bind_Inr_iff split: if_splits)

lemma EnsureSchema_opens:
  assumes "mysql_handles my opens"
  shows "opens (snd (EnsureSchema my cfg d)) = opens d"
  using mysql_connect_opens(1)[OF assms, of cfg d] mysql_handle_steps[OF assms]
  by (auto simp: EnsureSchema_def case_prod_unfold Let_def split: sum.splits)

lemma open_stores_opens:
  assumes "mysql_handles my opens" "\<And>d. opens (snd (mysql_library_init my d)) = opens d"
  shows "opens (snd (open_stores has my getenv m d)) = opens d"
proof -
  have "opens (snd (MySqlPlayerRepository_new my cfg b d)) = opens d" for cfg b d
    using assms(2) by (simp add: MySqlPlayerRepository_new_def EnsureMySqlLibraryInitialized_def case_prod_unfold Let_def)
  then show ?thesis
    using EnsureSchema_opens[OF assms(1)] by (auto simp: open_stores_def case_prod_unfold Let_def split: sum.splits)
qed

lemma open_stores_choice:
  assumes "open_stores has my getenv m d = (Inr s, d')"
  shows "(s = MemoryStores) = m"
    "s = DatabaseStores mysql redis \<Longrightarrow> has \<and> mc_user mysql \<noteq> [] \<and> mc_database mysql \<noteq> [] \<and>
       (\<exists>e. OperationResult_Ok (fst (EnsureSchema my mysql e)))"
proof -
  have repo: "fst (MySqlPlayerRepository_new my cfg b d) = Inr (r, c) \<Longrightarrow> r = cfg" for cfg b d r c
    by (auto simp: MySqlPlayerRepository_new_def case_prod_unfold Let_def outcome_bind_Inr_iff)
  show "(s = MemoryStores) = m" using assms
    by (auto simp: open_stores_def case_prod_unfold Let_def outcome_bind_Inr_iff split: sum.splits if_splits)
  show "has \<and> mc_user mysql \<noteq> [] \<and> mc_database mysql \<noteq> [] \<and> (\<exists>e. OperationResult_Ok (fst (EnsureSchema my mysql e)))"
    if s: "s = DatabaseStores mysql redis"
  proof (cases "mysql_environment getenv")
    case (Inl e)
    then show ?thesis using assms s by (auto simp: open_stores_def split: if_splits)
  next
    case (Inr cfg)
    with assms s have "has" and "\<exists>d1 d2 c. MySqlPlayerRepository_new my cfg False d = (Inr (mysql, c), d1) \<and>
        OperationResult_Ok (fst (EnsureSchema my mysql d1))"
      by (auto simp: open_stores_def case_prod_unfold Let_def outcome_bind_Inr_iff prod_eq_iff
          split: sum.splits if_splits)
    then show ?thesis using repo mysql_environment_named[OF Inr] by (metis fst_conv)
  qed
qed

lemma GameServer_new_config:
  "GameServer_new so cfg draws clock = Inr g \<Longrightarrow> server_config (transport g) = cfg"
  by (auto simp: GameServer_new_def GameService_new_def outcome_bind_Inr_iff Let_def case_prod_unfold split: if_splits)

lemma start_server_cases:
  assumes "start_server has my getenv so draws clock arguments d = (Inr (s, g), d')"
  obtains m cfg where "parse_server_arguments arguments False default_server_config = Inr (m, cfg)"
    "open_stores has my getenv m d = (Inr s, d')" "GameServer_new so cfg draws clock = Inr g"
  using assms by (auto simp: start_server_def case_prod_unfold Let_def outcome_bind_Inr_iff prod_eq_iff split: sum.splits)

lemma start_server_opens:
  assumes "mysql_handles my opens" "\<And>d. opens (snd (mysql_library_init my d)) = opens d"
  shows "opens (snd (start_server has my getenv so draws clock arguments d)) = opens d"
  using open_stores_opens[OF assms] by (auto simp: start_server_def case_prod_unfold Let_def split: sum.splits)

text \<open>
  C22: When \<open>main\<close> reaches \<open>server.Run()\<close> the server is consistent, with the default configuration in everything but the
  address and the port. The command line is then a sequence of options, and the stores in memory are used exactly when
  \<open>--memory\<close> is one of them; the databases are used only in a build that has them, with a user and a
  database name, and after the schema was created. Whether the start succeeds or not, every MySQL
  connection opened on the way is closed again.
\<close>

theorem main_starts_a_consistent_server:
  assumes "mysql_handles my opens" "\<And>d. opens (snd (mysql_library_init my d)) = opens d"
  shows "opens (snd (start_server has my getenv so draws clock arguments d)) = opens d \<and>
    (\<forall>s g d'. start_server has my getenv so draws clock arguments d = (Inr (s, g), d') \<longrightarrow>
      server_idle g \<and>
      (\<exists>port address. server_config (transport g) = default_server_config\<lparr>sc_port := port, sc_bind_address := address\<rparr>) \<and>
      (\<exists>opts. arguments = concat (map option_words opts) \<and> (s = MemoryStores \<longleftrightarrow> OptMemory \<in> set opts)) \<and>
      (\<forall>mysql redis. s = DatabaseStores mysql redis \<longrightarrow>
         has \<and> mc_user mysql \<noteq> [] \<and> mc_database mysql \<noteq> [] \<and> (\<exists>e. OperationResult_Ok (fst (EnsureSchema my mysql e)))))"
proof (intro conjI allI impI)
  show "opens (snd (start_server has my getenv so draws clock arguments d)) = opens d"
    by (rule start_server_opens[OF assms])
next
  fix s g d' assume "start_server has my getenv so draws clock arguments d = (Inr (s, g), d')"
  then obtain m cfg where p: "parse_server_arguments arguments False default_server_config = Inr (m, cfg)"
    and st: "open_stores has my getenv m d = (Inr s, d')" and g: "GameServer_new so cfg draws clock = Inr g"
    by (rule start_server_cases)
  obtain opts where opts: "arguments = concat (map option_words opts)" "list_all option_valid opts"
    using parse_only_options[OF p] by blast
  then have f: "fold apply_option opts (False, default_server_config) = (m, cfg)" using parse_options p by simp
  from fold_apply_option[OF this] obtain port address
    where m: "m = (OptMemory \<in> set opts)" and cfg: "cfg = default_server_config\<lparr>sc_port := port, sc_bind_address := address\<rparr>"
    by blast
  have "unat (rows (gc_aoi (sc_game cfg))) * unat (columns (gc_aoi (sc_game cfg))) < 2 ^ 63"
    by (simp add: cfg default_server_config_def default_game_config_def default_aoi_config_def)
  then show "server_idle g" by (rule GameServer_new_idle[OF g])
  show "\<exists>port address. server_config (transport g) = default_server_config\<lparr>sc_port := port, sc_bind_address := address\<rparr>"
    using GameServer_new_config[OF g] cfg by blast
  show "\<exists>opts. arguments = concat (map option_words opts) \<and> (s = MemoryStores \<longleftrightarrow> OptMemory \<in> set opts)"
    using opts(1) m open_stores_choice(1)[OF st] by blast
  fix mysql redis assume "s = DatabaseStores mysql redis"
  from open_stores_choice(2)[OF st this] show "has" "mc_user mysql \<noteq> []" "mc_database mysql \<noteq> []"
    "\<exists>e. OperationResult_Ok (fst (EnsureSchema my mysql e))" by blast+
qed

text \<open>A start with the two databases, over the kernel and the MySQL server of the examples.\<close>

definition example_environment :: "string \<Rightarrow> string option" where
  "example_environment = [''MMO_MYSQL_USER'' \<mapsto> ''game'', ''MMO_MYSQL_DATABASE'' \<mapsto> ''mmo'']"

lemma example_ports: "stoul ''3306'' = Inr 3306" "stoi ''6379'' = Inr 6379"
  by (simp_all add: stoul_def stoi_def scan_number_def c_str_def is_space_def is_digit_def digit_value_def)

lemma example_mysql_environment:
  "mysql_environment example_environment =
     Inr (default_mysql_config\<lparr>mc_host := ''127.0.0.1'', mc_port := 3306, mc_user := ''game'', mc_password := [],
       mc_database := ''mmo''\<rparr>)"
  by (simp add: mysql_environment_def Environment_def example_environment_def example_ports)

lemma example_redis_environment:
  "redis_environment example_environment = Inr (default_redis_config\<lparr>rc_host := ''127.0.0.1'', rc_port := 6379\<rparr>)"
  by (simp add: redis_environment_def Environment_def example_environment_def example_ports)

lemma plain_schema: "mc_database cfg \<noteq> [] \<Longrightarrow> EnsureSchema plain_mysql cfg d = (OperationResult_Success, d)"
  by (simp add: EnsureSchema_def MySqlConnect_def plain_mysql_def)

lemma plain_repository: "MySqlPlayerRepository_new plain_mysql cfg False d = (Inr (cfg, True), d)"
  by (simp add: MySqlPlayerRepository_new_def EnsureMySqlLibraryInitialized_def plain_mysql_def)

theorem main_starts_a_consistent_server_witness:
  "\<exists>mysql redis g d. start_server True plain_mysql example_environment example_os (\<lambda>_. 0) (\<lambda>_. 0) [] example_mysql =
       (Inr (DatabaseStores mysql redis, g), d) \<and>
     server_idle g \<and> mc_user mysql = ''game'' \<and> mc_port mysql = 3306 \<and> rc_port redis = 6379 \<and> mw_open d = mw_open example_mysql"
proof -
  obtain g where g: "GameServer_new example_os default_server_config (\<lambda>_. 0) (\<lambda>_. 0) = Inr g" by (rule example_server)
  let ?run = "start_server True plain_mysql example_environment example_os (\<lambda>_. 0) (\<lambda>_. 0) [] example_mysql"
  obtain mysql redis d where run: "?run = (Inr (DatabaseStores mysql redis, g), d)"
    and vals: "mc_user mysql = ''game''" "mc_port mysql = 3306" "rc_port redis = 6379"
    by (simp add: start_server_def open_stores_def example_mysql_environment example_redis_environment plain_schema
        plain_repository g OperationResult_Success_def OperationResult_Ok_def)
  have init: "\<And>d. mw_open (snd (mysql_library_init plain_mysql d)) = mw_open d" by (simp add: plain_mysql_def)
  note * = main_starts_a_consistent_server[OF plain_handles init, of True example_environment example_os "\<lambda>_. 0" "\<lambda>_. 0" "[]"
      example_mysql]
  from conjunct1[OF *] have "mw_open d = mw_open example_mysql" unfolding run by simp
  moreover from conjunct2[OF *] run have "server_idle g" by blast
  ultimately show ?thesis using run vals by blast
qed

text \<open>
  After an exception from \<open>Run\<close> the pointer still refers to the destroyed server: a signal that arrives then reads freed memory.
  Before \<open>Run\<close> returns, and after it has returned normally, the handler is safe.
\<close>

lemma signal_after_exception_is_undefined:
  assumes "start_server has my getenv so draws clock arguments d = (Inr (s, g), d')"
    and "um_find (callbacks (event_loop (transport g))) fd = Some AcceptCallback"
  shows "server_main has my getenv so draws clock pb [Ready [(fd, EPOLLIN)]] [AcceptFailed] snd_answers rcv_answers ok arguments d =
      (Some (1, DeadServer), d')"
    "HandleSignal DeadServer t = Inl UndefinedBehaviour"
  using assms by (simp_all add: server_main_def server_Run_def EventLoop_Run_def PollOnce_def max_events_def AcceptReady_def
      finish_main_def HandleSignal_def)

end
