(* ===== verification/Client_Main.thy ===== *)
theory Client_Main
  imports Blocking_Client
begin

text \<open>
  \<open>apps/mmo_client_main.cpp\<close>: the console client. Its main thread turns input lines into requests while a second
  thread receives frames and prints them. What is inserted into \<open>std::cout\<close> is kept as the sequence of inserted
  values, so that no assumption about the formatting of numbers is needed.
\<close>

section \<open>Printing frames\<close>

datatype console_item = CText string | CNumber u64 | CDouble dbl

definition newline :: string where
  "newline = [CHR 0x0A]"

text \<open>Reading a message field that is not set gives the default message.\<close>

definition view_or_default :: "PlayerView option \<Rightarrow> PlayerView" where
  "view_or_default v = (case v of Some view \<Rightarrow> view | None \<Rightarrow> \<lparr>view_player_id = 0, view_nickname = [], view_position = None\<rparr>)"

definition position_or_default :: "PositionMsg option \<Rightarrow> PositionMsg" where
  "position_or_default p = (case p of Some pos \<Rightarrow> pos | None \<Rightarrow> \<lparr>msg_x = DFin 0, msg_y = DFin 0\<rparr>)"

definition PrintFrame :: "protobuf \<Rightarrow> Frame \<Rightarrow> console_item list" where
  "PrintFrame pb frame =
     (let type = message_id frame in
      if type = kLoginResponse then
        (case ParseProtobufPayload pb frame type kLoginResponse of
           Some (LoginResponse message) \<Rightarrow>
             if lr_success message
             then [CText ''login ok: id='', CNumber (view_player_id (view_or_default (lr_self message))),
                   CText '' nickname='', CText (view_nickname (view_or_default (lr_self message))),
                   CText '' token='', CText (lr_session_token message), CText newline]
             else [CText ''login failed: '', CText (lr_error message), CText newline]
         | _ \<Rightarrow> [])
      else if type = kChatBroadcast then
        (case ParseProtobufPayload pb frame type kChatBroadcast of
           Some (ChatBroadcast _ nickname text) \<Rightarrow> [CText nickname, CText '': '', CText text, CText newline]
         | _ \<Rightarrow> [])
      else if type = kPlayerEnter then
        (case ParseProtobufPayload pb frame type kPlayerEnter of
           Some (PlayerEnter player) \<Rightarrow>
             [CText ''player entered: '', CText (view_nickname (view_or_default player)), CText newline]
         | _ \<Rightarrow> [])
      else if type = kPlayerLeave then
        (case ParseProtobufPayload pb frame type kPlayerLeave of
           Some (PlayerLeave player_id) \<Rightarrow> [CText ''player left: '', CNumber player_id, CText newline]
         | _ \<Rightarrow> [])
      else if type = kPlayerMove then
        (case ParseProtobufPayload pb frame type kPlayerMove of
           Some (PlayerMove player_id pos) \<Rightarrow>
             [CText ''player moved: '', CNumber player_id, CText '' -> ('', CDouble (msg_x (position_or_default pos)),
              CText '', '', CDouble (msg_y (position_or_default pos)), CText ('')'' @ newline)]
         | _ \<Rightarrow> [])
      else [])"

section \<open>Commands\<close>

text \<open>\<open>input >> command\<close> and \<open>std::getline(input >> std::ws, text)\<close> on the rest of a line.\<close>

definition read_word :: "string \<Rightarrow> string \<times> string" where
  "read_word s = (let s = dropWhile is_space s in (takeWhile (Not \<circ> is_space) s, dropWhile (Not \<circ> is_space) s))"

definition read_rest :: "string \<Rightarrow> string" where
  "read_rest s = dropWhile is_space s"

text \<open>
  \<open>input >> x\<close> for a \<open>double\<close>: after white space a sign, digits with at most one point, and an exponent are taken from the
  stream; what was taken must be a number, and one that overflows sets the stream's failure state too.
\<close>

definition read_sign :: "string \<Rightarrow> bool \<times> string" where
  "read_sign s = (s \<noteq> [] \<and> hd s = CHR ''-'', if s \<noteq> [] \<and> (hd s = CHR ''-'' \<or> hd s = CHR ''+'') then tl s else s)"

definition digits_value :: "string \<Rightarrow> nat" where
  "digits_value ds = fold (\<lambda>c n. 10 * n + digit_value c) ds 0"

definition read_double :: "string \<Rightarrow> (dbl \<times> string) option" where
  "read_double s =
     (let (negative, s) = read_sign (dropWhile is_space s);
          whole = takeWhile is_digit s; s = dropWhile is_digit s;
          point = (s \<noteq> [] \<and> hd s = CHR ''.'');
          fraction = (if point then takeWhile is_digit (tl s) else []);
          s = (if point then dropWhile is_digit (tl s) else s)
      in if whole @ fraction = [] then None
         else
           let scientific = (s \<noteq> [] \<and> (hd s = CHR ''e'' \<or> hd s = CHR ''E''));
               (down, t) = (if scientific then read_sign (tl s) else (False, s));
               power = (if scientific then takeWhile is_digit t else []);
               t = (if scientific then dropWhile is_digit t else t)
           in if scientific \<and> power = [] then None
              else
                let e = (if down then - int (digits_value power) else int (digits_value power));
                    q = of_nat (digits_value (whole @ fraction)) * 10 powi (e - int (length fraction))
                in case fl (if negative then - q else q) of
                     DFin v \<Rightarrow> Some (DFin v, t)
                   | _ \<Rightarrow> None)"

datatype client_command = CmdQuit | CmdSend MessageType Message | CmdNone

definition parse_command :: "string \<Rightarrow> client_command" where
  "parse_command line =
     (let (command, rest) = read_word line in
      if command = ''quit'' then CmdQuit
      else if command = ''chat'' then CmdSend kChatRequest (ChatRequest (read_rest rest))
      else if command = ''move'' then
        (case read_double rest of
           None \<Rightarrow> CmdNone
         | Some (x, rest) \<Rightarrow>
             (case read_double rest of
                None \<Rightarrow> CmdNone
              | Some (y, _) \<Rightarrow> CmdSend kMoveRequest (MoveRequest (Some \<lparr>msg_x = x, msg_y = y\<rparr>))))
      else if command = ''heartbeat'' then CmdSend kHeartbeat Heartbeat
      else CmdNone)"

section \<open>The program\<close>

text \<open>
  The variables that the two threads share, and what has happened: what each thread has inserted into the console, the bytes
  received and sent, and whether the main loop has been left and the receiver has returned.
\<close>

record client_state =
  cs_client :: BlockingClient
  cs_os :: client_os
  cs_running :: bool
  cs_greeting :: "console_item list"
  cs_console :: "console_item list"
  cs_received :: "byte list"
  cs_sent :: "byte list"
  cs_main_left :: bool
  cs_receiver_done :: bool

datatype start_result = Exit int client_os | Started client_state

text \<open>
  \<open>main\<close> up to the start of the receiver. The fault is that of \<open>std::stoul\<close>: nothing catches the exception. \<open>arguments\<close> are
  \<open>argv[1..]\<close>.
\<close>

definition start_client ::
  "protobuf \<Rightarrow> connect_answers \<Rightarrow> send_result list \<Rightarrow> string list \<Rightarrow> client_os \<Rightarrow> start_result outcome" where
  "start_client pb ca rs arguments os =
     (if length arguments < 3 \<or> length arguments > 4 then Inr (Exit 1 os)
      else
        outcome_bind BlockingClient_new (\<lambda>client.
        outcome_bind (stoul (arguments ! 1)) (\<lambda>port.
          let (connected, client, os) = client_Connect ca (arguments ! 0) (ucast port) client os in
          if \<not> connected then Inr (Exit 1 (BlockingClient_destroy client os))
          else
            let login = LoginRequest (arguments ! 2) (if length arguments = 4 then arguments ! 3 else [])
            in outcome_bind (client_Send pb rs kLoginRequest login client) (\<lambda>(result, taken).
                 Inr (if result = Some True
                      then Started \<lparr>cs_client = client, cs_os = os, cs_running = True, cs_greeting = [],
                             cs_console = [], cs_received = [], cs_sent = taken, cs_main_left = False, cs_receiver_done = False\<rparr>
                      else Exit 1 (BlockingClient_destroy client os))))))"

text \<open>One pass of the receiver's loop, with the result of its \<open>Receive\<close>.\<close>

definition receiver_pass :: "protobuf \<Rightarrow> ReceiveStatus \<Rightarrow> Frame \<Rightarrow> FrameDecoder \<Rightarrow> byte list \<Rightarrow> client_state \<Rightarrow> client_state" where
  "receiver_pass pb status frame d got s =
     (let s = s\<lparr>cs_client := (cs_client s)\<lparr>bc_decoder := d\<rparr>, cs_received := cs_received s @ got\<rparr> in
      if status = RFrameReady then s\<lparr>cs_console := cs_console s @ PrintFrame pb frame\<rparr>
      else if status \<noteq> RTimeout then s\<lparr>cs_running := False\<rparr>
      else s)"

text \<open>What follows the loop of the main thread, up to the \<open>join\<close>.\<close>

definition leave_main :: "client_state \<Rightarrow> client_state" where
  "leave_main s =
     (let s = s\<lparr>cs_running := False\<rparr>; (client, os) = client_Shutdown (cs_client s) (cs_os s)
      in s\<lparr>cs_client := client, cs_os := os, cs_main_left := True\<rparr>)"

definition banner :: "console_item list" where
  "banner = [CText (''commands: chat TEXT | move X Y | heartbeat | quit'' @ newline)]"

text \<open>
  The steps of the two threads. The main thread first prints the commands. The receiver tests \<open>running\<close> before each pass; the main
  thread does before it waits for a line, and leaves its loop at the end of the input too.
\<close>

inductive client_program :: "protobuf \<Rightarrow> client_state \<Rightarrow> client_state \<Rightarrow> bool" for pb where
  receive: "\<not> cs_receiver_done s \<Longrightarrow> cs_running s \<Longrightarrow>
    client_Receive now steps 250 empty_frame (cs_client s) = Inr (Some status, frame, c, got) \<Longrightarrow>
    client_program pb s (receiver_pass pb status frame (bc_decoder c) got s)"
| receiver_returns: "\<not> cs_receiver_done s \<Longrightarrow> \<not> cs_running s \<Longrightarrow> client_program pb s (s\<lparr>cs_receiver_done := True\<rparr>)"
| greet: "cs_greeting s = [] \<Longrightarrow> client_program pb s (s\<lparr>cs_greeting := banner\<rparr>)"
| request: "\<not> cs_main_left s \<Longrightarrow> cs_greeting s \<noteq> [] \<Longrightarrow> parse_command line = CmdSend type message \<Longrightarrow>
    client_Send pb rs type message (cs_client s) = Inr (Some result, taken) \<Longrightarrow>
    client_program pb s (s\<lparr>cs_sent := cs_sent s @ taken\<rparr>)"
| quit: "\<not> cs_main_left s \<Longrightarrow> cs_greeting s \<noteq> [] \<Longrightarrow> parse_command line = CmdQuit \<Longrightarrow> client_program pb s (leave_main s)"
| input_ends: "\<not> cs_main_left s \<Longrightarrow> cs_greeting s \<noteq> [] \<Longrightarrow> client_program pb s (leave_main s)"

text \<open>After the \<open>join\<close>: \<open>main\<close> returns 0 and destroys the client.\<close>

definition finish_client :: "client_state \<Rightarrow> (int \<times> client_os) option" where
  "finish_client s =
     (if cs_main_left s \<and> cs_receiver_done s then Some (0, BlockingClient_destroy (cs_client s) (cs_os s)) else None)"

section \<open>The invariant of a session\<close>

text \<open>
  The receiver has printed the frames that were taken off the received bytes; the rest of these bytes waits in the decoder. Once the main
  thread has left its loop or the receiver has returned, \<open>running\<close> is false.
\<close>

definition session_inv :: "protobuf \<Rightarrow> client_state \<Rightarrow> bool" where
  "session_inv pb s \<longleftrightarrow>
     decoder_wf (bc_decoder (cs_client s)) \<and> dec_max_payload_size (bc_decoder (cs_client s)) = kDefaultMaxPayloadSize \<and>
     (\<exists>frames. list_all (valid_frame kDefaultMaxPayloadSize) frames \<and>
        cs_received s = concat (map encode_bytes frames) @ pending (bc_decoder (cs_client s)) \<and>
        cs_console s = concat (map (PrintFrame pb) frames)) \<and> cs_greeting s \<in> {[], banner} \<and>
     (cs_main_left s \<longrightarrow> cs_greeting s \<noteq> []) \<and>
     (cs_main_left s \<or> cs_receiver_done s \<longrightarrow> \<not> cs_running s) \<and> client_owns (cs_client s, cs_os s)"

lemma start_client_inv:
  assumes "start_client pb ca rs arguments os = Inr (Started s)" "open_fds (co_table os) = {}"
  shows "session_inv pb s"
proof -
  obtain c0 port c os' taken where c0: "BlockingClient_new = Inr c0"
    and c: "client_Connect ca (arguments ! 0) (ucast (port :: u64)) c0 os = (True, c, os')"
    and s: "s = \<lparr>cs_client = c, cs_os = os', cs_running = True, cs_greeting = [], cs_console = [], cs_received = [], cs_sent = taken,
      cs_main_left = False, cs_receiver_done = False\<rparr>"
    using assms(1) by (auto simp: start_client_def outcome_bind_Inr_iff Let_def banner_def case_prod_unfold prod_eq_iff split: if_splits)
  have d0: "decoder_wf (bc_decoder c0)" "dec_max_payload_size (bc_decoder c0) = kDefaultMaxPayloadSize" "client_owns (c0, os)"
    using c0 assms(2) by (auto simp: BlockingClient_new_def outcome_bind_Inr_iff client_owns_def unique_fd_defs dest: decoder_wf_new)
  have "bc_decoder c = FrameDecoder_Reset (bc_decoder c0)" "client_owns (c, os')"
    using client_Connect_result[OF c] d0(3) by simp_all
  then show ?thesis
    using d0(1,2) by (auto simp: session_inv_def s FrameDecoder_Reset_def decoder_wf_def pending_def intro: exI[of _ "[]"])
qed

lemma client_owns_decoder [simp]: "client_owns (c\<lparr>bc_decoder := d\<rparr>, os) = client_owns (c, os)"
  by (simp add: client_owns_def)

lemma receiver_pass_inv:
  assumes inv: "session_inv pb s" and run: "cs_running s"
    and rec: "client_Receive now steps 250 empty_frame (cs_client s) = Inr (Some status, frame, c, got)"
  shows "session_inv pb (receiver_pass pb status frame (bc_decoder c) got s)"
proof -
  let ?d = "bc_decoder (cs_client s)" and ?r = "receiver_pass pb status frame (bc_decoder c) got s"
  obtain frames where wf: "decoder_wf ?d" "dec_max_payload_size ?d = kDefaultMaxPayloadSize"
    and fr: "list_all (valid_frame kDefaultMaxPayloadSize) frames" "cs_received s = concat (map encode_bytes frames) @ pending ?d"
      "cs_console s = concat (map (PrintFrame pb) frames)"
    using inv by (auto simp: session_inv_def)
  note step = client_Receive_step[OF wf(1) rec]
  let ?fs = "if status = RFrameReady then frames @ [frame] else frames"
  have "bc_decoder (cs_client ?r) = bc_decoder c" "cs_received ?r = cs_received s @ got"
    "cs_console ?r = concat (map (PrintFrame pb) ?fs)" "client_owns (cs_client ?r, cs_os ?r)"
    "cs_main_left ?r \<or> cs_receiver_done ?r \<longrightarrow> \<not> cs_running ?r" "cs_greeting ?r \<in> {[], banner}" "cs_main_left ?r \<longrightarrow> cs_greeting ?r \<noteq> []"
    using fr(3) inv run by (auto simp: receiver_pass_def Let_def session_inv_def)
  moreover have "list_all (valid_frame kDefaultMaxPayloadSize) ?fs" using fr(1) step wf(2) by auto
  moreover have "cs_received s @ got = concat (map encode_bytes ?fs) @ pending (bc_decoder c)"
    using fr(2) step by (auto split: if_splits)
  ultimately show ?thesis using step wf(2) unfolding session_inv_def by auto
qed

lemma leave_main_fields:
  "cs_running (leave_main s) = False" "cs_main_left (leave_main s)" "cs_console (leave_main s) = cs_console s" "cs_greeting (leave_main s) = cs_greeting s"
  "cs_received (leave_main s) = cs_received s" "cs_receiver_done (leave_main s) = cs_receiver_done s"
  "bc_decoder (cs_client (leave_main s)) = bc_decoder (cs_client s)"
  "client_owns (cs_client s, cs_os s) \<Longrightarrow> client_owns (cs_client (leave_main s), cs_os (leave_main s))"
  by (auto simp: leave_main_def Let_def client_Shutdown_def os_shutdown_def client_owns_def)

lemma session_step:
  assumes "client_program pb s t" "session_inv pb s"
  shows "session_inv pb t"
  using assms
proof (induction rule: client_program.induct)
  case (receive s now steps status frame c got)
  then show ?case by (intro receiver_pass_inv)
qed (auto simp: session_inv_def leave_main_fields)

interpretation client_sys: step_invariant
  "\<lambda>s. \<exists>ca rs arguments os. open_fds (co_table os) = {} \<and> start_client pb ca rs arguments os = Inr (Started s)"
  "client_program pb" "session_inv pb" for pb
  by unfold_locales (auto intro: start_client_inv session_step)

section \<open>Commands as they are typed\<close>

lemma takeWhile_digits:
  "t = [] \<or> \<not> is_digit (hd t) \<Longrightarrow> takeWhile is_digit (to_string n @ t) = to_string n \<and> dropWhile is_digit (to_string n @ t) = t"
proof -
  assume t: "t = [] \<or> \<not> is_digit (hd t)"
  have "\<And>c. c \<in> set (to_string n) \<Longrightarrow> is_digit c" using digits_number_string by (auto simp: to_string_def)
  moreover have "takeWhile is_digit t = []" "dropWhile is_digit t = t" using t by (cases t; auto)+
  ultimately show ?thesis by (simp add: takeWhile_append2 dropWhile_append2)
qed

lemma to_string_head: "to_string n \<noteq> []" "is_digit (hd (to_string n))" "\<not> is_space (hd (to_string n))"
  "hd (to_string n) \<noteq> CHR ''-''" "hd (to_string n) \<noteq> CHR ''+''"
proof -
  show ne: "to_string n \<noteq> []" by (simp add: to_string_def number_string_nonempty)
  then show d: "is_digit (hd (to_string n))" using digits_number_string[of n] hd_in_set[OF ne] unfolding to_string_def by blast
  then show "\<not> is_space (hd (to_string n))" "hd (to_string n) \<noteq> CHR ''-''" "hd (to_string n) \<noteq> CHR ''+''"
    by (auto simp: is_digit_def is_space_def)
qed

lemma read_double_number:
  assumes "n < 2 ^ 53" "t = [] \<or> is_space (hd t)"
  shows "read_double (CHR '' '' # to_string n @ t) = Some (DFin (of_nat n), t)"
proof -
  have t: "t = [] \<or> \<not> is_digit (hd t)" "t = [] \<or> (hd t \<noteq> CHR ''.'' \<and> hd t \<noteq> CHR ''e'' \<and> hd t \<noteq> CHR ''E'')"
    using assms(2) by (auto simp: is_space_def is_digit_def)
  obtain c cs where c: "to_string n = c # cs" "\<not> is_space c" "c \<noteq> CHR ''-''" "c \<noteq> CHR ''+''"
    using to_string_head[of n] by (cases "to_string n") auto
  have drop: "dropWhile is_space (CHR '' '' # to_string n @ t) = to_string n @ t"
    using c by (simp add: is_space_def)
  have sign: "read_sign (to_string n @ t) = (False, to_string n @ t)" using c by (simp add: read_sign_def)
  have val: "digits_value (to_string n) = n" using fold_number_string by (simp add: digits_value_def to_string_def)
  have "fl (of_nat n) = DFin (of_nat n)" using fl_exact[OF representable_int[of "int n"]] assms(1) by simp
  moreover have span: "takeWhile is_digit (to_string n @ t) = to_string n" "dropWhile is_digit (to_string n @ t) = t"
    using takeWhile_digits[OF t(1), of n] by simp_all
  moreover have "digits_value [] = 0" by (simp add: digits_value_def)
  ultimately show ?thesis
    unfolding read_double_def drop Let_def sign prod.case span using t(2) to_string_head(1)[of n] val by auto
qed

text \<open>The requests as a user types them; a text does not start with white space.\<close>

lemma chat_command:
  assumes "t = [] \<or> \<not> is_space (hd t)"
  shows "parse_command (''chat '' @ t) = CmdSend kChatRequest (ChatRequest t)"
proof -
  have "dropWhile is_space t = t" using assms by (cases t) auto
  then show ?thesis by (simp add: parse_command_def read_word_def read_rest_def is_space_def)
qed

lemma move_command:
  assumes "m < 2 ^ 53" "n < 2 ^ 53"
  shows "parse_command (''move '' @ to_string m @ '' '' @ to_string n) =
    CmdSend kMoveRequest (MoveRequest (Some \<lparr>msg_x = DFin (of_nat m), msg_y = DFin (of_nat n)\<rparr>))"
proof -
  have "read_double (CHR '' '' # to_string m @ CHR '' '' # to_string n) = Some (DFin (of_nat m), CHR '' '' # to_string n)"
    "read_double (CHR '' '' # to_string n) = Some (DFin (of_nat n), [])"
    using read_double_number[OF assms(1), of "CHR '' '' # to_string n"] read_double_number[OF assms(2), of "[]"]
    by (simp_all add: is_space_def)
  then show ?thesis by (simp add: parse_command_def read_word_def is_space_def)
qed

lemma bad_port_is_not_caught:
  assumes "length arguments \<in> {3, 4}" "stoul (arguments ! 1) = Inl e"
  shows "start_client pb ca rs arguments os = Inl e"
  using assms by (auto simp: start_client_def BlockingClient_new_def FrameDecoder_new_def kDefaultMaxPayloadSize_def)

section \<open>Property of the program\<close>

lemma client_stops:
  assumes "session_inv pb s" "cs_main_left s" "client_program pb s t"
  shows "finish_client t \<noteq> None"
  using assms(3,1,2)
proof (cases rule: client_program.cases)
  case (receive now steps status frame c got)
  then show ?thesis using assms(1,2) by (simp add: session_inv_def)
next
  case greet
  then show ?thesis using assms(1,2) by (simp add: session_inv_def)
qed (simp_all add: finish_client_def assms(2))

lemma client_can_stop:
  assumes "session_inv pb s" "cs_main_left s" "\<not> cs_receiver_done s"
  shows "\<exists>t. client_program pb s t"
  using client_program.receiver_returns[of s pb] assms by (auto simp: session_inv_def)


text \<open>A session: a frame arrives, the user quits, the receiver returns.\<close>

definition leave_codec :: protobuf where
  "leave_codec = \<lparr>ByteSizeLong = (\<lambda>_. 0), SerializeToArray = (\<lambda>_ _. Some []),
     ParseFromArray = (\<lambda>kind bytes. if kind = kPlayerLeave then Some (PlayerLeave 8) else None)\<rparr>"

definition example_session :: client_state where
  "example_session = \<lparr>cs_client = \<lparr>bc_descriptor = 3, bc_decoder = \<lparr>dec_max_payload_size = kDefaultMaxPayloadSize, dec_buffer = [],
       dec_read_offset = 0, dec_failure_status = kNeedMoreData, dec_failed = False\<rparr>, bc_shutdown = False\<rparr>,
     cs_os = \<lparr>co_table = \<lparr>open_fds = {3}, close_calls = []\<rparr>, co_shutdowns = []\<rparr>, cs_running = True, cs_greeting = [], cs_console = [],
     cs_received = [], cs_sent = [0, 0, 0, 0, 0, 0, 0, 1], cs_main_left = False, cs_receiver_done = False\<rparr>"

lemma localhost_address: "inet_pton ''127.0.0.1'' = Some [127, 0, 0, 1]"
  by code_simp

lemma example_port: "stoul ''9000'' = Inr 9000"
  by (simp add: stoul_def scan_number_def c_str_def is_space_def is_digit_def digit_value_def)

lemma example_start:
  "start_client leave_codec \<lparr>ca_socket = 3, ca_connect = \<lambda>_ _. True\<rparr> [Sent 100] [''127.0.0.1'', ''9000'', ''ada'']
     \<lparr>co_table = \<lparr>open_fds = {}, close_calls = []\<rparr>, co_shutdowns = []\<rparr> = Inr (Started example_session)"
  by (simp add: start_client_def BlockingClient_new_def FrameDecoder_new_def client_defs localhost_address example_port
      client_Send_def Connected_def leave_codec_def EncodeProtobufFrame_def EncodeFrame_def IsKnownMessageId_def message_ids
      AppendNetworkUint32_def UINT32_MAX_def INT_MAX_def kDefaultMaxPayloadSize_def example_session_def
      FrameDecoder_Reset_def Let_def)

lemma example_receive:
  "client_Receive 0 [(0, \<lambda>_. PollReady (Received [0, 0, 0, 0, 0, 0, 0, 103]))] 250 empty_frame (cs_client example_session) =
     Inr (Some RFrameReady, \<lparr>message_id = kPlayerLeave, payload = []\<rparr>, (cs_client example_session)\<lparr>bc_decoder :=
       \<lparr>dec_max_payload_size = kDefaultMaxPayloadSize, dec_buffer = [], dec_read_offset = 0,
       dec_failure_status = kNeedMoreData, dec_failed = False\<rparr>\<rparr>, [0, 0, 0, 0, 0, 0, 0, 103])"
  by (simp add: client_eval example_session_def kDefaultMaxPayloadSize_def)


end
