(* ===== verification/Delivery.thy ===== *)
theory Delivery
  imports Server_Properties Blocking_Client
begin

text \<open>
  The way of a message through all layers: from a client's \<open>Send\<close> through the server's connection, frame decoder and
  game service into the output of every addressed connection, and on to the frames that the receiving clients'
  \<open>Receive\<close> returns. The output of a connection is what the kernel has taken from it together with what still
  waits in its buffer.
\<close>

section \<open>The output of a connection\<close>

definition connection_stream :: "server_transport \<Rightarrow> ConnectionId \<Rightarrow> byte list" where
  "connection_stream t c = os_taken t c @
     (case um_find (connection_descriptors t) c of
        None \<Rightarrow> []
      | Some d \<Rightarrow> (case um_find (clients t) d of None \<Rightarrow> [] | Some cl \<Rightarrow> unsent (client_connection cl)))"

lemma connection_stream_open:
  "um_find (connection_descriptors t) c = Some d \<Longrightarrow> um_find (clients t) d = Some cl \<Longrightarrow>
     connection_stream t c = os_taken t c @ unsent (client_connection cl)"
  by (simp add: connection_stream_def)

lemma connection_stream_cong:
  assumes "os_taken u c = os_taken t c" "um_find (connection_descriptors u) c = um_find (connection_descriptors t) c"
    and "\<And>d. um_find (connection_descriptors t) c = Some d \<Longrightarrow> um_find (clients u) d = um_find (clients t) d"
  shows "connection_stream u c = connection_stream t c"
  using assms by (cases "um_find (connection_descriptors t) c") (simp_all add: connection_stream_def)

text \<open>Whole frames have been added to the output of every connection that is in use afterwards; no connection is new.\<close>

definition extends :: "server_transport \<Rightarrow> server_transport \<Rightarrow> bool" where
  "extends t u \<longleftrightarrow> (\<forall>c. server_IsConnected u c \<longrightarrow> server_IsConnected t c \<and>
     (\<exists>fs. list_all (valid_frame kDefaultMaxPayloadSize) fs \<and>
        connection_stream u c = connection_stream t c @ concat (map encode_bytes fs)))"

lemma extends_refl: "extends t t"
  by (auto simp: extends_def intro: exI[of _ "[]"])

lemma extends_trans:
  assumes "extends t u" "extends u v"
  shows "extends t v"
  unfolding extends_def
proof (intro allI impI)
  fix c assume "server_IsConnected v c"
  then obtain fs where v: "server_IsConnected u c" "list_all (valid_frame kDefaultMaxPayloadSize) fs"
    "connection_stream v c = connection_stream u c @ concat (map encode_bytes fs)" using assms(2) by (auto simp: extends_def)
  then obtain gs where "server_IsConnected t c" "list_all (valid_frame kDefaultMaxPayloadSize) gs"
    "connection_stream u c = connection_stream t c @ concat (map encode_bytes gs)" using assms(1) by (auto simp: extends_def)
  with v show "server_IsConnected t c \<and> (\<exists>fs. list_all (valid_frame kDefaultMaxPayloadSize) fs \<and>
      connection_stream v c = connection_stream t c @ concat (map encode_bytes fs))"
    by (intro conjI exI[of _ "gs @ fs"]) simp_all
qed

text \<open>Nothing was written: only marks have been added, or fields that are not about output have changed.\<close>

lemma extends_same:
  assumes "connection_descriptors u = connection_descriptors t" "marked_for_close t \<subseteq> marked_for_close u"
    and "\<And>c. connection_stream u c = connection_stream t c"
  shows "extends t u"
  using assms by (auto simp: extends_def server_IsConnected_def intro: exI[of _ "[]"])

lemma connection_stream_mark [simp]: "connection_stream (mark_for_close c t) = connection_stream t"
  by (auto simp: connection_stream_def fun_eq_iff mark_for_close_def split: option.splits)

lemma UpdateInterest_output [simp]:
  "os_taken (UpdateInterest cl t) = os_taken t" "marked_for_close t \<subseteq> marked_for_close (UpdateInterest cl t)"
  "connection_stream (UpdateInterest cl t) = connection_stream t"
  by (auto simp: UpdateInterest_def Let_def mark_for_close_def connection_stream_def fun_eq_iff
      split: prod.splits option.splits)

lemma EncodeProtobufFrame_valid:
  assumes "EncodeProtobufFrame pb ty m limit = Inr bytes"
  obtains f where "valid_frame limit f" "bytes = encode_bytes f" "message_id f = ty"
proof -
  obtain p where "EncodeFrame ty p limit = Inr bytes"
    using assms by (auto simp: EncodeProtobufFrame_def Let_def split: if_splits option.splits)
  then show ?thesis using that[of "\<lparr>message_id = ty, payload = p\<rparr>"] by (simp add: EncodeFrame_eq_Inr_iff)
qed

section \<open>Sending\<close>

lemma flush_client_stream:
  assumes "um_find (connection_descriptors t) c = Some d" "client_id cl = c" "output_ok (client_connection cl)"
    and "\<And>c'. um_find (connection_descriptors t) c' = Some d \<Longrightarrow> c' = c" "um_find (clients t) d = Some cl"
    and "flush_client d cl t = (status, cl2, t2)"
  shows "connection_stream t2 c' = connection_stream t c'"
proof -
  obtain st bytes conn rest where fl: "Flush (os_send t d) (client_connection cl) = (st, bytes, conn, rest)"
    by (metis prod_cases4)
  let ?cl = "cl\<lparr>client_connection := conn\<rparr>"
  have u: "unsent (client_connection cl) = bytes @ unsent conn" using Flush_spec[OF assms(3) fl] by simp
  have t2: "os_taken t2 = (os_taken t)(c := os_taken t c @ bytes)" "connection_descriptors t2 = connection_descriptors t"
      "um_find (clients t2) = (um_find (clients t))(d \<mapsto> ?cl)"
    using assms(2,6) fl by (auto simp: flush_client_def put_client_def Let_def)
  show ?thesis
  proof (cases "c' = c")
    case True
    have "um_find (clients t2) d = Some ?cl" by (simp add: t2(3))
    then show ?thesis
      using True u assms(1) connection_stream_open[OF assms(1,5)] connection_stream_open[of t2 c d ?cl] t2 by simp
  next
    case False
    then have "um_find (connection_descriptors t) c' \<noteq> Some d" using assms(4) by blast
    then show ?thesis using False by (intro connection_stream_cong) (auto simp: t2)
  qed
qed

lemma put_client_stream:
  assumes "um_find (connection_descriptors t) c = Some d"
    and "\<And>c'. um_find (connection_descriptors t) c' = Some d \<Longrightarrow> c' = c"
  shows "connection_stream (put_client d cl conn t) c' =
    (if c' = c then os_taken t c @ unsent conn else connection_stream t c')"
proof (cases "c' = c")
  case True
  then show ?thesis using assms(1) by (simp add: connection_stream_def put_client_def)
next
  case False
  then have "um_find (connection_descriptors t) c' \<noteq> Some d" using assms(2) by blast
  then have "connection_stream (put_client d cl conn t) c' = connection_stream t c'"
    by (intro connection_stream_cong) (auto simp: put_client_def)
  then show ?thesis using False by simp
qed

text \<open>The output of a connection after the bytes of a frame have been queued and what the kernel takes has been flushed.\<close>

lemma queued_stream:
  assumes inv: "transport_inv X t" and d: "um_find (connection_descriptors t) c = Some d"
    and cl: "um_find (clients t) d = Some cl" "client_id cl = c" "client_ok t d cl"
    and q: "QueueBytes bytes (client_connection cl) = (queued, conn)"
    and fl: "flush_client d (cl\<lparr>client_connection := conn\<rparr>) (put_client d cl conn t) = (status, cl2, t2)"
  shows "connection_stream (put_client d cl conn t) c' = (if c' = c \<and> queued then connection_stream t c @ bytes else connection_stream t c')"
    "connection_stream t2 c' = connection_stream (put_client d cl conn t) c'"
proof -
  let ?t1 = "put_client d cl conn t" and ?cl1 = "cl\<lparr>client_connection := conn\<rparr>"
  have inj: "um_find (connection_descriptors t) c' = Some d \<Longrightarrow> c' = c" for c'
    using inv d tables_linked_inj by (metis transport_inv_def)
  have conn: "output_ok conn" "unsent conn = (if queued then unsent (client_connection cl) @ bytes else unsent (client_connection cl))"
    using QueueBytes_spec[of "client_connection cl" bytes] q cl(3) by (auto simp: client_ok_def)
  show "connection_stream ?t1 c' = (if c' = c \<and> queued then connection_stream t c @ bytes else connection_stream t c')"
    using put_client_stream[OF d inj, of cl conn c'] conn(2) connection_stream_open[OF d cl(1)] by simp
  show "connection_stream t2 c' = connection_stream ?t1 c'"
  proof (rule flush_client_stream[OF _ _ _ _ _ fl])
    show "um_find (connection_descriptors ?t1) c = Some d" "client_id ?cl1 = c" "output_ok (client_connection ?cl1)"
      "um_find (clients ?t1) d = Some ?cl1" using d cl(2) conn(1) by simp_all
    show "um_find (connection_descriptors ?t1) c2 = Some d \<Longrightarrow> c2 = c" for c2 using inj[of c2] by simp
  qed
qed

text \<open>
  One \<open>Send\<close>: unless the connection is marked for closing, its output has grown by the one frame that encodes
  the message; the output of the others is unchanged.
\<close>

lemma server_Send_stream:
  assumes inv: "transport_inv X t"
    and u_def: "u = snd (server_Send pb c ty m t)"
  shows "marked_for_close t \<subseteq> marked_for_close u" "c' \<noteq> c \<Longrightarrow> connection_stream u c' = connection_stream t c'"
    "server_IsConnected u c \<Longrightarrow> \<exists>f. EncodeProtobufFrame pb ty m kDefaultMaxPayloadSize = Inr (encode_bytes f) \<and>
       valid_frame kDefaultMaxPayloadSize f \<and> message_id f = ty \<and> connection_stream u c = connection_stream t c @ encode_bytes f"
proof -
  have "marked_for_close t \<subseteq> marked_for_close u \<and> (c' \<noteq> c \<longrightarrow> connection_stream u c' = connection_stream t c') \<and>
    (server_IsConnected u c \<longrightarrow> (\<exists>f. EncodeProtobufFrame pb ty m kDefaultMaxPayloadSize = Inr (encode_bytes f) \<and>
       valid_frame kDefaultMaxPayloadSize f \<and> message_id f = ty \<and> connection_stream u c = connection_stream t c @ encode_bytes f))"
  proof (cases "um_find (connection_descriptors t) c")
    case None
    then show ?thesis by (simp add: u_def server_Send_def server_IsConnected_def)
  next
    case (Some d)
    then obtain cl where cl: "um_find (clients t) d = Some cl" "client_id cl = c" "client_ok t d cl"
      using inv by (auto simp: transport_inv_def tables_linked_def)
    show ?thesis
    proof (cases "EncodeProtobufFrame pb ty m kDefaultMaxPayloadSize")
      case (Inl e)
      then show ?thesis using Some cl by (auto simp: u_def server_Send_def server_IsConnected_def)
    next
      case (Inr bytes)
      obtain f where f: "valid_frame kDefaultMaxPayloadSize f" "bytes = encode_bytes f" "message_id f = ty"
        using EncodeProtobufFrame_valid[OF Inr] .
      obtain queued conn where q: "QueueBytes bytes (client_connection cl) = (queued, conn)" by (rule prod.exhaust)
      let ?t1 = "put_client d cl conn t" and ?cl1 = "cl\<lparr>client_connection := conn\<rparr>"
      obtain status cl2 t2 where fl: "flush_client d ?cl1 ?t1 = (status, cl2, t2)" by (rule prod_cases3)
      note stream = queued_stream[OF inv Some cl q fl]
      have u: "u = (if \<not> queued then mark_for_close c ?t1 else if status \<noteq> kOpen then mark_for_close c t2 else UpdateInterest cl2 t2)"
        using Some cl(1) Inr q fl by (simp add: u_def server_Send_def)
      have "marked_for_close t2 = marked_for_close t" using flush_client_fields[OF fl] by simp
      then have "marked_for_close t \<subseteq> marked_for_close (UpdateInterest cl2 t2)" using UpdateInterest_output(2)[of t2 cl2] by simp
      then have "marked_for_close t \<subseteq> marked_for_close u" using \<open>marked_for_close t2 = marked_for_close t\<close>
        unfolding u by (simp add: subset_insertI)
      moreover have "connection_stream u c' = connection_stream t c'" if "c' \<noteq> c" using that stream by (simp add: u)
      moreover have "connection_stream u c = connection_stream t c @ encode_bytes f" if "server_IsConnected u c"
      proof -
        have "queued" "status = kOpen" using that by (auto simp: u server_IsConnected_def split: if_splits)
        then show ?thesis using stream[of c] f(2) by (simp add: u)
      qed
      ultimately show ?thesis using f Inr by auto
    qed
  qed
  then show "marked_for_close t \<subseteq> marked_for_close u" "c' \<noteq> c \<Longrightarrow> connection_stream u c' = connection_stream t c'"
    "server_IsConnected u c \<Longrightarrow> \<exists>f. EncodeProtobufFrame pb ty m kDefaultMaxPayloadSize = Inr (encode_bytes f) \<and>
       valid_frame kDefaultMaxPayloadSize f \<and> message_id f = ty \<and> connection_stream u c = connection_stream t c @ encode_bytes f"
    by blast+
qed

lemma server_Send_extends:
  assumes "transport_inv X t"
  shows "extends t (snd (server_Send pb c ty m t))"
  unfolding extends_def
proof (intro allI impI)
  fix c' assume u: "server_IsConnected (snd (server_Send pb c ty m t)) c'"
  note s = server_Send_stream[OF assms refl]
  have "server_IsConnected t c'" using u s(1)[of pb c ty m] by (auto simp: server_IsConnected_def)
  moreover have "\<exists>fs. list_all (valid_frame kDefaultMaxPayloadSize) fs \<and>
      connection_stream (snd (server_Send pb c ty m t)) c' = connection_stream t c' @ concat (map encode_bytes fs)"
  proof (cases "c' = c")
    case True
    then show ?thesis using s(3)[of pb c ty m] u by (metis append_Nil2 concat.simps list.simps(8,9) list.pred_inject)
  next
    case False
    then show ?thesis using s(2)[OF False] by (intro exI[of _ "[]"]) simp
  qed
  ultimately show "server_IsConnected t c' \<and> (\<exists>fs. list_all (valid_frame kDefaultMaxPayloadSize) fs \<and>
      connection_stream (snd (server_Send pb c ty m t)) c' = connection_stream t c' @ concat (map encode_bytes fs))" ..
qed

lemma deliver_extends:
  assumes "transport_inv X t"
  shows "transport_inv X (deliver (server_Send pb) msgs t) \<and> extends t (deliver (server_Send pb) msgs t)"
  using assms
proof (induction msgs arbitrary: t)
  case (Cons msg msgs)
  obtain c ty m where msg: "msg = (c, ty, m)" by (cases msg)
  from Cons.IH[OF server_Send_inv[OF Cons.prems, of pb c ty m]] server_Send_extends[OF Cons.prems, of pb c ty m]
  show ?case by (auto simp: msg deliver_def intro: extends_trans)
qed (simp add: extends_refl)

lemma deliver_descriptors: "connection_descriptors (deliver (server_Send pb) msgs t) = connection_descriptors t"
  by (induction msgs arbitrary: t) (auto simp: deliver_def)

lemma deliver_others:
  assumes "transport_inv X t" "c \<notin> fst ` set msgs"
  shows "connection_stream (deliver (server_Send pb) msgs t) c = connection_stream t c"
  using assms
proof (induction msgs arbitrary: t)
  case (Cons msg msgs)
  obtain c1 ty m where msg: "msg = (c1, ty, m)" by (cases msg)
  then have ne: "c \<noteq> c1" "c \<notin> fst ` set msgs" using Cons.prems(2) by auto
  from Cons.IH[OF server_Send_inv[OF Cons.prems(1)] ne(2)] server_Send_stream(2)[OF Cons.prems(1) refl ne(1)]
  show ?case by (simp add: msg deliver_def)
qed simp

text \<open>When each connection is addressed once, its message is the one frame that is new in its output.\<close>

lemma delivered_frame:
  assumes "transport_inv X t" "(c, ty, m) \<in> set msgs" "server_IsConnected (deliver (server_Send pb) msgs t) c"
    "distinct (map fst msgs)"
  shows "\<exists>f. EncodeProtobufFrame pb ty m kDefaultMaxPayloadSize = Inr (encode_bytes f) \<and>
    valid_frame kDefaultMaxPayloadSize f \<and> message_id f = ty \<and>
    connection_stream (deliver (server_Send pb) msgs t) c = connection_stream t c @ encode_bytes f"
  using assms
proof (induction msgs arbitrary: t)
  case (Cons msg msgs)
  obtain c1 ty1 m1 where msg: "msg = (c1, ty1, m1)" by (cases msg)
  let ?u = "snd (server_Send pb c1 ty1 m1 t)"
  have inv: "transport_inv X ?u" by (rule server_Send_inv[OF Cons.prems(1)])
  have all: "deliver (server_Send pb) (msg # msgs) t = deliver (server_Send pb) msgs ?u" by (simp add: msg deliver_def)
  have conn: "server_IsConnected ?u c"
    using deliver_extends[OF inv, of pb msgs] Cons.prems(3) unfolding all extends_def by blast
  show ?case
  proof (cases "c1 = c")
    case True
    then have "c \<notin> fst ` set msgs" using Cons.prems(4) msg by auto
    moreover from this have "msg = (c, ty, m)" using Cons.prems(2) by force
    ultimately show ?thesis
      using server_Send_stream(3)[OF Cons.prems(1) refl, of pb c ty m] deliver_others[OF inv, of c msgs pb] conn msg
      unfolding all by auto
  next
    case False
    then have "(c, ty, m) \<in> set msgs" using Cons.prems(2) msg by auto
    from Cons.IH[OF inv this] Cons.prems(3,4) server_Send_stream(2)[OF Cons.prems(1) refl, of c c1 pb ty1 m1] False
    show ?thesis unfolding all by auto
  qed
qed simp

section \<open>Sending to a connection with room\<close>

text \<open>The connection can queue the bytes, and the kernel reports no error for its socket.\<close>

definition takes_frame :: "server_transport \<Rightarrow> byte list \<Rightarrow> ConnectionId \<Rightarrow> bool" where
  "takes_frame t bytes c \<longleftrightarrow>
     (case um_find (connection_descriptors t) c of
        None \<Rightarrow> False
      | Some d \<Rightarrow>
          (case um_find (clients t) d of
             None \<Rightarrow> False
           | Some cl \<Rightarrow>
               length (unsent (client_connection cl)) + length bytes \<le> tcp_maximum_pending_bytes (client_connection cl) \<and>
               SendFailed \<notin> set (os_send t d) \<and> Sent 0 \<notin> set (os_send t d)))"

lemma Flush_open:
  "output_ok c \<Longrightarrow> SendFailed \<notin> set rs \<Longrightarrow> Sent 0 \<notin> set rs \<Longrightarrow> fst (Flush rs c) = kOpen"
proof (induction rs arbitrary: c)
  case (Cons r rs)
  show ?case
  proof (cases "WantsWrite c")
    case True
    then have p: "PendingBytes c > 0" by (simp add: WantsWrite_def PendingBytes_def)
    have ok: "output_ok (c\<lparr>tcp_output_offset := tcp_output_offset c + min n (PendingBytes c)\<rparr>)" for n
      using Cons.prems(1) by (auto simp: output_ok_def unsent_def PendingBytes_def)
    show ?thesis
    proof (cases r)
      case (Sent n)
      then have "min n (PendingBytes c) \<noteq> 0" using Cons.prems(3) p by auto
      then show ?thesis using Cons.IH[OF ok[of n]] Cons.prems Sent True by (simp add: Let_def case_prod_unfold)
    qed (use Cons True in simp_all)
  qed simp
qed simp

lemma UpdateInterest_unmarked:
  assumes "transport_inv {} t" "um_find (clients t) d = Some cl" "os_epoll_ok t (os_epoll_calls t)"
  shows "marked_for_close (UpdateInterest cl t) = marked_for_close t"
proof -
  have d: "tcp_descriptor (client_connection cl) = d" using assms(1,2) by (simp add: transport_inv_def client_ok_def)
  have "d \<in> dom (um_find (clients t))" using assms(2) by auto
  then have "um_find (callbacks (event_loop t)) d = Some (ClientCallback d)"
    using assms(1) by (simp add: transport_inv_def registered_def)
  moreover have "loop_ok (event_loop t)" using assms(1) by (simp add: transport_inv_def)
  ultimately have "um_contains (callbacks (event_loop t)) d" "um_contains (epoll_interest (event_loop t)) d"
    unfolding loop_ok_def by (simp, metis option.distinct(1) option.exhaust)
  then show ?thesis using assms(3) d by (simp add: UpdateInterest_def Let_def EventLoop_Modify_def)
qed

lemma UpdateInterest_os [simp]:
  "os_send (UpdateInterest cl t) = os_send t" "os_epoll_ok (UpdateInterest cl t) = os_epoll_ok t"
  by (auto simp: UpdateInterest_def Let_def mark_for_close_def split: prod.splits)

lemma server_Send_takes:
  assumes inv: "transport_inv {} t" and ok: "\<And>n. os_epoll_ok t n" and takes: "takes_frame t bytes c"
    and enc: "EncodeProtobufFrame pb ty m kDefaultMaxPayloadSize = Inr bytes"
    and u: "u = snd (server_Send pb c ty m t)"
  shows "marked_for_close u = marked_for_close t" "os_epoll_ok u = os_epoll_ok t"
    "c' \<noteq> c \<Longrightarrow> takes_frame t bytes c' \<Longrightarrow> takes_frame u bytes c'"
proof -
  obtain d cl where d: "um_find (connection_descriptors t) c = Some d" and cl: "um_find (clients t) d = Some cl"
    and room: "length (unsent (client_connection cl)) + length bytes \<le> tcp_maximum_pending_bytes (client_connection cl)"
    and os: "SendFailed \<notin> set (os_send t d)" "Sent 0 \<notin> set (os_send t d)"
    using takes by (auto simp: takes_frame_def split: option.splits)
  have inj: "um_find (connection_descriptors t) c2 = Some d \<Longrightarrow> c2 = c" for c2
    using inv d tables_linked_inj by (metis transport_inv_def)
  have cok: "client_ok t d cl" using inv cl by (simp add: transport_inv_def)
  obtain conn where q: "QueueBytes bytes (client_connection cl) = (True, conn)" "output_ok conn" "tcp_descriptor conn = d"
      "tcp_maximum_pending_bytes conn = tcp_maximum_pending_bytes (client_connection cl)"
    using QueueBytes_spec[of "client_connection cl" bytes] cok room by (auto simp: client_ok_def)
  let ?t1 = "put_client d cl conn t" and ?cl1 = "cl\<lparr>client_connection := conn\<rparr>"
  obtain st sent conn2 rest where fl: "Flush (os_send t d) conn = (st, sent, conn2, rest)" by (metis prod_cases4)
  have st: "st = kOpen" using Flush_open[OF q(2) os] fl by simp
  let ?cl2 = "cl\<lparr>client_connection := conn2\<rparr>"
  let ?t2 = "put_client d ?cl2 conn2 (?t1\<lparr>os_send := (os_send ?t1)(d := rest),
      os_taken := (os_taken ?t1)(client_id cl := os_taken ?t1 (client_id cl) @ sent)\<rparr>)"
  have f: "flush_client d ?cl1 ?t1 = (kOpen, ?cl2, ?t2)" using fl st by (simp add: flush_client_def put_client_def Let_def)
  have inv1: "transport_inv {} ?t1" by (rule transport_inv_put[OF inv cl refl q(3,2,4)])
  have inv2: "transport_inv {} ?t2" using flush_client_inv(1)[OF inv1 _ refl _ _ _ f] q by simp
  have ue: "u = UpdateInterest ?cl2 ?t2" using d cl enc q(1) f by (simp add: u server_Send_def)
  have os2: "os_epoll_ok ?t2 = os_epoll_ok t" "os_send ?t2 = (os_send t)(d := rest)" by (simp_all add: put_client_def)
  show "marked_for_close u = marked_for_close t"
    unfolding ue using UpdateInterest_unmarked[OF inv2, of d ?cl2] ok os2 by simp
  show "os_epoll_ok u = os_epoll_ok t" unfolding ue using os2 by simp
  show "takes_frame u bytes c'" if "c' \<noteq> c" "takes_frame t bytes c'"
  proof -
    have "um_find (connection_descriptors t) c' \<noteq> Some d" using inj that(1) by blast
    then show ?thesis using that(2) unfolding ue takes_frame_def by (auto simp: os2 split: option.splits if_splits)
  qed
qed

lemma deliver_takes:
  assumes "transport_inv {} t" "\<And>n. os_epoll_ok t n" "\<And>c. c \<in> set cs \<Longrightarrow> takes_frame t bytes c" "distinct cs"
    and "EncodeProtobufFrame pb ty m kDefaultMaxPayloadSize = Inr bytes"
  shows "marked_for_close (deliver (server_Send pb) (map (\<lambda>c. (c, ty, m)) cs) t) = marked_for_close t \<and>
    os_epoll_ok (deliver (server_Send pb) (map (\<lambda>c. (c, ty, m)) cs) t) = os_epoll_ok t"
  using assms
proof (induction cs arbitrary: t)
  case (Cons c cs)
  let ?u = "snd (server_Send pb c ty m t)"
  have "takes_frame t bytes c" using Cons.prems(3) by simp
  note one = server_Send_takes[OF Cons.prems(1,2) this Cons.prems(5) refl]
  have "marked_for_close (deliver (server_Send pb) (map (\<lambda>c. (c, ty, m)) cs) ?u) = marked_for_close ?u \<and>
      os_epoll_ok (deliver (server_Send pb) (map (\<lambda>c. (c, ty, m)) cs) ?u) = os_epoll_ok ?u"
  proof (rule Cons.IH[OF server_Send_inv[OF Cons.prems(1)]])
    show "os_epoll_ok ?u n" for n using one(2) Cons.prems(2) by simp
    show "takes_frame ?u bytes c'" if "c' \<in> set cs" for c'
      using one(3)[of c'] that Cons.prems(3)[of c'] Cons.prems(4) by auto
  qed (use Cons.prems in simp_all)
  then show ?case using one(1,2) by (simp add: deliver_def)
qed simp

section \<open>Closing\<close>

lemma forget_stream:
  assumes "transport_inv X t" "um_find (connection_descriptors t) c = Some d"
  shows "extends t (forget_connection c d t)"
proof -
  have inj: "um_find (connection_descriptors t) c' = Some d \<Longrightarrow> c' = c" for c'
    using assms tables_linked_inj by (metis transport_inv_def)
  have "connection_stream (forget_connection c d t) c' = connection_stream t c'" if "c' \<noteq> c" for c'
    using that inj by (intro connection_stream_cong) (auto simp: forget_connection_def erase_client_def Let_def)
  then show ?thesis
    by (auto simp: extends_def server_IsConnected_def forget_connection_def erase_client_def Let_def intro: exI[of _ "[]"])
qed

lemma CloseConnection_extends:
  assumes inv: "server_inv g" and res: "CloseConnection pb c g = Inr h"
  shows "extends (transport g) (transport h)"
proof (cases "um_find (connection_descriptors (transport g)) c")
  case None
  then have "transport h = (transport g)\<lparr>marked_for_close := marked_for_close (transport g) - {c}\<rparr>"
    using res by (auto simp: CloseConnection_def)
  moreover have "c \<notin> marked_for_close (transport g)"
    using server_invD(3)[OF inv] None by (auto simp: transport_inv_def)
  ultimately show ?thesis
    by (intro extends_same connection_stream_cong) auto
next
  case (Some d)
  let ?t1 = "(transport g)\<lparr>event_loop := EventLoop_Remove d (event_loop (transport g))\<rparr>"
  obtain h1 where h1: "OnDisconnected (server_Send pb) c (g\<lparr>transport := ?t1\<rparr>) = Inr h1"
      "transport h = forget_connection c d (transport h1)"
    using res Some by (auto simp: CloseConnection_def outcome_bind_Inr_iff)
  let ?R = "\<lambda>t u. transport_inv {d} t \<longrightarrow> transport_inv {d} u \<and> extends t u \<and> connection_descriptors u = connection_descriptors t"
  have "?R (transport (g\<lparr>transport := ?t1\<rparr>)) (transport h1)"
  proof (rule OnDisconnected_transport[of ?R "server_Send pb", OF _ _ _ h1(1)])
    show "?R t v" if "?R t u" "?R u v" for t u v using that extends_trans[of t u v] by simp
  qed (simp_all add: extends_refl server_Send_inv server_Send_extends)
  moreover have "transport_inv {d} ?t1"
    using transport_inv_Remove[OF server_invD(3)[OF inv]] by simp
  ultimately have t: "transport_inv {d} (transport h1)" "extends ?t1 (transport h1)"
      "um_find (connection_descriptors (transport h1)) c = Some d"
    using Some by simp_all
  have "extends (transport g) ?t1"
    by (intro extends_same connection_stream_cong) simp_all
  then show ?thesis using t(2) forget_stream[OF t(1,3)] h1(2) extends_trans by metis
qed

lemma CloseMarked_extends:
  "server_inv g \<Longrightarrow> CloseMarkedConnections pb g = Inr h \<Longrightarrow> extends (transport g) (transport h)"
proof (induction pb g rule: CloseMarkedConnections.induct)
  case (1 pb g)
  show ?case
  proof (cases "marked_for_close (transport g) = {}")
    case True
    then show ?thesis using "1.prems" extends_refl by (simp add: CloseMarkedConnections.simps[of pb g])
  next
    case False
    obtain k where k: "CloseConnection pb (Min (marked_for_close (transport g))) g = Inr k" "server_inv k"
      using CloseConnection_inv[OF "1.prems"(1)] by blast
    moreover have "CloseMarkedConnections pb k = Inr h"
      using "1.prems"(2) False k(1) by (simp add: CloseMarkedConnections.simps[of pb g])
    ultimately show ?thesis
      using "1.IH"[OF False] CloseConnection_extends[OF "1.prems"(1) k(1)] extends_trans by blast
  qed
qed

section \<open>Reading a request\<close>

lemma ReadAvailable_one_frame:
  assumes "decoder_wf (tcp_decoder conn)" "\<not> dec_failed (tcp_decoder conn)" "pending (tcp_decoder conn) = []"
    and "valid_frame (dec_max_payload_size (tcp_decoder conn)) f" "script_data rs = encode_bytes f" "script_end rs = Some False"
  shows "\<exists>d rest. ReadAvailable rs conn = Inr (kOpen, [f], conn\<lparr>tcp_decoder := d\<rparr>, rest)"
proof -
  let ?d = "tcp_decoder conn" and ?m = "dec_max_payload_size (tcp_decoder conn)"
  let ?d1 = "?d\<lparr>dec_buffer := dec_buffer ?d @ script_data rs\<rparr>"
  obtain rest where l: "receive_loop rs ?d = Inr (Some False, ?d1, rest)" using receive_loop_spec[of rs ?d] assms(6) by auto
  have d1: "decoder_wf ?d1" "\<not> dec_failed ?d1" "pending ?d1 = encode_bytes f" "dec_max_payload_size ?d1 = ?m"
    using assms(1,2,3,5) by (auto simp: decoder_wf_def pending_def)
  have "parse_stream ?m (pending ?d1) = ([f], kNeedMoreData, [])"
    using parse_stream_concat_encode[of ?m "[f]"] assms(4) d1(3) by simp
  then obtain d2 where "decode_loop ?d1 [] = (kNeedMoreData, [f], d2)"
    using fd.loop_refines[OF d1(1,2), of "[f]" kNeedMoreData "[]" "[]"] d1(4) by auto
  with l show ?thesis by (auto simp: ReadAvailable_def)
qed

text \<open>Reading changes nothing of the output.\<close>

lemma read_output:
  assumes "um_find (clients t) d = Some cl" "unsent conn = unsent (client_connection cl)"
    "tcp_maximum_pending_bytes conn = tcp_maximum_pending_bytes (client_connection cl)"
  shows "connection_stream (put_client d cl conn (t\<lparr>os_recv := rs\<rparr>)) c = connection_stream t c"
    "takes_frame (put_client d cl conn (t\<lparr>os_recv := rs\<rparr>)) bytes c = takes_frame t bytes c"
proof -
  let ?u = "put_client d cl conn (t\<lparr>os_recv := rs\<rparr>)"
  have u: "os_taken ?u = os_taken t" "connection_descriptors ?u = connection_descriptors t" "os_send ?u = os_send t"
      "um_find (clients ?u) = (um_find (clients t))(d \<mapsto> cl\<lparr>client_connection := conn\<rparr>)"
    by (simp_all add: put_client_def)
  show "connection_stream ?u c = connection_stream t c" "takes_frame ?u bytes c = takes_frame t bytes c"
    unfolding connection_stream_def takes_frame_def u using assms
    by (cases "um_find (connection_descriptors t) c"; cases "um_find (connection_descriptors t) c = Some d"; simp)+
qed

text \<open>
  The event of a readable socket that carries one frame: the handler runs on the connection, and whatever is closed after
  it only adds whole frames to the output of the connections that remain.
\<close>

lemma CloseMarked_idle:
  assumes "server_inv g"
  shows "\<exists>h. CloseMarkedConnections pb g = Inr h \<and> server_idle h \<and> extends (transport g) (transport h) \<and>
    (marked_for_close (transport g) = {} \<longrightarrow> h = g)"
proof -
  obtain h where h: "CloseMarkedConnections pb g = Inr h" "server_inv h" "marked_for_close (transport h) = {}"
    using CloseMarked_inv[OF assms] by blast
  moreover have "h = g" if "marked_for_close (transport g) = {}"
    using h(1) that by (simp add: CloseMarkedConnections.simps[of pb g])
  ultimately show ?thesis using CloseMarked_extends[OF assms] by (auto simp: server_idle_def)
qed

lemma ClientReady_one_frame:
  assumes idle: "server_idle g" and c: "um_find (connection_descriptors (transport g)) c = Some d"
    and cl: "um_find (clients (transport g)) d = Some cl"
    and read: "ReadAvailable (os_recv (transport g) d) (client_connection cl) = Inr (kOpen, [f], conn, rest)"
    and handle: "HandleFrame (server_transport_ops pb) pb c f
      (at_transport (\<lambda>t. put_client d cl conn (t\<lparr>os_recv := (os_recv t)(d := rest)\<rparr>)) g) = Inr k"
  shows "\<exists>h. ClientReady pb d EPOLLIN g = Inr h \<and> server_idle h \<and> extends (transport k) (transport h) \<and>
    (marked_for_close (transport k) = {} \<and> (\<forall>n. os_epoll_ok (transport k) n) \<longrightarrow>
       h = k \<or> (\<exists>cl2. h = at_transport (UpdateInterest cl2) k))"
proof -
  have inv: "server_inv g" and m: "marked_for_close (transport g) = {}" using idle by (auto simp: server_idle_def)
  have id: "client_id cl = c" using server_invD(3)[OF inv] c cl by (auto simp: transport_inv_def tables_linked_def)
  let ?g1 = "at_transport (\<lambda>t. put_client d cl conn (t\<lparr>os_recv := (os_recv t)(d := rest)\<rparr>)) g"
  have conn: "server_IsConnected (transport ?g1) c" using c m by (simp add: server_IsConnected_def)
  have rc: "read_client pb d cl False g = Inr (False, k)"
    using read handle conn id by (simp add: read_client_def Let_def)
  have k: "server_inv k" by (rule read_client_inv[OF inv cl rc])
  have ready: "ClientReady pb d EPOLLIN g = (if \<not> server_IsConnected (transport k) c then CloseMarkedConnections pb k
      else finish_ready pb d c EPOLLIN False k)"
    using cl rc id by (simp add: ClientReady_def EPOLLIN_def EPOLLERR_def EPOLLHUP_def)
  show ?thesis
  proof (cases "server_IsConnected (transport k) c \<and> um_contains (clients (transport k)) d")
    case False
    then have "ClientReady pb d EPOLLIN g = CloseMarkedConnections pb k"
      unfolding ready by (auto simp: finish_ready_def Let_def epoll_bits)
    then show ?thesis using CloseMarked_idle[OF k] by metis
  next
    case True
    then obtain cl2 where cl2: "um_find (clients (transport k)) d = Some cl2" by auto
    let ?k = "at_transport (UpdateInterest cl2) k"
    have tk: "transport_inv {} (transport k)" by (rule server_invD(3)[OF k])
    then have "um_contains (connection_descriptors (transport k)) (client_id cl2)"
      using cl2 unfolding transport_inv_def tables_linked_def by auto
    then have inv2: "server_inv ?k"
      using transport_inv_UpdateInterest[OF tk] by (intro server_inv_transport[OF k]) simp_all
    have eq: "ClientReady pb d EPOLLIN g = CloseMarkedConnections pb ?k"
      unfolding ready using True cl2 by (simp add: finish_ready_def Let_def epoll_bits)
    obtain h where h: "CloseMarkedConnections pb ?k = Inr h" "server_idle h" "extends (transport ?k) (transport h)"
        "marked_for_close (transport ?k) = {} \<longrightarrow> h = ?k"
      using CloseMarked_idle[OF inv2] by blast
    have "extends (transport k) (transport ?k)" by (rule extends_same) simp_all
    then have "extends (transport k) (transport h)" using h(3) extends_trans by blast
    moreover have "h = ?k" if "marked_for_close (transport k) = {}" "\<forall>n. os_epoll_ok (transport k) n"
      using h(4) that UpdateInterest_unmarked[OF tk cl2] by simp
    ultimately show ?thesis using eq h(1,2) by auto
  qed
qed

section \<open>Frames and messages\<close>

text \<open>A client whose decoder has just been made, or reset by \<open>Connect\<close>.\<close>

definition fresh_client :: "BlockingClient \<Rightarrow> bool" where
  "fresh_client b \<longleftrightarrow> decoder_wf (bc_decoder b) \<and> \<not> dec_failed (bc_decoder b) \<and> pending (bc_decoder b) = [] \<and>
     dec_max_payload_size (bc_decoder b) = kDefaultMaxPayloadSize"

lemma encoded_frame_parses:
  assumes "codec_law pb m" "EncodeProtobufFrame pb (message_type m) m kDefaultMaxPayloadSize = Inr (encode_bytes f)"
    and "valid_frame kDefaultMaxPayloadSize f"
  shows "ParseProtobufPayload pb f (message_type m) (message_type m) = Some m"
proof -
  have "ByteSizeLong pb m \<le> unat kDefaultMaxPayloadSize" "ByteSizeLong pb m \<le> INT_MAX"
    using assms(2) by (auto simp: EncodeProtobufFrame_def Let_def not_less split: if_splits)
  from EncodeProtobufFrame_fits[OF assms(1) this] obtain bytes and f' :: Frame
    where e: "EncodeProtobufFrame pb (message_type m) m kDefaultMaxPayloadSize = Inr bytes"
      "EncodeFrame (message_id f') (payload f') kDefaultMaxPayloadSize = Inr bytes"
      "message_id f' = message_type m" "ParseFromArray pb (message_type m) (payload f') = Some m" "length (payload f') \<le> INT_MAX"
    by metis
  have "valid_frame kDefaultMaxPayloadSize f'" "encode_bytes f' = encode_bytes f"
    using e(1,2) assms(2) by (simp_all add: EncodeFrame_eq_Inr_iff)
  then have "f' = f" using encode_bytes_inject[OF _ assms(3), of f' "[]" "[]"] by simp
  then show ?thesis using e by (simp add: ParseProtobufPayload_def)
qed

lemma client_sent_frame:
  assumes "Connected a" "client_Send pb rs ty m a = Inr (Some True, taken)"
  shows "\<exists>f. valid_frame kDefaultMaxPayloadSize f \<and> taken = encode_bytes f \<and> message_id f = ty \<and>
    EncodeProtobufFrame pb ty m kDefaultMaxPayloadSize = Inr (encode_bytes f)"
proof -
  obtain bytes where b: "EncodeProtobufFrame pb ty m kDefaultMaxPayloadSize = Inr bytes" "send_loop rs bytes 0 = (Some True, taken)"
    using assms by (auto simp: client_Send_def split: sum.splits fault.splits)
  obtain f where f: "valid_frame kDefaultMaxPayloadSize f" "bytes = encode_bytes f" "message_id f = ty"
    using EncodeProtobufFrame_valid[OF b(1)] .
  have "taken = bytes" using send_loop_taken[OF b(2)] by simp
  with f b(1) show ?thesis by blast
qed

text \<open>The frames that a client has received are the leading frames of what the server has put out for it.\<close>

lemma received_frames:
  assumes "fresh_client b" "receive_calls calls b = Inr (frames, bytes, b')" "bytes @ unread = concat (map encode_bytes sent)"
    and "list_all (valid_frame kDefaultMaxPayloadSize) sent"
  shows "\<exists>later. sent = frames @ later"
proof -
  note r = receive_calls_stream[of b calls frames bytes b']
  have "list_all (valid_frame kDefaultMaxPayloadSize) frames" "bytes = concat (map encode_bytes frames) @ pending (bc_decoder b')"
    using r assms(1,2) by (auto simp: fresh_client_def)
  from encoded_prefix[OF this(1) assms(4), of "pending (bc_decoder b')" unread] this(2) assms(3) show ?thesis by auto
qed

text \<open>Handling a chat frame sends one message to the connection of every online player.\<close>

definition player_connections :: "GameServer \<Rightarrow> ConnectionId list" where
  "player_connections g = map (\<lambda>(_, q). on_connection_id q) (um_entries (online_players g))"

lemma player_connections_set:
  "game_inv g \<Longrightarrow> set (player_connections g) = {on_connection_id q | p q. um_find (online_players g) p = Some q}"
  using um.entries_iff[of "online_players g"] by (auto simp: player_connections_def game_inv_def image_iff)

lemma player_connections_distinct:
  assumes "game_inv g"
  shows "distinct (player_connections g)"
proof -
  have um: "um_invar (online_players g)" using assms by (simp add: game_inv_def)
  have "inj_on (\<lambda>(_ :: PlayerId, q). on_connection_id q) (set (um_entries (online_players g)))"
    using um.entries_iff[OF um] online_connection(3)[OF assms] by (auto simp: inj_on_def) (metis option.inject)+
  then show ?thesis using um.entries_distinct[OF um] by (simp add: player_connections_def distinct_map)
qed

lemma HandleChat_messages:
  assumes "PlayerForConnection c g = Some s" "txt \<noteq> []" "length txt \<le> gc_maximum_chat_bytes (config g)"
    and "ParseProtobufPayload pb f kChatRequest kChatRequest = Some (ChatRequest txt)"
    and "m = ChatBroadcast (pr_player_id (on_record s)) (pr_nickname (on_record s)) txt"
  shows "transport (HandleChat (server_transport_ops pb) pb c f g) =
    deliver (server_Send pb) (map (\<lambda>c. (c, kChatBroadcast, m)) (player_connections g)) (transport g)"
proof -
  have "emits (Send (server_transport_ops pb)) (map (\<lambda>(_, q). (on_connection_id q, kChatBroadcast, m)) (um_entries (online_players g))) g
      (HandleChat (server_transport_ops pb) pb c f g)"
    using HandleChat_delivers[OF assms(1,4), of "server_transport_ops pb"] assms(2,3,5) by auto
  moreover have "map (\<lambda>(_ :: PlayerId, q). (on_connection_id q, kChatBroadcast, m)) (um_entries (online_players g)) =
      map (\<lambda>c. (c, kChatBroadcast, m)) (player_connections g)"
    by (auto simp: player_connections_def)
  ultimately show ?thesis by (simp add: emits_def server_transport_ops_def)
qed

section \<open>From client to clients\<close>

text \<open>
  Between \<open>t\<close> and \<open>u\<close> the output of a connection has gone on with the frame of \<open>m\<close>, and then with whole frames.
\<close>

definition announced :: "protobuf \<Rightarrow> Message \<Rightarrow> server_transport \<Rightarrow> server_transport \<Rightarrow> ConnectionId \<Rightarrow> bool" where
  "announced pb m t u c \<longleftrightarrow> (\<exists>f fs. EncodeProtobufFrame pb (message_type m) m kDefaultMaxPayloadSize = Inr (encode_bytes f) \<and>
     list_all (valid_frame kDefaultMaxPayloadSize) (f # fs) \<and>
     connection_stream u c = connection_stream t c @ encode_bytes f @ concat (map encode_bytes fs))"

text \<open>
  A client at the other end of the connection, whatever frames it was sent before and however it calls \<open>Receive\<close>, gets those
  frames and next one from which it parses \<open>m\<close>.
\<close>

definition received_next :: "protobuf \<Rightarrow> Message \<Rightarrow> server_transport \<Rightarrow> server_transport \<Rightarrow> ConnectionId \<Rightarrow> bool" where
  "received_next pb m t u c \<longleftrightarrow> (\<forall>before b calls frames bytes b' unread.
     connection_stream t c = concat (map encode_bytes before) \<and> list_all (valid_frame kDefaultMaxPayloadSize) before \<and>
     fresh_client b \<and> receive_calls calls b = Inr (frames, bytes, b') \<and> connection_stream u c = bytes @ unread \<and>
     length before < length frames \<longrightarrow>
     take (length before) frames = before \<and>
     ParseProtobufPayload pb (frames ! length before) (message_type m) (message_type m) = Some m)"

text \<open>Every online player's connection has room for the frame of \<open>m\<close>, and the kernel reports no error.\<close>

definition room_for :: "protobuf \<Rightarrow> Message \<Rightarrow> GameServer \<Rightarrow> bool" where
  "room_for pb m g \<longleftrightarrow> (\<forall>n. os_epoll_ok (transport g) n) \<and>
     (\<exists>bytes. EncodeProtobufFrame pb (message_type m) m kDefaultMaxPayloadSize = Inr bytes \<and>
        (\<forall>c \<in> set (player_connections g). takes_frame (transport g) bytes c))"

lemma announced_received:
  assumes "codec_law pb m" "announced pb m t u c"
  shows "received_next pb m t u c"
  unfolding received_next_def
proof (intro allI impI, elim conjE)
  fix before b calls frames bytes b' unread
  assume g: "connection_stream t c = concat (map encode_bytes before)" "list_all (valid_frame kDefaultMaxPayloadSize) before"
    and r: "fresh_client b" "receive_calls calls b = Inr (frames, bytes, b')" "connection_stream u c = bytes @ unread"
      "length before < length frames"
  obtain x fs where x: "EncodeProtobufFrame pb (message_type m) m kDefaultMaxPayloadSize = Inr (encode_bytes x)"
      "list_all (valid_frame kDefaultMaxPayloadSize) (x # fs)" "bytes @ unread = concat (map encode_bytes (before @ x # fs))"
    using assms(2) g(1) r(3) by (auto simp: announced_def)
  then obtain later where later: "before @ x # fs = frames @ later"
    using received_frames[OF r(1,2) x(3)] g(2) by auto
  have "take (length before) (frames @ later) = before" "(frames @ later) ! length before = x" unfolding later[symmetric] by simp_all
  then have "take (length before) frames = before" "frames ! length before = x" using r(4) by (simp_all add: nth_append)
  then show "take (length before) frames = before \<and>
      ParseProtobufPayload pb (frames ! length before) (message_type m) (message_type m) = Some m"
    using encoded_frame_parses[OF assms(1) x(1)] x(2) by simp
qed

text \<open>The broadcast of one message, and whatever only adds frames after it.\<close>

lemma broadcast_announced:
  assumes t: "transport_inv {} t" and d: "distinct cs" "c \<in> set cs"
    and u: "extends (deliver (server_Send pb) (map (\<lambda>c. (c, message_type m, m)) cs) t) u" "server_IsConnected u c"
  shows "announced pb m t u c"
proof -
  let ?msgs = "map (\<lambda>c. (c, message_type m, m)) cs"
  obtain fs where fs: "server_IsConnected (deliver (server_Send pb) ?msgs t) c" "list_all (valid_frame kDefaultMaxPayloadSize) fs"
      "connection_stream u c = connection_stream (deliver (server_Send pb) ?msgs t) c @ concat (map encode_bytes fs)"
    using u unfolding extends_def by blast
  have "(c, message_type m, m) \<in> set ?msgs" "distinct (map fst ?msgs)" using d by (simp_all add: comp_def)
  from delivered_frame[OF t this(1) fs(1) this(2)] obtain f
    where "EncodeProtobufFrame pb (message_type m) m kDefaultMaxPayloadSize = Inr (encode_bytes f)"
      "valid_frame kDefaultMaxPayloadSize f"
      "connection_stream (deliver (server_Send pb) ?msgs t) c = connection_stream t c @ encode_bytes f" by blast
  then show ?thesis using fs(2,3) unfolding announced_def by (intro exI[of _ f] exI[of _ fs]) simp
qed

text \<open>The part of the server: the handler of the chat frame and what follows it in the same event.\<close>

lemma chat_event:
  assumes idle: "server_idle g" and c: "um_find (connection_descriptors (transport g)) c = Some d"
    and read: "um_find (clients (transport g)) d = Some cl"
      "ReadAvailable (os_recv (transport g) d) (client_connection cl) = Inr (kOpen, [f], (client_connection cl)\<lparr>tcp_decoder := dec\<rparr>, rest)"
    and s: "PlayerForConnection c g = Some s" and len: "txt \<noteq> []" "length txt \<le> gc_maximum_chat_bytes (config g)"
    and f: "message_id f = kChatRequest" "ParseProtobufPayload pb f kChatRequest kChatRequest = Some (ChatRequest txt)"
    and m: "m = ChatBroadcast (pr_player_id (on_record s)) (pr_nickname (on_record s)) txt"
  shows "\<exists>h. ClientReady pb d EPOLLIN g = Inr h \<and> server_idle h \<and>
    (\<forall>c' \<in> set (player_connections g). server_IsConnected (transport h) c' \<longrightarrow> announced pb m (transport g) (transport h) c') \<and>
    (room_for pb m g \<longrightarrow> connection_descriptors (transport h) = connection_descriptors (transport g))"
proof -
  let ?conn = "(client_connection cl)\<lparr>tcp_decoder := dec\<rparr>"
  let ?g1 = "at_transport (\<lambda>t. put_client d cl ?conn (t\<lparr>os_recv := (os_recv t)(d := rest)\<rparr>)) g"
  let ?cs = "player_connections g" and ?k = "HandleChat (server_transport_ops pb) pb c f ?g1"
  have inv: "server_inv g" and mark: "marked_for_close (transport g) = {}" using idle by (auto simp: server_idle_def)
  have dist: "distinct ?cs" by (rule player_connections_distinct[OF server_invD(1)[OF inv]])
  have ty: "message_type m = kChatBroadcast" by (simp add: m)
  have "client_ok (transport g) d cl" using server_invD(3)[OF inv] read(1) by (simp add: transport_inv_def)
  then have t1: "transport_inv {} (transport ?g1)"
    using server_invD(3)[OF inv] read(1) transport_inv_put[of "{}" "(transport g)\<lparr>os_recv := (os_recv (transport g))(d := rest)\<rparr>" d cl cl ?conn]
    by (simp add: client_ok_def)
  have out: "connection_stream (transport ?g1) c' = connection_stream (transport g) c'"
      "takes_frame (transport ?g1) bytes c' = takes_frame (transport g) bytes c'" for c' bytes
    using read_output[OF read(1), of ?conn] by (simp_all add: unsent_def)
  have "PlayerForConnection c ?g1 = Some s" using s by (simp add: PlayerForConnection_def split: option.splits)
  from HandleChat_messages[OF this len(1) _ f(2) m] len(2)
  have k: "transport ?k = deliver (server_Send pb) (map (\<lambda>c. (c, message_type m, m)) ?cs) (transport ?g1)"
    by (simp add: player_connections_def ty)
  have "HandleFrame (server_transport_ops pb) pb c f ?g1 = Inr ?k" by (simp add: HandleFrame_def f(1) message_ids)
  from ClientReady_one_frame[OF idle c read this] obtain h where h: "ClientReady pb d EPOLLIN g = Inr h" "server_idle h"
      "extends (transport ?k) (transport h)"
      "marked_for_close (transport ?k) = {} \<and> (\<forall>n. os_epoll_ok (transport ?k) n) \<longrightarrow>
         h = ?k \<or> (\<exists>cl2. h = at_transport (UpdateInterest cl2) ?k)" by blast
  have "announced pb m (transport g) (transport h) c'" if "c' \<in> set ?cs" "server_IsConnected (transport h) c'" for c'
    using broadcast_announced[OF t1 dist that(1) h(3)[unfolded k] that(2)] unfolding announced_def out(1) .
  moreover have "connection_descriptors (transport h) = connection_descriptors (transport g)" if room: "room_for pb m g"
  proof -
    obtain bytes where bytes: "EncodeProtobufFrame pb (message_type m) m kDefaultMaxPayloadSize = Inr bytes"
        "\<And>c. c \<in> set ?cs \<Longrightarrow> takes_frame (transport ?g1) bytes c"
      using room unfolding room_for_def out(2) by blast
    have ok: "\<And>n. os_epoll_ok (transport ?g1) n" using room by (simp add: room_for_def put_client_def)
    have "marked_for_close (transport ?k) = {}" "os_epoll_ok (transport ?k) = os_epoll_ok (transport ?g1)"
      using deliver_takes[OF t1 ok bytes(2) dist bytes(1)] mark unfolding k by simp_all
    moreover have "connection_descriptors (transport ?k) = connection_descriptors (transport g)"
      unfolding k by (simp add: deliver_descriptors)
    moreover have "\<forall>n. os_epoll_ok (transport ?g1) n" using ok by blast
    ultimately show ?thesis using h(4) by auto
  qed
  ultimately show ?thesis using h(1,2) by blast
qed

text \<open>
  C3: A chat message travels from client to clients. A client's \<open>Send\<close> has succeeded, and the bytes it gave to the kernel arrive
  at the server, in any portions, on the connection of a player who is between two frames. The event of the readable
  socket is then handled without a fault. On every online player's connection that the server has not closed the output
  goes on with the frame of the chat message, with the sender's id, nickname and text; and the client at its
  other end, whatever frames it was sent before and however it calls \<open>Receive\<close>, gets those and next the chat
  message. The server closes none when every connection has room for the frame and the kernel reports no error.
\<close>

theorem chat_travels_from_client_to_clients:
  assumes "server_idle g" "um_find (connection_descriptors (transport g)) c = Some d"
    and "um_find (clients (transport g)) d = Some cl"
    and "decoder_wf (tcp_decoder (client_connection cl))" "\<not> dec_failed (tcp_decoder (client_connection cl))"
      "pending (tcp_decoder (client_connection cl)) = []"
      "dec_max_payload_size (tcp_decoder (client_connection cl)) = kDefaultMaxPayloadSize"
    and "PlayerForConnection c g = Some s" "txt \<noteq> []" "length txt \<le> gc_maximum_chat_bytes (config g)"
    and "m = ChatBroadcast (pr_player_id (on_record s)) (pr_nickname (on_record s)) txt"
    and "codec_law pb (ChatRequest txt)" "codec_law pb m"
    and "Connected a" "client_Send pb rs kChatRequest (ChatRequest txt) a = Inr (Some True, taken)"
    and "script_data (os_recv (transport g) d) = taken" "script_end (os_recv (transport g) d) = Some False"
  shows "\<exists>h. ClientReady pb d EPOLLIN g = Inr h \<and> server_idle h \<and>
    (\<forall>p q. um_find (online_players g) p = Some q \<and> server_IsConnected (transport h) (on_connection_id q) \<longrightarrow>
       announced pb m (transport g) (transport h) (on_connection_id q) \<and>
       received_next pb m (transport g) (transport h) (on_connection_id q)) \<and>
    (room_for pb m g \<longrightarrow> connection_descriptors (transport h) = connection_descriptors (transport g))"
proof -
  obtain f where f: "valid_frame kDefaultMaxPayloadSize f" "taken = encode_bytes f" "message_id f = kChatRequest"
      "EncodeProtobufFrame pb kChatRequest (ChatRequest txt) kDefaultMaxPayloadSize = Inr (encode_bytes f)"
    using client_sent_frame[OF assms(14,15)] by auto
  have parse: "ParseProtobufPayload pb f kChatRequest kChatRequest = Some (ChatRequest txt)"
    using encoded_frame_parses[OF assms(12), of f] f by simp
  obtain dec rest where "ReadAvailable (os_recv (transport g) d) (client_connection cl) =
      Inr (kOpen, [f], (client_connection cl)\<lparr>tcp_decoder := dec\<rparr>, rest)"
    using ReadAvailable_one_frame[OF assms(4-6), of f "os_recv (transport g) d"] assms(7,16,17) f by auto
  from chat_event[OF assms(1-3) this assms(8-10) f(3) parse assms(11)]
  obtain h where h: "ClientReady pb d EPOLLIN g = Inr h" "server_idle h"
    and out: "\<forall>c' \<in> set (player_connections g). server_IsConnected (transport h) c' \<longrightarrow> announced pb m (transport g) (transport h) c'"
    and stay: "room_for pb m g \<longrightarrow> connection_descriptors (transport h) = connection_descriptors (transport g)"
    by blast
  have "game_inv g" using assms(1) by (simp add: server_idle_def server_inv_def)
  from player_connections_set[OF this] out announced_received[OF assms(13)] h stay show ?thesis by blast
qed

section \<open>An example\<close>

text \<open>
  Three connections on the sockets 21 to 23; the first two belong to the players of the example game. The request of the first
  arrives in two portions; the kernel takes no output yet.
\<close>

definition example_tcp :: "int \<Rightarrow> TcpConnection" where
  "example_tcp d = \<lparr>tcp_descriptor = d,
     tcp_decoder = \<lparr>dec_max_payload_size = kDefaultMaxPayloadSize, dec_buffer = [], dec_read_offset = 0,
       dec_failure_status = kNeedMoreData, dec_failed = False\<rparr>,
     tcp_output = [], tcp_output_offset = 0, tcp_maximum_pending_bytes = 4 * 1024 * 1024\<rparr>"

definition example_transport :: server_transport where
  "example_transport = \<lparr>server_config = default_server_config, listener = 6, bound_port = 9000, wakeup_handle = 5,
     event_loop = \<lparr>callbacks = um_put 23 (ClientCallback 23) (um_put 22 (ClientCallback 22) (um_put 21 (ClientCallback 21) um_empty)),
       epoll_interest = um_put 23 EPOLLIN (um_put 22 EPOLLIN (um_put 21 EPOLLIN um_empty)), stop_counter = 0, loop_running = True\<rparr>,
     completion_queue = CompletionQueue_new True, wakeup_counter = 0,
     clients = um_put 23 \<lparr>client_id = 3, client_connection = example_tcp 23\<rparr>
       (um_put 22 \<lparr>client_id = 2, client_connection = example_tcp 22\<rparr>
       (um_put 21 \<lparr>client_id = 1, client_connection = example_tcp 21\<rparr> um_empty)),
     connection_descriptors = um_put 3 23 (um_put 2 22 (um_put 1 21 um_empty)),
     marked_for_close = {}, next_connection_id = 3, stopped = False,
     os_table = \<lparr>open_fds = {21, 22, 23}, close_calls = []\<rparr>, os_accept = [], os_send = (\<lambda>_. []),
     os_recv = (\<lambda>d. if d = 21 then [Received [0, 0, 0, 2, 0], RecvInterrupted, Received [0, 0, 2, 104, 105]] else []),
     os_epoll_ok = (\<lambda>_. True), os_epoll_calls = 0, os_taken = (\<lambda>_. [])\<rparr>"

lemma example_tables:
  "um_find (clients example_transport) =
     [21 \<mapsto> \<lparr>client_id = 1, client_connection = example_tcp 21\<rparr>, 22 \<mapsto> \<lparr>client_id = 2, client_connection = example_tcp 22\<rparr>,
      23 \<mapsto> \<lparr>client_id = 3, client_connection = example_tcp 23\<rparr>]"
  "um_find (connection_descriptors example_transport) = [1 \<mapsto> 21, 2 \<mapsto> 22, 3 \<mapsto> 23]"
  "um_find (callbacks (event_loop example_transport)) = [21 \<mapsto> ClientCallback 21, 22 \<mapsto> ClientCallback 22, 23 \<mapsto> ClientCallback 23]"
  by (simp_all add: example_transport_def)

lemma example_transport_inv: "transport_inv {} example_transport"
  unfolding transport_inv_def
proof (intro conjI)
  show "tables_linked (um_find (clients example_transport)) (um_find (connection_descriptors example_transport))"
    by (auto simp: tables_linked_def example_tables split: if_splits)
  show "loop_ok (event_loop example_transport)"
    by (auto simp: loop_ok_def example_transport_def um.invar_put um.invar_empty split: if_splits)
  show "\<forall>d cl. um_find (clients example_transport) d = Some cl \<longrightarrow> client_ok example_transport d cl"
    unfolding example_tables
    by (auto simp: client_ok_def example_tcp_def output_ok_def unsent_def example_transport_def default_server_config_def split: if_splits)
  show "registered {} (um_find (callbacks (event_loop example_transport))) (dom (um_find (clients example_transport)))"
    unfolding example_tables by (auto simp: registered_def split: if_splits)
  show "open_fds (os_table example_transport) = dom (um_find (clients example_transport))"
    unfolding example_tables by (auto simp: example_transport_def)
  have "um_size (clients example_transport) \<le> 3"
    using um.size_put[of um_empty] by (simp add: example_transport_def um_defs)
  then show "um_size (clients example_transport) \<le> sc_maximum_connections (server_config example_transport)"
    by (simp add: example_transport_def default_server_config_def)
  show "\<forall>c \<in> dom (um_find (connection_descriptors example_transport)). c \<le> next_connection_id example_transport"
    unfolding example_tables by (auto simp: example_transport_def)
qed (simp_all add: example_transport_def um.invar_put um.invar_empty)

text \<open>A codec for the two chat messages of the example.\<close>

definition chat_codec :: protobuf where
  "chat_codec =
     \<lparr>ByteSizeLong = (\<lambda>m. case m of ChatRequest t \<Rightarrow> length t | ChatBroadcast _ _ t \<Rightarrow> length t | _ \<Rightarrow> 0),
      SerializeToArray = (\<lambda>m n. case m of ChatRequest t \<Rightarrow> Some (map of_char t) | ChatBroadcast _ _ t \<Rightarrow> Some (map of_char t) | _ \<Rightarrow> Some []),
      ParseFromArray = (\<lambda>kind bytes.
         if kind = kChatRequest then Some (ChatRequest (map (\<lambda>b. char_of (unat b)) bytes))
         else if kind = kChatBroadcast then Some (ChatBroadcast 7 ''Nova-1'' (map (\<lambda>b. char_of (unat b)) bytes)) else None)\<rparr>"

lemma chat_codec_laws: "codec_law chat_codec (ChatRequest ''hi'')" "codec_law chat_codec (ChatBroadcast 7 ''Nova-1'' ''hi'')"
  by (simp_all add: codec_law_def chat_codec_def message_ids) code_simp+

lemma chat_frames:
  "EncodeProtobufFrame chat_codec kChatRequest (ChatRequest ''hi'') kDefaultMaxPayloadSize = Inr [0, 0, 0, 2, 0, 0, 0, 2, 104, 105]"
  "EncodeProtobufFrame chat_codec kChatBroadcast (ChatBroadcast 7 ''Nova-1'' ''hi'') kDefaultMaxPayloadSize =
     Inr [0, 0, 0, 2, 0, 0, 0, 105, 104, 105]"
  by (simp_all add: EncodeProtobufFrame_def chat_codec_def EncodeFrame_def IsKnownMessageId_def
      message_ids AppendNetworkUint32_def UINT32_MAX_def INT_MAX_def kDefaultMaxPayloadSize_def)

definition example_reader :: BlockingClient where
  "example_reader = \<lparr>bc_descriptor = 3,
     bc_decoder = \<lparr>dec_max_payload_size = kDefaultMaxPayloadSize, dec_buffer = [], dec_read_offset = 0,
       dec_failure_status = kNeedMoreData, dec_failed = False\<rparr>,
     bc_shutdown = False\<rparr>"

lemma example_reader_fresh: "fresh_client example_reader"
  by (simp add: fresh_client_def example_reader_def decoder_wf_def pending_def kDefaultMaxPayloadSize_def)

lemma example_chat_game:
  obtains g :: GameServer and s where "server_idle g" "transport g = example_transport" "config g = default_game_config"
    "PlayerForConnection 1 g = Some s" "pr_player_id (on_record s) = 7" "pr_nickname (on_record s) = ''Nova-1''"
    "\<forall>p q. um_find (online_players g) p = Some q \<longrightarrow> on_connection_id q \<in> {1, 2}"
    "\<exists>p q. um_find (online_players g) p = Some q \<and> on_connection_id q = 2"
proof -
  let ?s = "\<lparr>on_record = example_at 7 ''ada'' 150 250, on_connection_id = 1, on_session_token = ''t1''\<rparr>"
  obtain g0 :: GameServer where g0: "game_inv g0" "config g0 = default_game_config"
    and on: "um_find (online_players g0) =
       [7 \<mapsto> ?s, 8 \<mapsto> \<lparr>on_record = example_at 8 ''bob'' 50 250, on_connection_id = 2, on_session_token = ''t2''\<rparr>]"
    and cp: "um_find (connection_players g0) = [1 \<mapsto> 7, 2 \<mapsto> 8]" "um_find (pending_connections g0) = [3 \<mapsto> ''cy'']"
    by (rule example_game)
  let ?g = "g0\<lparr>transport := example_transport\<rparr>"
  have "server_idle ?g"
    using g0(1) example_transport_inv by (auto simp: server_idle_def server_inv_def linked_def cp example_tables) (simp add: example_transport_def)
  moreover have "PlayerForConnection 1 ?g = Some ?s" by (simp add: PlayerForConnection_def on cp)
  moreover have "\<forall>p q. um_find (online_players ?g) p = Some q \<longrightarrow> on_connection_id q \<in> {1, 2}"
    "\<exists>p q. um_find (online_players ?g) p = Some q \<and> on_connection_id q = 2"
    by (auto simp: on split: if_splits intro: exI[of _ 8])
  moreover have "pr_player_id (on_record ?s) = 7" "pr_nickname (on_record ?s) = ''Nova-1''"
    by (simp_all add: example_at_def example_record_def)
  ultimately show thesis using that[of ?g ?s] g0(2) by simp
qed

text \<open>In the example every connection has room for the message, and a client that reads the frame gets it.\<close>

lemma example_room:
  assumes "transport g = example_transport" "server_idle g" "\<forall>p q. um_find (online_players g) p = Some q \<longrightarrow> on_connection_id q \<in> {1, 2}"
  shows "room_for chat_codec (ChatBroadcast 7 ''Nova-1'' ''hi'') g"
proof -
  have "takes_frame (transport g) [0, 0, 0, 2, 0, 0, 0, 105, 104, 105] c" if "c \<in> {1, 2}" for c
    using that unfolding assms(1) takes_frame_def example_tables
    by (auto simp: example_tcp_def unsent_def) (simp_all add: example_transport_def)
  moreover have "set (player_connections g) \<subseteq> {1, 2}"
    using assms(2,3) player_connections_set[of g] by (auto simp: server_idle_def server_inv_def)
  ultimately show ?thesis
    using chat_frames(2) by (auto simp: room_for_def assms(1)) (simp add: example_transport_def)
qed

lemma example_reads:
  obtains b' where "receive_calls [(0, [(0, \<lambda>_. PollReady (Received [0, 0, 0, 2, 0, 0, 0, 105, 104, 105]))], 5)] example_reader =
    Inr ([\<lparr>message_id = kChatBroadcast, payload = [104, 105]\<rparr>], [0, 0, 0, 2, 0, 0, 0, 105, 104, 105], b')"
  by (simp add: example_reader_def client_Receive_def Connected_def UniqueFd_valid_def int64_def ns_per_ms_def
      whole_ms_def try_decode_def FrameDecoder_Next_def FrameDecoder_BufferedBytes_def kFrameHeaderSize_def
      ReadNetworkUint32_def IsKnownMessageId_def message_ids FrameDecoder_Compact_def FrameDecoder_Append_ptr_def
      empty_frame_def Let_def kDefaultMaxPayloadSize_def)

theorem chat_travels_from_client_to_clients_witness:
  "\<exists>g h b'. ClientReady chat_codec 21 EPOLLIN g = Inr h \<and> server_IsConnected (transport h) 2 \<and>
     receive_calls [(0, [(0, \<lambda>_. PollReady (Received [0, 0, 0, 2, 0, 0, 0, 105, 104, 105]))], 5)] example_reader =
       Inr ([\<lparr>message_id = kChatBroadcast, payload = [104, 105]\<rparr>], [0, 0, 0, 2, 0, 0, 0, 105, 104, 105], b') \<and>
     (\<exists>tail. connection_stream (transport h) 2 = [0, 0, 0, 2, 0, 0, 0, 105, 104, 105] @ tail) \<and>
     ParseProtobufPayload chat_codec \<lparr>message_id = kChatBroadcast, payload = [104, 105]\<rparr> kChatBroadcast kChatBroadcast =
       Some (ChatBroadcast 7 ''Nova-1'' ''hi'')"
proof -
  obtain g :: GameServer and s where g: "server_idle g" "transport g = example_transport" "config g = default_game_config"
    and s: "PlayerForConnection 1 g = Some s" "pr_player_id (on_record s) = 7" "pr_nickname (on_record s) = ''Nova-1''"
    and on: "\<forall>p q. um_find (online_players g) p = Some q \<longrightarrow> on_connection_id q \<in> {1, 2}"
    and bob: "\<exists>p q. um_find (online_players g) p = Some q \<and> on_connection_id q = 2"
    by (rule example_chat_game)
  let ?bytes = "[0, 0, 0, 2, 0, 0, 0, 105, 104, 105] :: byte list" and ?f = "\<lparr>message_id = kChatBroadcast, payload = [104, 105]\<rparr>"
  let ?cl = "\<lparr>client_id = 1, client_connection = example_tcp 21\<rparr>" and ?req = "[0, 0, 0, 2, 0, 0, 0, 2, 104, 105] :: byte list"
  let ?calls = "[(0, [(0, \<lambda>_. PollReady (Received ?bytes))], 5)]"
  have conn: "Connected example_reader" by (simp add: Connected_def example_reader_def UniqueFd_valid_def)
  have send: "client_Send chat_codec [Sent 100] kChatRequest (ChatRequest ''hi'') example_reader = Inr (Some True, ?req)"
    by (simp add: client_Send_def conn chat_frames)
  let ?m = "ChatBroadcast 7 ''Nova-1'' ''hi''"
  have m: "?m = ChatBroadcast (pr_player_id (on_record s)) (pr_nickname (on_record s)) ''hi''" using s(2,3) by simp
  have tables: "um_find (connection_descriptors (transport g)) 1 = Some 21" "um_find (clients (transport g)) 21 = Some ?cl"
    by (simp_all add: g(2) example_tables)
  have tcp: "decoder_wf (tcp_decoder (client_connection ?cl))" "\<not> dec_failed (tcp_decoder (client_connection ?cl))"
      "pending (tcp_decoder (client_connection ?cl)) = []"
      "dec_max_payload_size (tcp_decoder (client_connection ?cl)) = kDefaultMaxPayloadSize"
    by (simp_all add: example_tcp_def decoder_wf_def pending_def kDefaultMaxPayloadSize_def)
  have len: "''hi'' \<noteq> []" "length ''hi'' \<le> gc_maximum_chat_bytes (config g)" by (simp_all add: g(3) default_game_config_def)
  have script: "script_data (os_recv (transport g) 21) = ?req" "script_end (os_recv (transport g) 21) = Some False"
    by (simp_all add: g(2) example_transport_def)
  from chat_travels_from_client_to_clients[OF g(1) tables tcp s(1) len m chat_codec_laws conn send script]
  obtain h where h: "ClientReady chat_codec 21 EPOLLIN g = Inr h" and idle: "server_idle h"
    and out: "\<And>p q. um_find (online_players g) p = Some q \<Longrightarrow> server_IsConnected (transport h) (on_connection_id q) \<Longrightarrow>
       announced chat_codec ?m (transport g) (transport h) (on_connection_id q) \<and>
       received_next chat_codec ?m (transport g) (transport h) (on_connection_id q)"
    and stay: "room_for chat_codec ?m g \<longrightarrow> connection_descriptors (transport h) = connection_descriptors (transport g)"
    by blast
  have stream: "connection_stream (transport g) 2 = []"
    by (simp add: connection_stream_def g(2) example_tables) (simp add: example_transport_def example_tcp_def unsent_def)
  have "connection_descriptors (transport h) = connection_descriptors (transport g)" using stay example_room[OF g(2,1) on] by blast
  then have c2: "server_IsConnected (transport h) 2"
    using idle by (simp add: server_idle_def server_IsConnected_def g(2) example_tables)
  obtain p q where q: "um_find (online_players g) p = Some q" "on_connection_id q = 2" using bob by blast
  have ann: "announced chat_codec ?m (transport g) (transport h) 2" "received_next chat_codec ?m (transport g) (transport h) 2"
    using out[OF q(1)] q(2) c2 by simp_all
  obtain f fs where "?bytes = encode_bytes f" "connection_stream (transport h) 2 = encode_bytes f @ concat (map encode_bytes fs)"
    using ann(1) chat_frames(2) stream by (auto simp: announced_def)
  then obtain tail where tail: "connection_stream (transport h) 2 = ?bytes @ tail" by metis
  obtain b' where calls: "receive_calls ?calls example_reader = Inr ([?f], ?bytes, b')" by (rule example_reads)
  have "ParseProtobufPayload chat_codec ?f kChatBroadcast kChatBroadcast = Some ?m"
    using ann(2)[unfolded received_next_def, rule_format, of "[]" example_reader ?calls "[?f]" ?bytes b' tail]
      stream tail calls example_reader_fresh by simp
  with h c2 calls tail show ?thesis by blast
qed

end
