(* ===== verification/Client_Views.thy ===== *)
theory Client_Views
  imports Delivery
begin

text \<open>
  The mirrors of the clients, over the whole life of a server. The messages that were handed to the transport are kept
  in a log per connection; as long as a connection is in use, its output is exactly the frames of its log, and the mirror
  that a client computes from them shows what its player sees.
\<close>

section \<open>Transports with a log\<close>

type_synonym sent_log = "ConnectionId \<Rightarrow> (MessageType \<times> Message) list"

text \<open>
  \<open>logs t sent\<close> says that \<open>sent\<close> is a log of what has been sent through the transport \<open>t\<close>. A game is \<open>exact\<close> when the mirrors
  computed from such a log are those that the clients should have.
\<close>

definition exact :: "('t \<Rightarrow> sent_log \<Rightarrow> bool) \<Rightarrow> 't GameService \<Rightarrow> bool" where
  "exact logs g \<longleftrightarrow> (\<exists>sent. logs (transport g) sent \<and> synchronised g (\<lambda>c. learn (sent c) Map.empty))"

lemma exact_cong:
  "exact logs g \<Longrightarrow> (\<And>sent. logs (transport g) sent \<Longrightarrow> logs (transport h) sent) \<Longrightarrow> online_players h = online_players g \<Longrightarrow>
     world h = world g \<Longrightarrow> exact logs h"
  unfolding exact_def using synchronised_cong by blast

definition viewed :: "('t \<Rightarrow> bool) \<Rightarrow> ('t \<Rightarrow> sent_log \<Rightarrow> bool) \<Rightarrow> 't GameService \<Rightarrow> bool" where
  "viewed tinv logs g \<longleftrightarrow> tinv (transport g) \<and> exact logs g"

lemma viewed_cong:
  "viewed tinv logs g \<Longrightarrow> transport h = transport g \<Longrightarrow> online_players h = online_players g \<Longrightarrow> world h = world g \<Longrightarrow>
     viewed tinv logs h"
  using exact_cong[of logs g h] by (simp add: viewed_def)

lemma viewed_irrelevant [simp]:
  "viewed tinv logs (g\<lparr>data_service := p\<rparr>) = viewed tinv logs g" "viewed tinv logs (g\<lparr>random_used := n\<rparr>) = viewed tinv logs g"
  "viewed tinv logs (g\<lparr>clock_used := n\<rparr>) = viewed tinv logs g" "viewed tinv logs (g\<lparr>player_sequence := w\<rparr>) = viewed tinv logs g"
  "viewed tinv logs (g\<lparr>pending_accounts := A\<rparr>) = viewed tinv logs g"
  "viewed tinv logs (g\<lparr>pending_connections := pc\<rparr>) = viewed tinv logs g"
  "viewed tinv logs (g\<lparr>connection_players := cp\<rparr>) = viewed tinv logs g"
  by (rule iffI; erule viewed_cong; simp)+

lemma viewed_counters:
  "NewSessionToken g = (tok, g') \<Longrightarrow> viewed tinv logs g' = viewed tinv logs g"
  "unix_time g = (n, g') \<Longrightarrow> viewed tinv logs g' = viewed tinv logs g"
  "NewPlayer a g = (r, g') \<Longrightarrow> viewed tinv logs g' = viewed tinv logs g"
  by (auto simp: NewSessionToken_def random_next_def unix_time_def clock_next_def NewPlayer_def Let_def split: prod.splits)

lemma viewed_abandon: "viewed tinv logs g \<Longrightarrow> viewed tinv logs (abandon_login c a g)"
  by (simp add: abandon_login_def)

locale logging_sender =
  fixes send :: "'t sender" and tinv :: "'t \<Rightarrow> bool" and logs :: "'t \<Rightarrow> sent_log \<Rightarrow> bool"
  assumes send_keeps: "tinv t \<Longrightarrow> tinv (snd (send c ty m t))"
    and send_logged: "tinv t \<Longrightarrow> logs t sent \<Longrightarrow> ty = message_type m \<Longrightarrow>
      logs (snd (send c ty m t)) (sent(c := sent c @ [(ty, m)]))"
begin

abbreviation viewed_game :: "'t GameService \<Rightarrow> bool" where
  "viewed_game \<equiv> viewed tinv logs"

lemma deliver_logged:
  "tinv t \<Longrightarrow> logs t sent \<Longrightarrow> well_typed msgs \<Longrightarrow>
     tinv (deliver send msgs t) \<and> logs (deliver send msgs t) (\<lambda>c. sent c @ messages_to c msgs)"
proof (induction msgs arbitrary: t sent)
  case (Cons msg msgs)
  obtain c ty m where msg: "msg = (c, ty, m)" by (cases msg)
  let ?sent = "sent(c := sent c @ [(ty, m)])"
  have "tinv (deliver send msgs (snd (send c ty m t))) \<and>
      logs (deliver send msgs (snd (send c ty m t))) (\<lambda>c. ?sent c @ messages_to c msgs)"
    using Cons.prems msg by (intro Cons.IH send_keeps send_logged) simp_all
  moreover have "(\<lambda>c'. sent c' @ messages_to c' (msg # msgs)) = (\<lambda>c. ?sent c @ messages_to c msgs)"
    by (auto simp: msg fun_eq_iff)
  ultimately show ?case by (simp add: msg deliver_def)
qed simp

lemma viewed_emits:
  assumes "viewed_game g" "\<And>known. synchronised g known \<Longrightarrow> \<exists>msgs. emits send msgs g h \<and> synchronised h (learn_all msgs known)"
  shows "viewed_game h"
proof -
  obtain sent where sent: "logs (transport g) sent" "synchronised g (\<lambda>c. learn (sent c) Map.empty)"
    using assms(1) by (auto simp: viewed_def exact_def)
  obtain msgs where "emits send msgs g h" "synchronised h (learn_all msgs (\<lambda>c. learn (sent c) Map.empty))"
    using assms(2)[OF sent(2)] by blast
  with deliver_logged[OF _ sent(1), of msgs] assms(1) show ?thesis
    by (auto simp: viewed_def exact_def emits_def learn_all_def intro!: exI[of _ "\<lambda>c. sent c @ messages_to c msgs"])
qed

text \<open>A message that says nothing about the players around.\<close>

lemma viewed_send:
  assumes "viewed_game g" "ty = message_type m" "\<And>k. apply_message m k = k"
  shows "viewed_game (send_message send c ty m g)"
proof (rule viewed_emits[OF assms(1)])
  fix known assume "synchronised g known"
  then have "synchronised (send_message send c ty m g) known" by (rule synchronised_cong) simp_all
  moreover have "learn_all [(c, ty, m)] known = known" using assms(3) by (simp add: learn_all_def fun_eq_iff)
  ultimately show "\<exists>msgs. emits send msgs g (send_message send c ty m g) \<and>
      synchronised (send_message send c ty m g) (learn_all msgs known)"
    using assms(2) by (intro exI[of _ "[(c, ty, m)]"]) (simp add: emits_def deliver_one)
qed

lemma viewed_fold:
  "(\<And>x g. viewed_game g \<Longrightarrow> viewed_game (f x g)) \<Longrightarrow> viewed_game g \<Longrightarrow> viewed_game (fold f xs g)"
  by (induction xs arbitrary: g) auto

lemma viewed_OnDisconnected:
  "game_inv g \<Longrightarrow> viewed_game g \<Longrightarrow> OnDisconnected send c g = Inr h \<Longrightarrow> viewed_game h"
  by (rule viewed_emits[of g]) (auto intro: disconnect_synchronised)

end

text \<open>
  With a transport whose \<open>Disconnect\<close> keeps games exact, as \<open>GameServer\<close> does by calling back \<open>OnDisconnected\<close>, so does every
  handler of the service.
\<close>

locale logging_transport = linked_transport tr tinv openc + logging_sender "Send tr" tinv logs
  for tr :: "'t GameTransport" and tinv openc and logs :: "'t \<Rightarrow> sent_log \<Rightarrow> bool" +
  assumes disconnect_viewed: "game_inv g \<Longrightarrow> linked tinv openc g \<Longrightarrow> viewed tinv logs g \<Longrightarrow> Disconnect tr c g = Inr h \<Longrightarrow>
      viewed tinv logs h"
begin

lemma viewed_FailLogin: "viewed_game g \<Longrightarrow> viewed_game (FailLogin tr c a e g)"
  by (auto simp: FailLogin_def Let_def intro!: viewed_send split: option.splits)

lemma viewed_StoreSession: "viewed_game g \<Longrightarrow> viewed_game (StoreSessionAndFinish tr c r allow g)"
  by (auto simp: StoreSessionAndFinish_def Let_def viewed_FailLogin viewed_abandon
      dest: viewed_counters(1)[of _ _ _ tinv logs] split: prod.splits)

lemma viewed_ContinueLogin:
  assumes "viewed_game g"
  shows "viewed_game (ContinueLogin tr c r tok new g)"
proof -
  obtain n h where u: "unix_time g = (n, h)" by (cases "unix_time g")
  then have "viewed_game h" using assms viewed_counters(2) by blast
  then show ?thesis
    using assms by (auto simp: ContinueLogin_def Let_def u viewed_FailLogin viewed_abandon viewed_StoreSession split: prod.splits)
qed

lemma viewed_on_player_loaded:
  assumes "viewed_game g"
  shows "viewed_game (on_player_loaded tr c a tok res g)"
proof -
  obtain r h where n: "NewPlayer a g = (r, h)" by (cases "NewPlayer a g")
  then have "viewed_game h" using assms viewed_counters(3) by blast
  then show ?thesis
    using assms by (auto simp: on_player_loaded_def Let_def n viewed_FailLogin viewed_abandon viewed_ContinueLogin
        split: prod.splits option.splits bool.splits)
qed

lemma viewed_HandleLogin: "viewed_game g \<Longrightarrow> viewed_game (HandleLogin tr pb c f g)"
  by (auto simp: HandleLogin_def Let_def viewed_FailLogin split: option.splits Message.splits prod.splits)

lemma viewed_HandleChat: "viewed_game g \<Longrightarrow> viewed_game (HandleChat tr pb c f g)"
  by (auto simp: HandleChat_def split: option.splits Message.splits intro!: viewed_fold viewed_send)

lemma viewed_HandleHeartbeat:
  assumes "parses_as_type pb" "viewed_game g"
  shows "viewed_game (HandleHeartbeat tr pb c f g)"
proof (cases "ParseProtobufPayload pb f kHeartbeat kHeartbeat")
  case (Some m)
  then have "message_type m = kHeartbeat"
    using assms(1) by (auto simp: ParseProtobufPayload_def parses_as_type_def split: if_splits)
  then have "m = Heartbeat" by (cases m) (simp_all add: message_ids)
  then show ?thesis using Some assms(2) by (auto simp: HandleHeartbeat_def intro: viewed_send)
qed (use assms in \<open>simp add: HandleHeartbeat_def\<close>)

lemma viewed_FinishLogin:
  assumes inv: "game_inv g" and l: "linked_game g" and v: "viewed_game g" and res: "FinishLogin tr c r tok allow g = Inr g'"
  shows "viewed_game g'"
proof (cases "login_is_dead tr c g")
  case True
  then show ?thesis using v res viewed_abandon by (auto simp: FinishLogin_def Let_def)
next
  case False
  then have pc: "um_contains (pending_connections g) c" by (simp add: login_is_dead_def)
  have enter: "viewed_game g'" if "game_inv h" "viewed_game h" "um_contains (pending_connections h) c"
      "enter_world tr c a r' tok h = Inr g'" for h r' a
    using viewed_emits[OF that(2)] enter_synchronised[OF that(1,3) _ that(4)] by blast
  show ?thesis
  proof (cases "um_find (online_players g) (pr_player_id r)")
    case None
    then show ?thesis using False res enter[OF inv v pc] by (simp add: FinishLogin_def)
  next
    case (Some q)
    show ?thesis
    proof (cases allow)
      case False
      then show ?thesis using Some \<open>\<not> login_is_dead tr c g\<close> res v viewed_FailLogin
        by (auto simp: FinishLogin_def Let_def)
    next
      case True
      then obtain h where h: "Disconnect tr (on_connection_id q) g = Inr h"
          "enter_world tr c (pr_account r) (on_record q) tok h = Inr g'"
        using Some False res by (auto simp: FinishLogin_def Let_def outcome_bind_Inr_iff)
      have "c \<noteq> on_connection_id q"
        using pending_disjoint[OF inv online_connection(3)[OF inv Some]] pc by auto
      then have "game_inv h" "um_contains (pending_connections h) c"
        using Disconnect_keeps[OF inv, of "on_connection_id q"] h(1) pc by auto
      with enter[OF _ disconnect_viewed[OF inv l v h(1)]] h(2) show ?thesis by blast
    qed
  qed
qed

lemma viewed_HandleFrame:
  assumes "parses_as_type pb" "game_inv g" "linked_game g" "viewed_game g" "HandleFrame tr pb c f g = Inr g'"
  shows "viewed_game g'"
proof -
  have "viewed_game g'" if "HandleMove tr pb c f g = Inr g'"
    by (rule viewed_emits[OF assms(4)]) (rule move_synchronised[OF assms(2) _ that])
  then show ?thesis
    using assms(5) viewed_HandleLogin[OF assms(4), of pb c f] viewed_HandleChat[OF assms(4), of pb c f]
      viewed_HandleHeartbeat[OF assms(1,4), of c f] disconnect_viewed[OF assms(2-4)]
    by (auto simp: HandleFrame_def split: if_splits)
qed

lemma viewed_run_completion:
  assumes inv: "game_inv g" and l: "linked_game g" and v: "viewed_game g" and res: "run_completion tr fin g = Inr g'"
  shows "viewed_game g'"
proof (cases "(tr, fin, g)" rule: run_completion.cases)
  case (1 tr' c a tok r g'')
  then show ?thesis using res v viewed_on_player_loaded by auto
next
  case (2 tr' c a r op g'')
  then show ?thesis using res v viewed_ContinueLogin viewed_FailLogin by (auto simp: on_player_saved_def split: if_splits)
next
  case (3 tr' c a r tok newly result g'')
  then show ?thesis using res v viewed_StoreSession viewed_FailLogin by (auto simp: on_session_loaded_def split: if_splits)
next
  case (4 tr' c a r tok allow op g'')
  then show ?thesis using res v viewed_FinishLogin[OF inv l v, of c r tok allow g'] viewed_FailLogin
    by (auto simp: on_session_stored_def split: if_splits)
qed (use res v in auto)

end

section \<open>The log of the server\<close>

text \<open>\<open>encodes pb ms bytes\<close>: the bytes are the frames of the messages \<open>ms\<close>, one after the other.\<close>

definition frame_of :: "protobuf \<Rightarrow> MessageType \<times> Message \<Rightarrow> Frame \<Rightarrow> bool" where
  "frame_of pb msg f \<longleftrightarrow> EncodeProtobufFrame pb (fst msg) (snd msg) kDefaultMaxPayloadSize = Inr (encode_bytes f) \<and>
     valid_frame kDefaultMaxPayloadSize f \<and> message_id f = fst msg \<and> fst msg = message_type (snd msg)"

definition encodes :: "protobuf \<Rightarrow> (MessageType \<times> Message) list \<Rightarrow> byte list \<Rightarrow> bool" where
  "encodes pb ms bytes \<longleftrightarrow> (\<exists>fs. list_all2 (frame_of pb) ms fs \<and> bytes = concat (map encode_bytes fs))"

text \<open>
  A connection in use has put out the frames of its log, and no byte has been taken from a connection that is still to come.
\<close>

definition server_logs :: "protobuf \<Rightarrow> server_transport \<Rightarrow> sent_log \<Rightarrow> bool" where
  "server_logs pb t sent \<longleftrightarrow>
     (\<forall>c. server_IsConnected t c \<longrightarrow> encodes pb (sent c) (connection_stream t c)) \<and>
     (\<forall>c. next_connection_id t < c \<longrightarrow> os_taken t c = [])"

lemma encodes_Nil: "encodes pb [] []"
  by (simp add: encodes_def)

lemma encodes_snoc: "encodes pb ms bytes \<Longrightarrow> frame_of pb msg f \<Longrightarrow> encodes pb (ms @ [msg]) (bytes @ encode_bytes f)"
  unfolding encodes_def
  by (elim exE conjE) (rule_tac x = "fs @ [f]" in exI, simp add: list_all2_appendI)

text \<open>Whatever keeps the output of the connections in use and of those to come.\<close>

lemma server_logs_cong:
  assumes "server_logs pb t sent" "next_connection_id u = next_connection_id t"
    and "\<And>c. server_IsConnected u c \<Longrightarrow> server_IsConnected t c \<and> connection_stream u c = connection_stream t c"
    and "\<And>c. next_connection_id t < c \<Longrightarrow> os_taken u c = os_taken t c"
  shows "server_logs pb u sent"
  using assms by (simp add: server_logs_def)

lemma server_logs_fields:
  assumes "connection_descriptors u = connection_descriptors t" "clients u = clients t" "os_taken u = os_taken t"
    "marked_for_close u = marked_for_close t" "next_connection_id u = next_connection_id t"
  shows "server_logs pb u = server_logs pb t"
proof -
  have "connection_stream u = connection_stream t" by (rule ext, rule connection_stream_cong) (simp_all add: assms)
  then show ?thesis by (simp add: server_logs_def server_IsConnected_def assms fun_eq_iff)
qed

lemma server_logs_irrelevant [simp]:
  "server_logs pb (t\<lparr>os_send := a\<rparr>) = server_logs pb t" "server_logs pb (t\<lparr>os_recv := b\<rparr>) = server_logs pb t"
  "server_logs pb (t\<lparr>os_epoll_ok := f\<rparr>) = server_logs pb t" "server_logs pb (t\<lparr>os_accept := h\<rparr>) = server_logs pb t"
  "server_logs pb (t\<lparr>completion_queue := q\<rparr>) = server_logs pb t" "server_logs pb (t\<lparr>stopped := s\<rparr>) = server_logs pb t"
  "server_logs pb (t\<lparr>wakeup_counter := k\<rparr>) = server_logs pb t" "server_logs pb (t\<lparr>event_loop := l\<rparr>) = server_logs pb t"
  "server_logs pb (t\<lparr>os_table := tab\<rparr>) = server_logs pb t" "server_logs pb (t\<lparr>os_epoll_calls := n\<rparr>) = server_logs pb t"
  by (rule server_logs_fields; simp)+

lemma unused_unconnected:
  assumes "transport_inv X t" "next_connection_id t < c"
  shows "um_find (connection_descriptors t) c = None"
proof (rule ccontr)
  assume "um_find (connection_descriptors t) c \<noteq> None"
  then have "c \<in> open_connections t" by auto
  then have "c \<le> next_connection_id t" using assms(1) unfolding transport_inv_def by blast
  with assms(2) show False by simp
qed

lemma flush_client_more:
  "flush_client d client t = (status, client', t') \<Longrightarrow> next_connection_id t' = next_connection_id t \<and>
     (c \<noteq> client_id client \<longrightarrow> os_taken t' c = os_taken t c)"
  by (auto simp: flush_client_def put_client_def Let_def split: prod.splits)

lemma UpdateInterest_next [simp]: "next_connection_id (UpdateInterest cl t) = next_connection_id t"
  by (auto simp: UpdateInterest_def Let_def mark_for_close_def split: prod.splits)

lemma UpdateInterest_queue [simp]: "completion_queue (UpdateInterest cl t) = completion_queue t"
  by (auto simp: UpdateInterest_def Let_def mark_for_close_def split: prod.splits)

lemma mark_for_close_next [simp]: "next_connection_id (mark_for_close c t) = next_connection_id t" "os_taken (mark_for_close c t) = os_taken t"
  by (simp_all add: mark_for_close_def)

lemma put_client_next [simp]:
  "next_connection_id (put_client d cl conn t) = next_connection_id t" "os_taken (put_client d cl conn t) = os_taken t"
  by (simp_all add: put_client_def)

lemma server_Send_next [simp]: "next_connection_id (snd (server_Send pb c ty m t)) = next_connection_id t"
  by (auto simp: server_Send_def Let_def dest!: flush_client_more split: option.splits sum.splits prod.splits)

lemma server_Send_taken:
  assumes "transport_inv X t" "um_find (connection_descriptors t) c' = None"
  shows "os_taken (snd (server_Send pb c ty m t)) c' = os_taken t c'"
proof (cases "c' = c")
  case True
  then show ?thesis using assms(2) by (simp add: server_Send_def)
next
  case False
  from server_Send_stream(2)[OF assms(1) refl this] assms(2) show ?thesis by (simp add: connection_stream_def)
qed

lemma server_Send_logged:
  assumes inv: "transport_inv X t" and sent: "server_logs pb t sent" and ty: "ty = message_type m"
  shows "server_logs pb (snd (server_Send pb c ty m t)) (sent(c := sent c @ [(ty, m)]))"
proof -
  let ?u = "snd (server_Send pb c ty m t)"
  note s = server_Send_stream[OF inv refl]
  have old: "encodes pb (sent c') (connection_stream t c')" if "server_IsConnected ?u c'" for c'
    using that sent s(1)[of pb c ty m] by (auto simp: server_logs_def server_IsConnected_def)
  have "encodes pb ((sent(c := sent c @ [(ty, m)])) c') (connection_stream ?u c')" if c': "server_IsConnected ?u c'" for c'
  proof (cases "c' = c")
    case True
    obtain f where "frame_of pb (ty, m) f" "connection_stream ?u c = connection_stream t c @ encode_bytes f"
      using s(3)[of pb c ty m] c' ty True by (auto simp: frame_of_def)
    with encodes_snoc old[OF c'] True show ?thesis by simp
  next
    case False
    then show ?thesis using s(2)[OF False, of pb ty m] old[OF c'] by simp
  qed
  moreover have "os_taken ?u c' = []" if "next_connection_id t < c'" for c'
    using server_Send_taken[OF inv unused_unconnected[OF inv that]] sent that by (simp add: server_logs_def)
  ultimately show ?thesis by (simp add: server_logs_def)
qed

interpretation server_sender: logging_sender "server_Send pb" "transport_inv X" "server_logs pb" for pb X
  by unfold_locales (simp_all add: server_Send_inv server_Send_logged)

abbreviation server_viewed :: "protobuf \<Rightarrow> GameServer \<Rightarrow> bool" where
  "server_viewed pb \<equiv> viewed (transport_inv {}) (server_logs pb)"

lemma exact_transport:
  "exact (server_logs pb) g \<Longrightarrow> (\<And>sent. server_logs pb (transport g) sent \<Longrightarrow> server_logs pb t sent) \<Longrightarrow>
     exact (server_logs pb) (g\<lparr>transport := t\<rparr>)"
  by (erule exact_cong) simp_all

lemma server_logs_forget:
  assumes inv: "transport_inv X t" and c: "um_find (connection_descriptors t) c = Some d" and sent: "server_logs pb t sent"
  shows "server_logs pb (forget_connection c d t) sent"
proof (rule server_logs_cong[OF sent])
  let ?u = "forget_connection c d t"
  have inj: "um_find (connection_descriptors t) c' = Some d \<Longrightarrow> c' = c" for c'
    using inv c tables_linked_inj by (metis transport_inv_def)
  fix c'
  assume u: "server_IsConnected ?u c'"
  then have "c' \<noteq> c" "server_IsConnected t c'"
    by (auto simp: server_IsConnected_def forget_connection_def erase_client_def Let_def split: if_splits)
  then show "server_IsConnected t c' \<and> connection_stream ?u c' = connection_stream t c'"
    using inj by (auto intro!: connection_stream_cong simp: forget_connection_def erase_client_def Let_def)
qed (simp_all add: forget_connection_def erase_client_def Let_def)

lemma CloseConnection_exact:
  assumes inv: "game_inv g" and t: "transport_inv X (transport g)"
    and X: "X \<subseteq> set_option (um_find (connection_descriptors (transport g)) c)"
    and v: "exact (server_logs pb) g" and res: "CloseConnection pb c g = Inr h"
  shows "exact (server_logs pb) h"
proof (cases "um_find (connection_descriptors (transport g)) c")
  case None
  then have "h = at_transport (\<lambda>t. t\<lparr>marked_for_close := marked_for_close t - {c}\<rparr>) g"
    using res by (simp add: CloseConnection_def)
  moreover have "marked_for_close (transport g) - {c} = marked_for_close (transport g)"
    using t None by (auto simp: transport_inv_def)
  ultimately show ?thesis using v by simp
next
  case (Some d)
  let ?g1 = "at_transport (\<lambda>t. t\<lparr>event_loop := EventLoop_Remove d (event_loop t)\<rparr>) g"
  obtain h1 where h1: "OnDisconnected (server_Send pb) c ?g1 = Inr h1" "h = at_transport (forget_connection c d) h1"
    using res Some by (auto simp: CloseConnection_def outcome_bind_Inr_iff)
  have "viewed (transport_inv {d}) (server_logs pb) ?g1"
    using transport_inv_Remove[OF t, of d] X Some exact_transport[OF v] by (simp add: viewed_def)
  from server_sender.viewed_OnDisconnected[OF _ this h1(1)] inv
  have h1v: "transport_inv {d} (transport h1)" "exact (server_logs pb) h1" by (simp_all add: viewed_def)
  have "um_find (connection_descriptors (transport h1)) c = Some d"
    using OnDisconnected_transport[of "\<lambda>t u. connection_descriptors u = connection_descriptors t" "server_Send pb" c ?g1 h1] h1(1) Some
    by simp
  from server_logs_forget[OF h1v(1) this] exact_transport[OF h1v(2)] show ?thesis unfolding h1(2) by simp
qed

interpretation server_view: logging_transport "server_transport_ops pb" "transport_inv {}" open_connections "server_logs pb" for pb
proof
  fix g h :: GameServer and c
  assume g: "game_inv g" "linked (transport_inv {}) open_connections g" "viewed (transport_inv {}) (server_logs pb) g"
    and h: "Disconnect (server_transport_ops pb) c g = Inr h"
  then show "viewed (transport_inv {}) (server_logs pb) h"
    using CloseConnection_exact[OF g(1), of "{}" c pb h] CloseConnection_linked[OF g(1,2), of c pb h]
    by (simp add: viewed_def server_transport_ops_def linked_def)
qed (simp_all add: server_transport_ops_def server_Send_inv server_Send_logged)

section \<open>The callbacks of the server\<close>

definition server_exact :: "protobuf \<Rightarrow> GameServer \<Rightarrow> bool" where
  "server_exact pb g \<longleftrightarrow> server_inv g \<and> exact (server_logs pb) g"

lemma server_exactD:
  assumes "server_exact pb g"
  shows "server_inv g" "game_inv g" "linked (transport_inv {}) open_connections g" "transport_inv {} (transport g)"
    "exact (server_logs pb) g" "viewed (transport_inv {}) (server_logs pb) g"
  using assms by (simp_all add: server_exact_def server_invD viewed_def)

lemma server_exact_transport:
  "server_exact pb g \<Longrightarrow> transport_inv {} t \<Longrightarrow> open_connections t = open_connections (transport g) \<Longrightarrow>
     (\<And>sent. server_logs pb (transport g) sent \<Longrightarrow> server_logs pb t sent) \<Longrightarrow> server_exact pb (g\<lparr>transport := t\<rparr>)"
  using server_inv_transport[of g t] exact_transport[of pb g t] by (simp add: server_exact_def)

lemma CloseConnection_keeps_exact:
  "server_exact pb g \<Longrightarrow> CloseConnection pb c g = Inr h \<Longrightarrow> server_exact pb h"
  using CloseConnection_exact[of g "{}" c pb h] CloseConnection_inv[of g pb c] by (auto simp: server_exact_def server_invD)

lemma CloseMarked_exact:
  "server_exact pb g \<Longrightarrow> CloseMarkedConnections pb g = Inr h \<Longrightarrow> server_exact pb h"
proof (induction pb g rule: CloseMarkedConnections.induct)
  case (1 pb g)
  show ?case
  proof (cases "marked_for_close (transport g) = {}")
    case True
    then show ?thesis using "1.prems" by (simp add: CloseMarkedConnections.simps[of pb g])
  next
    case False
    then obtain k where k: "CloseConnection pb (Min (marked_for_close (transport g))) g = Inr k" "CloseMarkedConnections pb k = Inr h"
      using "1.prems"(2) by (auto simp: CloseMarkedConnections.simps[of pb g] outcome_bind_Inr_iff)
    then show ?thesis using "1.IH"[OF False k(1) CloseConnection_keeps_exact[OF "1.prems"(1) k(1)]] by simp
  qed
qed

lemma handle_frames_exact:
  assumes "parses_as_type pb"
  shows "server_exact pb g \<Longrightarrow> handle_frames pb c fs g = Inr h \<Longrightarrow> server_exact pb h"
proof (induction fs arbitrary: g)
  case (Cons f fs)
  show ?case
  proof (cases "server_IsConnected (transport g) c")
    case True
    then obtain k where k: "HandleFrame (server_transport_ops pb) pb c f g = Inr k" "handle_frames pb c fs k = Inr h"
      using Cons.prems(2) by (auto simp: outcome_bind_Inr_iff)
    have "server_exact pb k"
      using HandleFrame_server_inv[OF server_exactD(1)[OF Cons.prems(1)] True k(1)]
        server_view.viewed_HandleFrame[OF assms server_exactD(2,3,6)[OF Cons.prems(1)] k(1)]
      by (simp add: server_exact_def viewed_def)
    with Cons.IH k(2) show ?thesis by blast
  qed (use Cons in simp)
qed simp

lemma run_completion_exact:
  assumes "server_exact pb g" "run_completion (server_transport_ops pb) fin g = Inr h"
  shows "server_exact pb h"
  using run_completion_inv[OF server_exactD(1)[OF assms(1)] assms(2)]
    server_view.viewed_run_completion[OF server_exactD(2,3,6)[OF assms(1)] assms(2)]
  by (simp add: server_exact_def viewed_def)

lemma Drain_exact:
  "server_exact pb g \<Longrightarrow> Drain n k (run_completion (server_transport_ops pb)) q g = Inr (k', q', h) \<Longrightarrow> server_exact pb h"
proof (induction n k "run_completion (server_transport_ops pb)" q g rule: Drain.induct)
  case (1 n k q g)
  show ?case
  proof (cases "Drain_pop n k q")
    case None
    then show ?thesis using "1.prems" by (subst (asm) Drain.simps) simp
  next
    case (Some r)
    obtain fin q2 where r: "r = (fin, q2)" by (cases r)
    then obtain g2 where "run_completion (server_transport_ops pb) fin g = Inr g2"
        "Drain n (Suc k) (run_completion (server_transport_ops pb)) q2 g2 = Inr (k', q', h)"
      using Some "1.prems"(2) by (subst (asm) Drain.simps) (auto simp: outcome_bind_Inr_iff)
    with "1.hyps"[OF Some, of fin q2 g2] run_completion_exact[OF "1.prems"(1)] r show ?thesis by blast
  qed
qed

text \<open>Reading and flushing: the output of every connection stays the same.\<close>

lemma server_logs_read:
  assumes "um_find (clients t) d = Some cl" "unsent conn = unsent (client_connection cl)"
    "tcp_maximum_pending_bytes conn = tcp_maximum_pending_bytes (client_connection cl)" "server_logs pb t sent"
  shows "server_logs pb (put_client d cl conn (t\<lparr>os_recv := rs\<rparr>)) sent"
  by (rule server_logs_cong[OF assms(4)])
    (simp_all add: read_output[OF assms(1-3)] server_IsConnected_def)

lemma server_logs_mark: "server_logs pb t sent \<Longrightarrow> server_logs pb (mark_for_close c t) sent"
  by (erule server_logs_cong) (auto simp: server_IsConnected_def)

lemma server_logs_UpdateInterest: "server_logs pb t sent \<Longrightarrow> server_logs pb (UpdateInterest cl t) sent"
  using subsetD[OF UpdateInterest_output(2)[of t cl]] by (elim server_logs_cong) (auto simp: server_IsConnected_def)

lemma server_logs_flush:
  assumes inv: "transport_inv {} t" and cl: "um_find (clients t) d = Some cl" and f: "flush_client d cl t = (status, cl2, t2)"
    and sent: "server_logs pb t sent"
  shows "server_logs pb t2 sent"
proof -
  have c: "um_find (connection_descriptors t) (client_id cl) = Some d" "output_ok (client_connection cl)"
    and inj: "um_find (connection_descriptors t) c' = Some d \<Longrightarrow> c' = client_id cl" for c'
    using inv cl by (auto simp: transport_inv_def tables_linked_def client_ok_def)
  have "connection_stream t2 c' = connection_stream t c'" for c'
    by (rule flush_client_stream[OF c(1) refl c(2) inj cl f])
  moreover have "os_taken t2 c' = os_taken t c'" if "next_connection_id t < c'" for c'
    using flush_client_more[OF f, of c'] unused_unconnected[OF inv that] c(1) by auto
  ultimately show ?thesis
    using flush_client_fields[OF f] flush_client_more[OF f]
    by (intro server_logs_cong[OF sent]) (auto simp: server_IsConnected_def)
qed

lemma read_client_exact:
  assumes pb: "parses_as_type pb" and g: "server_exact pb g" and cl: "um_find (clients (transport g)) d = Some cl"
    and res: "read_client pb d cl close g = Inr (close', h)"
  shows "server_exact pb h"
proof -
  obtain st fs conn rest where r: "ReadAvailable (os_recv (transport g) d) (client_connection cl) = Inr (st, fs, conn, rest)"
    using res by (auto simp: read_client_def outcome_bind_Inr_iff)
  let ?t = "put_client d cl conn ((transport g)\<lparr>os_recv := (os_recv (transport g))(d := rest)\<rparr>)"
  obtain dec where conn: "conn = (client_connection cl)\<lparr>tcp_decoder := dec\<rparr>" using ReadAvailable_fields[OF r] by blast
  have "client_ok (transport g) d cl" using server_exactD(4)[OF g] cl by (simp add: transport_inv_def)
  then have "transport_inv {} ?t"
    using server_exactD(4)[OF g] cl conn by (intro transport_inv_put[of _ _ d cl]) (auto simp: client_ok_def)
  then have "server_exact pb (g\<lparr>transport := ?t\<rparr>)"
    using server_logs_read[OF cl, of conn pb] conn by (intro server_exact_transport[OF g]) (simp_all add: unsent_def)
  then show ?thesis
    using res r handle_frames_exact[OF pb, of "g\<lparr>transport := ?t\<rparr>" "client_id cl"]
    by (auto simp: read_client_def Let_def outcome_bind_Inr_iff)
qed

lemma finish_ready_exact:
  assumes g: "server_exact pb g" and c: "server_IsConnected (transport g) c" and res: "finish_ready pb d c events close g = Inr h"
  shows "server_exact pb h"
proof -
  note t = server_exactD(4)[OF g]
  have mark: "server_exact pb (g\<lparr>transport := mark_for_close c u\<rparr>)"
    if "transport_inv {} u" "connection_descriptors u = connection_descriptors (transport g)"
      "\<And>sent. server_logs pb (transport g) sent \<Longrightarrow> server_logs pb u sent" for u
    using transport_inv_mark[OF that(1), of c] that(2,3) c
    by (intro server_exact_transport[OF g] server_logs_mark) (auto simp: server_IsConnected_def)
  show ?thesis
  proof (cases "um_find (clients (transport g)) d")
    case None
    then show ?thesis
      using CloseMarked_exact[OF mark[OF t]] CloseMarked_exact[OF g] res by (auto simp: finish_ready_def Let_def split: if_splits)
  next
    case (Some cl)
    have upd: "server_exact pb (g\<lparr>transport := UpdateInterest cl' u\<rparr>)"
      if "transport_inv {} u" "connection_descriptors u = connection_descriptors (transport g)"
        "client_id cl' = client_id cl" "\<And>sent. server_logs pb (transport g) sent \<Longrightarrow> server_logs pb u sent" for u cl'
    proof -
      have "um_contains (connection_descriptors u) (client_id cl')"
        using t Some that(2,3) unfolding transport_inv_def tables_linked_def by auto
      from transport_inv_UpdateInterest[OF that(1) this] that(2,4) show ?thesis
        by (intro server_exact_transport[OF g] server_logs_UpdateInterest) simp_all
    qed
    obtain status cl2 t2 where f: "flush_client d cl (transport g) = (status, cl2, t2)" by (rule prod_cases3)
    have ok: "client_ok (transport g) d cl" using t Some by (simp add: transport_inv_def)
    have t2: "transport_inv {} t2" "client_id cl2 = client_id cl"
      using flush_client_inv[OF t Some refl _ _ _ f] ok by (auto simp: client_ok_def)
    have d2: "connection_descriptors t2 = connection_descriptors (transport g)" using flush_client_fields[OF f] by simp
    note logs2 = server_logs_flush[OF t Some f]
    show ?thesis
      using CloseMarked_exact[OF mark[OF t2(1) d2 logs2]] CloseMarked_exact[OF upd[OF t2(1) d2 t2(2) logs2]]
        CloseMarked_exact[OF mark[OF t]] CloseMarked_exact[OF upd[OF t, of cl]] res Some
      by (auto simp: finish_ready_def Let_def f split: if_splits)
  qed
qed

lemma ClientReady_exact:
  assumes pb: "parses_as_type pb" and g: "server_exact pb g" and res: "ClientReady pb d events g = Inr h"
  shows "server_exact pb h"
proof (cases "um_find (clients (transport g)) d")
  case None
  then show ?thesis using g res by (simp add: ClientReady_def)
next
  case (Some cl)
  let ?close = "events AND (EPOLLERR OR EPOLLHUP) \<noteq> 0"
  obtain close g1 where g1: "(if events AND EPOLLIN \<noteq> 0 then read_client pb d cl ?close g else Inr (?close, g)) = Inr (close, g1)"
      "(if \<not> server_IsConnected (transport g1) (client_id cl) then CloseMarkedConnections pb g1
        else finish_ready pb d (client_id cl) events close g1) = Inr h"
    using res Some by (auto simp: ClientReady_def Let_def outcome_bind_Inr_iff)
  have "server_exact pb g1"
    using g1(1) g read_client_exact[OF pb g Some, of ?close close g1] by (auto split: if_splits)
  then show ?thesis
    using g1(2) CloseMarked_exact[of pb g1 h] finish_ready_exact[of pb g1 "client_id cl" d events close h]
    by (auto split: if_splits)
qed

section \<open>Accepting\<close>

lemma server_logs_accept:
  assumes inv: "transport_inv {} t" and d: "acceptable d t" and conn: "TcpConnection_new d n = Inr conn"
    and k: "k = \<lparr>client_id = next_connection_id t + 1, client_connection = conn\<rparr>" and sent: "server_logs pb t sent"
  shows "server_logs pb (accepted_transport d k l t) (sent(client_id k := []))"
proof -
  let ?u = "accepted_transport d k l t" and ?c = "next_connection_id t + 1"
  have later: "next_connection_id t < ?c" using d next_id_fresh[of "next_connection_id t"] by (simp add: acceptable_def)
  have free: "um_find (clients t) d = None" using inv d by (auto simp: transport_inv_def acceptable_def)
  then have u: "um_find (clients ?u) = (um_find (clients t))(d \<mapsto> k)" "os_taken ?u = os_taken t"
      "um_find (connection_descriptors ?u) = (um_find (connection_descriptors t))(?c \<mapsto> d)"
      "marked_for_close ?u = marked_for_close t" "next_connection_id ?u = ?c"
    by (simp_all add: accepted_transport_def k)
  have id: "client_id k = ?c" "client_connection k = conn" by (simp_all add: k)
  have "encodes pb ((sent(client_id k := [])) c') (connection_stream ?u c')" if c': "server_IsConnected ?u c'" for c'
  proof (cases "c' = ?c")
    case True
    have "unsent conn = []" using conn by (auto simp: TcpConnection_new_def outcome_bind_Inr_iff unsent_def split: if_splits)
    moreover have "os_taken t ?c = []" using sent later by (simp add: server_logs_def)
    ultimately show ?thesis using True encodes_Nil by (simp add: connection_stream_def u id)
  next
    case False
    then have c: "server_IsConnected t c'" using c' by (simp add: server_IsConnected_def u)
    have "um_find (connection_descriptors t) c' \<noteq> Some d"
      using inv free by (auto simp: transport_inv_def tables_linked_def)
    then have "connection_stream ?u c' = connection_stream t c'"
      using False by (intro connection_stream_cong) (auto simp: u)
    then show ?thesis using False c sent by (simp add: server_logs_def id)
  qed
  moreover have "os_taken t c' = []" if "?c < c'" for c'
    using sent less_trans[OF later that] by (simp add: server_logs_def)
  ultimately show ?thesis by (simp add: server_logs_def u)
qed

lemma accept_one_exact:
  assumes g: "server_exact pb g" and d: "acceptable d (transport g)" and res: "accept_one pb d g = Inr h"
  shows "server_exact pb h"
proof -
  note t = server_exactD(4)[OF g]
  from t d res have "exact (server_logs pb) h"
  proof (cases rule: accept_one_cases)
    case full
    then show ?thesis using exact_transport[OF server_exactD(5)[OF g]] by simp
  next
    case (connected conn k added l)
    let ?t = "accepted_transport d k l (transport g)" and ?c = "next_connection_id (transport g) + 1"
    obtain sent where sent: "server_logs pb (transport g) sent" "synchronised g (\<lambda>c. learn (sent c) Map.empty)"
      using server_exactD(5)[OF g] by (auto simp: exact_def)
    have "on_connection_id q \<noteq> ?c" if "um_find (online_players g) p = Some q" for p q
      using online_connection(3)[OF server_exactD(2)[OF g] that] fresh_connection[OF t d] server_exactD(3)[OF g]
      by (auto simp: linked_def)
    then have "synchronised g (\<lambda>c. learn ((sent(client_id k := [])) c) Map.empty)"
      using sent(2) connected(2) by (auto simp: synchronised_def)
    then have "synchronised (g\<lparr>transport := ?t\<rparr>) (\<lambda>c. learn ((sent(client_id k := [])) c) Map.empty)"
      by (rule synchronised_cong) simp_all
    with server_logs_accept[OF t d connected(1,2) sent(1), of l]
    have e: "exact (server_logs pb) (g\<lparr>transport := ?t\<rparr>)" unfolding exact_def by (intro exI[of _ "sent(client_id k := [])"]) simp
    show ?thesis
    proof (cases added)
      case True
      then show ?thesis using e connected(4) by simp
    next
      case False
      have c: "um_find (connection_descriptors ?t) (client_id k) = Some d" by (simp add: accepted_transport_def)
      have "CloseConnection pb (client_id k) (g\<lparr>transport := ?t\<rparr>) = Inr h" using False connected(4) by simp
      from CloseConnection_exact[OF _ _ _ e this, of "{d}"] connected(3) False c server_exactD(2)[OF g] show ?thesis by simp
    qed
  qed
  then show ?thesis using accept_one_inv[OF server_exactD(1)[OF g] d res] by (simp add: server_exact_def)
qed

lemma accept_loop_exact:
  "server_exact pb g \<Longrightarrow> kernel_accepts pb rs g \<Longrightarrow> accept_loop pb rs g = Inr h \<Longrightarrow> server_exact pb h"
proof (induction pb rs g rule: accept_loop.induct)
  case (5 pb d rs g)
  then obtain h1 where h1: "accept_one pb d g = Inr h1" "accept_loop pb rs h1 = Inr h"
    by (auto simp: outcome_bind_Inr_iff)
  then have "server_exact pb h1" "kernel_accepts pb rs h1"
    using accept_one_exact[OF "5.prems"(1) _ h1(1)] "5.prems"(2) by auto
  with "5.IH"[OF h1(1)] h1(2) show ?case by blast
qed (auto intro!: server_exact_transport dest: server_exactD(4))

section \<open>The running server\<close>

lemma WakeupReady_exact:
  assumes "server_exact pb g" "WakeupReady pb is g = Inr h"
  shows "server_exact pb h"
proof -
  let ?g = "g\<lparr>transport := (transport g)\<lparr>wakeup_counter := Consume is (wakeup_counter (transport g))\<rparr>\<rparr>"
  obtain k q g1 where d: "Drain (2 ^ 64 - 1) 0 (run_completion (server_transport_ops pb))
        (completion_queue (transport ?g)) ?g = Inr (k, q, g1)"
      "CloseMarkedConnections pb (g1\<lparr>transport := (transport g1)\<lparr>completion_queue := q\<rparr>\<rparr>) = Inr h"
    using assms(2) unfolding WakeupReady_def Let_def outcome_bind_Inr_iff by auto
  have "server_exact pb ?g" using server_exactD(4)[OF assms(1)] by (intro server_exact_transport[OF assms(1)]) simp_all
  then have g1: "server_exact pb g1" using Drain_exact d(1) by blast
  then have "server_exact pb (g1\<lparr>transport := (transport g1)\<lparr>completion_queue := q\<rparr>\<rparr>)"
    using server_exactD(4)[OF g1] by (intro server_exact_transport[OF g1]) simp_all
  from CloseMarked_exact[OF this d(2)] show ?thesis .
qed

lemma server_step_exact:
  assumes "parses_as_type pb" "server_step pb g h" "server_exact pb g"
  shows "server_exact pb h"
  using assms(2,3)
proof (induction rule: server_step.induct)
  case (dispatch g d cb events h)
  show ?case
  proof (cases cb)
    case StopCallback
    then show ?thesis
      using dispatch(3) server_exactD(4)[OF dispatch(4)] server_exact_transport[OF dispatch(4)] by auto
  next
    case AcceptCallback
    then show ?thesis using accept_loop_exact[OF dispatch(4)] dispatch(2,3) by (auto simp: AcceptReady_def)
  next
    case WakeupCallback
    then show ?thesis using WakeupReady_exact[OF dispatch(4)] dispatch(3) by auto
  next
    case (ClientCallback d)
    then show ?thesis using ClientReady_exact[OF assms(1) dispatch(4)] dispatch(3) by auto
  qed
next
  case (pool g p)
  then show ?case
    using exact_cong[OF server_exactD(5)[OF pool], of "g\<lparr>data_service := p\<rparr>"] by (simp add: server_exact_def server_inv_def)
next
  case (stop g)
  then show ?case using server_exactD(4)[OF stop] server_Stop_inv
    by (intro server_exact_transport[OF stop]) (simp_all add: server_Stop_def Let_def)
qed (auto intro!: server_exact_transport dest: server_exactD(4))

lemma GameServer_new_exact:
  assumes new: "GameServer_new so cfg draws clock = Inr g"
    and small: "unat (rows (gc_aoi (sc_game cfg))) * unat (columns (gc_aoi (sc_game cfg))) < 2 ^ 63"
  shows "server_exact pb g"
proof -
  have "um_find (connection_descriptors (transport g)) = Map.empty" "os_taken (transport g) = (\<lambda>_. [])"
      "um_find (online_players g) = Map.empty"
    using new by (auto simp: GameServer_new_def GameService_new_def outcome_bind_Inr_iff Let_def case_prod_unfold split: if_splits)
  then have "exact (server_logs pb) g"
    by (auto simp: exact_def server_logs_def server_IsConnected_def synchronised_def)
  then show ?thesis using GameServer_new_idle[OF assms] by (simp add: server_exact_def server_idle_def)
qed

interpretation server_views: step_invariant
  "\<lambda>g. \<exists>so cfg draws clock. unat (rows (gc_aoi (sc_game cfg))) * unat (columns (gc_aoi (sc_game cfg))) < 2 ^ 63 \<and>
     GameServer_new so cfg draws clock = Inr g"
  "\<lambda>g h. parses_as_type pb \<and> server_step pb g h" "server_exact pb" for pb
  by unfold_locales (auto intro: GameServer_new_exact server_step_exact)

section \<open>What a client computes from its frames\<close>

text \<open>A client that parses each frame as the message its identifier says and applies it to its mirror.\<close>

definition mirror_frame :: "protobuf \<Rightarrow> Frame \<Rightarrow> mirror \<Rightarrow> mirror" where
  "mirror_frame pb f k =
     (case ParseProtobufPayload pb f (message_id f) (message_id f) of None \<Rightarrow> k | Some m \<Rightarrow> apply_message m k)"

definition client_mirror :: "protobuf \<Rightarrow> Frame list \<Rightarrow> mirror" where
  "client_mirror pb frames = fold (mirror_frame pb) frames Map.empty"

text \<open>The library parses the message back from the frame it was put into; \<open>codec_law\<close> implies it.\<close>

definition parses_back :: "protobuf \<Rightarrow> Message \<Rightarrow> bool" where
  "parses_back pb m \<longleftrightarrow>
     (\<forall>f. EncodeProtobufFrame pb (message_type m) m kDefaultMaxPayloadSize = Inr (encode_bytes f) \<and>
        valid_frame kDefaultMaxPayloadSize f \<longrightarrow>
        ParseProtobufPayload pb f (message_type m) (message_type m) = Some m)"

lemma codec_law_parses_back: "codec_law pb m \<Longrightarrow> parses_back pb m"
  using encoded_frame_parses by (auto simp: parses_back_def)

lemma mirror_of_frames:
  assumes "list_all2 (frame_of pb) ms fs" "\<forall>msg \<in> set ms. parses_back pb (snd msg)"
  shows "fold (mirror_frame pb) fs k = learn ms k"
  using assms
proof (induction ms fs arbitrary: k rule: list_all2_induct)
  case (Cons msg ms f fs)
  have "ParseProtobufPayload pb f (message_id f) (message_id f) = Some (snd msg)"
    using Cons.hyps(1) Cons.prems by (auto simp: frame_of_def parses_back_def)
  then show ?case using Cons by (simp add: mirror_frame_def)
qed simp

lemma received_mirror:
  assumes "encodes pb ms (bytes @ unread)" "\<forall>msg \<in> set ms. parses_back pb (snd msg)"
    and "fresh_client b" "receive_calls calls b = Inr (frames, bytes, b')"
  shows "length frames \<le> length ms \<and> client_mirror pb frames = learn (take (length frames) ms) Map.empty"
proof -
  obtain fs where fs: "list_all2 (frame_of pb) ms fs" "bytes @ unread = concat (map encode_bytes fs)"
    using assms(1) by (auto simp: encodes_def)
  have "list_all (valid_frame kDefaultMaxPayloadSize) fs"
    using fs(1) by (auto simp: list_all_iff frame_of_def list_all2_conv_all_nth in_set_conv_nth)
  from received_frames[OF assms(3,4) fs(2) this] obtain later where later: "fs = frames @ later" by blast
  then have "list_all2 (frame_of pb) (take (length frames) ms) frames"
    using list_all2_takeI[OF fs(1), of "length frames"] by simp
  moreover have "length frames \<le> length ms" using list_all2_lengthD[OF fs(1)] later by simp
  ultimately show ?thesis
    using mirror_of_frames assms(2) unfolding client_mirror_def by (metis in_set_takeD)
qed

section \<open>Every client mirrors the world\<close>

text \<open>
  C2: At every moment of a run of the server, whatever events, answers of the kernel, completions and \<open>Stop\<close> calls have led to it,
  every online player's connection has put out the frames of a list of messages from which a client computes exactly what its
  player sees: everyone in the surrounding cells, with name and current position, and nobody else. The client at the other end,
  however it calls \<open>Receive\<close>, has after each frame the mirror that those messages give up to there, and with the last frame the
  view itself.
\<close>

theorem clients_mirror_the_world:
  assumes "GameServer_new so cfg draws clock = Inr g0"
    and "unat (rows (gc_aoi (sc_game cfg))) * unat (columns (gc_aoi (sc_game cfg))) < 2 ^ 63"
    and "parses_as_type pb" and "(server_step pb)\<^sup>*\<^sup>* g0 g"
    and "um_find (online_players g) p = Some q"
  shows "\<exists>ms. encodes pb ms (connection_stream (transport g) (on_connection_id q)) \<and> learn ms Map.empty = client_view g p \<and>
    ((\<forall>msg \<in> set ms. parses_back pb (snd msg)) \<longrightarrow>
     (\<forall>b calls frames bytes b' unread. fresh_client b \<and> receive_calls calls b = Inr (frames, bytes, b') \<and>
        connection_stream (transport g) (on_connection_id q) = bytes @ unread \<longrightarrow>
        length frames \<le> length ms \<and> client_mirror pb frames = learn (take (length frames) ms) Map.empty \<and>
        (length frames = length ms \<longrightarrow> client_mirror pb frames = client_view g p)))"
proof -
  have "(\<lambda>g h. parses_as_type pb \<and> server_step pb g h)\<^sup>*\<^sup>* g0 g" using assms(3,4) by simp
  from server_views.reachable_inv[OF _ this] assms(1,2) have g: "server_exact pb g" by blast
  from server_sys.reachable_inv[OF _ assms(4)] assms(1,2) have "server_idle g" by blast
  then have c: "server_IsConnected (transport g) (on_connection_id q)"
    using online_connection(3)[OF server_exactD(2)[OF g] assms(5)] server_exactD(3)[OF g]
    by (auto simp: linked_def server_IsConnected_def server_idle_def)
  obtain sent where sent: "server_logs pb (transport g) sent" "synchronised g (\<lambda>c. learn (sent c) Map.empty)"
    using server_exactD(5)[OF g] by (auto simp: exact_def)
  let ?ms = "sent (on_connection_id q)"
  have ms: "encodes pb ?ms (connection_stream (transport g) (on_connection_id q))" "learn ?ms Map.empty = client_view g p"
    using sent c assms(5) by (simp_all add: server_logs_def synchronised_def)
  then show ?thesis
    using received_mirror[of pb ?ms] by (intro exI[of _ ?ms]) fastforce
qed

section \<open>An example\<close>

text \<open>A codec for a fixed list of messages, each written as one byte; it refuses to write any other.\<close>

definition listed_codec :: "(Message \<times> byte) list \<Rightarrow> protobuf" where
  "listed_codec L = \<lparr>ByteSizeLong = (\<lambda>_. 1), SerializeToArray = (\<lambda>m _. map_option (\<lambda>b. [b]) (map_of L m)),
     ParseFromArray = (\<lambda>kind bytes. map_option fst (List.find (\<lambda>(m, b). message_type m = kind \<and> bytes = [b]) L))\<rparr>"

lemma listed_codec_typed: "parses_as_type (listed_codec L)"
  by (auto simp: parses_as_type_def listed_codec_def find_Some_iff)

lemma listed_codec_back:
  assumes "distinct (map snd L)"
  shows "parses_back (listed_codec L) m"
proof (cases "map_of L m")
  case None
  then show ?thesis by (auto simp: parses_back_def EncodeProtobufFrame_def listed_codec_def Let_def split: if_splits)
next
  case (Some b)
  have "List.find (\<lambda>(m', b'). message_type m' = message_type m \<and> [b] = [b']) L = Some (m, b)"
    using assms Some
  proof (induction L)
    case (Cons e L)
    then show ?case by (cases e) (force dest: map_of_SomeD split: if_splits)
  qed simp
  then have "codec_law (listed_codec L) m" using Some by (simp add: codec_law_def listed_codec_def)
  then show ?thesis by (rule codec_law_parses_back)
qed

text \<open>The example's two messages: the request of a player who logs in, and the response, in which nobody is nearby.\<close>

abbreviation ada :: PlayerRecord where
  "ada \<equiv> example_at 7 ''ada'' 150 250"

definition ada_response :: Message where
  "ada_response = LoginResponse \<lparr>lr_success = True, lr_error = '''', lr_self = Some (FillView ada), lr_nearby_players = [], lr_session_token = ''t1''\<rparr>"

definition login_codec :: protobuf where
  "login_codec = listed_codec [(LoginRequest ''ada'' '''', 1), (ada_response, 2)]"

lemma login_codec_laws: "parses_as_type login_codec" "parses_back login_codec m"
  by (simp_all add: login_codec_def listed_codec_typed listed_codec_back)

definition login_frame :: Frame where
  "login_frame = \<lparr>message_id = kLoginRequest, payload = [1]\<rparr>"

lemma login_frames:
  "valid_frame kDefaultMaxPayloadSize login_frame"
  "ParseProtobufPayload login_codec login_frame kLoginRequest kLoginRequest = Some (LoginRequest ''ada'' '''')"
  "EncodeProtobufFrame login_codec kLoginResponse ada_response kDefaultMaxPayloadSize =
     Inr (encode_bytes \<lparr>message_id = kLoginResponse, payload = [2]\<rparr>)"
  "valid_frame kDefaultMaxPayloadSize \<lparr>message_id = kLoginResponse, payload = [2]\<rparr>"
  by (simp_all add: login_frame_def login_codec_def listed_codec_def ada_response_def valid_frame_def IsKnownMessageId_def message_ids
      kDefaultMaxPayloadSize_def ParseProtobufPayload_def INT_MAX_def EncodeProtobufFrame_def EncodeFrame_def
      AppendNetworkUint32_def UINT32_MAX_def encode_bytes_def)

text \<open>A server that has accepted one connection, whose client has sent the request.\<close>

lemma accepted_example:
  obtains g0 g where "GameServer_new example_os default_server_config (\<lambda>_. 0) (\<lambda>_. 0) = Inr g0" "server_idle g"
    "(server_step login_codec)\<^sup>*\<^sup>* g0 g" "data_service g = example_pool" "config g = default_game_config"
    "um_find (callbacks (event_loop (transport g))) 5 = Some WakeupCallback"
    "um_find (callbacks (event_loop (transport g))) 21 = Some (ClientCallback 21)"
    "um_find (connection_descriptors (transport g)) = [1 \<mapsto> 21]"
    "um_find (clients (transport g)) = [21 \<mapsto> \<lparr>client_id = 1, client_connection = example_tcp 21\<rparr>]"
    "os_epoll_ok (transport g) = (\<lambda>_. True)" "os_send (transport g) = (\<lambda>_. [])" "os_taken (transport g) = (\<lambda>_. [])"
    "os_recv (transport g) 21 = [Received (encode_bytes login_frame)]"
    "completion_queue (transport g) = CompletionQueue_new True"
    "online_players g = um_empty" "connection_players g = um_empty" "pending_connections g = um_empty" "pending_accounts g = {}"
    "AoiWorld_new default_aoi_config = Inr (world g)"
proof -
  obtain g0 where g0: "GameServer_new example_os default_server_config (\<lambda>_. 0) (\<lambda>_. 0) = Inr g0"
    "um_find (callbacks (event_loop (transport g0))) = [4 \<mapsto> StopCallback, 6 \<mapsto> AcceptCallback, 5 \<mapsto> WakeupCallback]"
    "um_find (clients (transport g0)) = Map.empty" "open_fds (os_table (transport g0)) = {}" "next_connection_id (transport g0) = 0"
    "server_config (transport g0) = default_server_config" "um_size (clients (transport g0)) = 0"
    "unat (rows (gc_aoi (sc_game default_server_config))) * unat (columns (gc_aoi (sc_game default_server_config))) < 2 ^ 63"
    by (rule example_server) (rule that; assumption)
  have fields: "um_find (connection_descriptors (transport g0)) = Map.empty" "os_taken (transport g0) = (\<lambda>_. [])"
      "completion_queue (transport g0) = CompletionQueue_new True" "config g0 = default_game_config"
      "online_players g0 = um_empty" "connection_players g0 = um_empty" "pending_connections g0 = um_empty" "pending_accounts g0 = {}"
      "AoiWorld_new default_aoi_config = Inr (world g0)"
    using g0(1) by (auto simp: GameServer_new_def GameService_new_def outcome_bind_Inr_iff Let_def case_prod_unfold
        default_server_config_def default_game_config_def split: if_splits)
  let ?g1 = "g0\<lparr>data_service := example_pool\<rparr>"
  let ?g2 = "at_transport (\<lambda>t. t\<lparr>os_accept := [Accepted 21], os_send := (\<lambda>_. []),
     os_recv := (\<lambda>_. [Received (encode_bytes login_frame)]), os_epoll_ok := (\<lambda>_. True)\<rparr>) ?g1"
  have s1: "server_step login_codec g0 ?g1" by (rule server_step.pool)
  have s2: "server_step login_codec ?g1 ?g2" by (rule server_step.kernel)
  have steps: "(server_step login_codec)\<^sup>*\<^sup>* g0 ?g2" using s1 s2 by (meson converse_rtranclp_into_rtranclp r_into_rtranclp)
  have "server_idle g0" by (rule GameServer_new_idle[OF g0(1,8)])
  then have "loop_ok (event_loop (transport g0))" by (simp add: server_idle_def server_inv_def linked_def transport_inv_def)
  then have "um_find (epoll_interest (event_loop (transport g0))) 21 = None" using g0(2) by (auto simp: loop_ok_def)
  moreover have "TcpConnection_new 21 (sc_maximum_pending_bytes default_server_config) = Inr (example_tcp 21)"
    by (simp add: TcpConnection_new_def FrameDecoder_new_def kDefaultMaxPayloadSize_def default_server_config_def example_tcp_def)
  moreover have "tcp_descriptor (example_tcp 21) = 21" by (simp add: example_tcp_def)
  ultimately have acc: "\<exists>l. AcceptReady login_codec ?g2 = Inr (at_transport (\<lambda>t. (accepted_transport 21
      \<lparr>client_id = 1, client_connection = example_tcp 21\<rparr> l t)\<lparr>os_accept := []\<rparr>) ?g2) \<and>
      um_find (callbacks l) = (um_find (callbacks (event_loop (transport g0))))(21 \<mapsto> ClientCallback 21)"
    using g0(2,3,5,6,7) fields(1)
    by (simp add: AcceptReady_def accept_one_def Let_def EventLoop_Add_def accepted_transport_def)
      (simp add: default_server_config_def, intro exI conjI, rule refl, simp)
  then obtain l where l: "AcceptReady login_codec ?g2 = Inr (at_transport (\<lambda>t. (accepted_transport 21
      \<lparr>client_id = 1, client_connection = example_tcp 21\<rparr> l t)\<lparr>os_accept := []\<rparr>) ?g2)" (is "_ = Inr ?g3")
      "um_find (callbacks l) = (um_find (callbacks (event_loop (transport g0))))(21 \<mapsto> ClientCallback 21)" by blast
  have "kernel_accepts login_codec (os_accept (transport ?g2)) ?g2"
    using g0(2,4,5) by (simp add: acceptable_def split: sum.splits)
  then have "server_step login_codec ?g2 ?g3"
    using l(1) g0(2) by (intro server_step.dispatch[of _ 6 AcceptCallback]) simp_all
  then have run: "(server_step login_codec)\<^sup>*\<^sup>* g0 ?g3" using steps by (rule rtranclp.rtrancl_into_rtrancl[rotated])
  then have "server_idle ?g3" using server_sys.reachable_inv[of g0 login_codec ?g3] g0(1,8) by blast
  then show thesis using fields g0(2,3) l(2) run by (intro that[OF g0(1) _ run]) (auto simp: accepted_transport_def)
qed

text \<open>The handler of the request when nobody is logged in or logging in: the login is pending, and a task is queued.\<close>

lemma login_request_handled:
  assumes "data_service g = example_pool" "connection_players g = um_empty" "pending_connections g = um_empty" "pending_accounts g = {}"
  shows "\<exists>p pa. HandleFrame tr login_codec 1 login_frame g =
    Inr (g\<lparr>pending_connections := um_put 1 ''ada'' um_empty, pending_accounts := pa, data_service := p\<rparr>)"
proof -
  have "\<exists>p pa. HandleLogin tr login_codec 1 login_frame g =
      g\<lparr>pending_connections := um_put 1 ''ada'' um_empty, pending_accounts := pa, data_service := p\<rparr>"
    using assms by (auto simp: HandleLogin_def login_frames(2) LoadPlayer_def TrySubmit_def example_pool_def)
  moreover have "HandleFrame tr login_codec 1 login_frame g = Inr (HandleLogin tr login_codec 1 login_frame g)"
    by (simp add: HandleFrame_def login_frame_def message_ids)
  ultimately show ?thesis by auto
qed

text \<open>The event of that request: the login is pending and nothing has been sent.\<close>

lemma logging_in_example:
  obtains g0 g where "GameServer_new example_os default_server_config (\<lambda>_. 0) (\<lambda>_. 0) = Inr g0" "server_idle g"
    "(server_step login_codec)\<^sup>*\<^sup>* g0 g" "um_find (callbacks (event_loop (transport g))) 5 = Some WakeupCallback"
    "um_find (connection_descriptors (transport g)) = [1 \<mapsto> 21]" "os_epoll_ok (transport g) = (\<lambda>_. True)"
    "takes_frame (transport g) (encode_bytes \<lparr>message_id = kLoginResponse, payload = [2]\<rparr>) 1"
    "connection_stream (transport g) 1 = []" "completion_queue (transport g) = CompletionQueue_new True"
    "online_players g = um_empty" "um_contains (pending_connections g) 1"
    "AoiWorld_new default_aoi_config = Inr (world g)"
proof -
  obtain g0 g where g: "GameServer_new example_os default_server_config (\<lambda>_. 0) (\<lambda>_. 0) = Inr g0" "server_idle g"
    "(server_step login_codec)\<^sup>*\<^sup>* g0 g" "data_service g = example_pool"
    "um_find (callbacks (event_loop (transport g))) 5 = Some WakeupCallback"
    "um_find (callbacks (event_loop (transport g))) 21 = Some (ClientCallback 21)"
    "um_find (connection_descriptors (transport g)) = [1 \<mapsto> 21]"
    "um_find (clients (transport g)) = [21 \<mapsto> \<lparr>client_id = 1, client_connection = example_tcp 21\<rparr>]"
    and os: "os_epoll_ok (transport g) = (\<lambda>_. True)" "os_send (transport g) = (\<lambda>_. [])" "os_taken (transport g) = (\<lambda>_. [])"
    "os_recv (transport g) 21 = [Received (encode_bytes login_frame)]"
    "completion_queue (transport g) = CompletionQueue_new True"
    and game: "online_players g = um_empty" "connection_players g = um_empty" "pending_connections g = um_empty" "pending_accounts g = {}"
    "AoiWorld_new default_aoi_config = Inr (world g)"
    by (rule accepted_example) (rule that; assumption)
  let ?cl = "\<lparr>client_id = 1, client_connection = example_tcp 21\<rparr>"
  let ?out = "encode_bytes \<lparr>message_id = kLoginResponse, payload = [2]\<rparr>"
  have tables: "um_find (connection_descriptors (transport g)) 1 = Some 21" "um_find (clients (transport g)) 21 = Some ?cl"
    using g(7,8) by simp_all
  have "script_data (os_recv (transport g) 21) = encode_bytes login_frame" "script_end (os_recv (transport g) 21) = Some False"
    using os(4) by (simp_all add: encode_bytes_def AppendNetworkUint32_def)
  then obtain dec rest where read: "ReadAvailable (os_recv (transport g) 21) (client_connection ?cl) =
      Inr (kOpen, [login_frame], (client_connection ?cl)\<lparr>tcp_decoder := dec\<rparr>, rest)"
    using ReadAvailable_one_frame[of "example_tcp 21" login_frame "os_recv (transport g) 21"] login_frames(1)
    by (auto simp: example_tcp_def decoder_wf_def pending_def kDefaultMaxPayloadSize_def)
  let ?conn = "(client_connection ?cl)\<lparr>tcp_decoder := dec\<rparr>"
  let ?g1 = "at_transport (\<lambda>t. put_client 21 ?cl ?conn (t\<lparr>os_recv := (os_recv t)(21 := rest)\<rparr>)) g"
  obtain k p pa where k: "HandleFrame (server_transport_ops login_codec) login_codec 1 login_frame ?g1 = Inr k"
      "k = ?g1\<lparr>pending_connections := um_put 1 ''ada'' um_empty, pending_accounts := pa, data_service := p\<rparr>"
    using login_request_handled[of ?g1 "server_transport_ops login_codec"] g(4) game by auto
  from ClientReady_one_frame[OF g(2) tables read k(1)] obtain h where h: "ClientReady login_codec 21 EPOLLIN g = Inr h" "server_idle h"
      "marked_for_close (transport k) = {} \<and> (\<forall>n. os_epoll_ok (transport k) n) \<longrightarrow> h = k \<or> (\<exists>cl2. h = at_transport (UpdateInterest cl2) k)"
    by blast
  have "marked_for_close (transport k) = {}" "\<forall>n. os_epoll_ok (transport k) n"
    using g(2) os(1) by (simp_all add: k(2) server_idle_def put_client_def)
  with h(3) have hk: "h = k \<or> (\<exists>cl2. h = at_transport (UpdateInterest cl2) k)" by blast
  have "server_step login_codec g h" using h(1) g(6) by (intro server_step.dispatch[of _ 21 "ClientCallback 21" _ EPOLLIN]) simp_all
  with g(3) have run: "(server_step login_codec)\<^sup>*\<^sup>* g0 h" by simp
  have "takes_frame (transport k) ?out 1" "connection_stream (transport k) 1 = []"
    using tables os(2,3)
    by (simp_all add: k(2) put_client_def takes_frame_def connection_stream_def example_tcp_def unsent_def encode_bytes_def AppendNetworkUint32_def)
  then have "takes_frame (transport h) ?out 1" "connection_stream (transport h) 1 = []"
    using hk by (auto simp: takes_frame_def split: option.splits)
  moreover have "um_find (callbacks (event_loop (transport h))) 5 = Some WakeupCallback"
      "um_find (connection_descriptors (transport h)) = [1 \<mapsto> 21]" "os_epoll_ok (transport h) = (\<lambda>_. True)"
      "completion_queue (transport h) = CompletionQueue_new True" "online_players h = um_empty" "um_contains (pending_connections h) 1"
      "AoiWorld_new default_aoi_config = Inr (world h)"
    using hk g(5,7) os(1,5) game by (auto simp: k(2) put_client_def)
  ultimately show thesis using that[OF g(1) h(2) run] by blast
qed

text \<open>The session has been stored: the player enters the world, and the response goes out.\<close>

lemma login_finishes_example:
  assumes idle: "server_idle g" and conn: "um_find (connection_descriptors (transport g)) = [1 \<mapsto> 21]"
    and ok: "os_epoll_ok (transport g) = (\<lambda>_. True)"
    and room: "takes_frame (transport g) (encode_bytes \<lparr>message_id = kLoginResponse, payload = [2]\<rparr>) 1"
    and off: "online_players g = um_empty" and pc: "um_contains (pending_connections g) 1"
    and aoi: "AoiWorld_new default_aoi_config = Inr (world g)"
  shows "\<exists>h. FinishLogin (server_transport_ops login_codec) 1 ada ''t1'' False g = Inr h \<and>
    um_find (online_players h) = [7 \<mapsto> \<lparr>on_record = ada, on_connection_id = 1, on_session_token = ''t1''\<rparr>] \<and>
    marked_for_close (transport h) = {} \<and>
    connection_stream (transport h) 1 = connection_stream (transport g) 1 @ encode_bytes \<lparr>message_id = kLoginResponse, payload = [2]\<rparr>"
proof -
  let ?tr = "server_transport_ops login_codec"
  have inv: "server_inv g" and mark: "marked_for_close (transport g) = {}" using idle by (auto simp: server_idle_def)
  note t = server_invD(3)[OF inv]
  obtain h where h: "enter_world ?tr 1 ''ada'' ada ''t1'' g = Inr h"
      "um_find (online_players h) = [7 \<mapsto> \<lparr>on_record = ada, on_connection_id = 1, on_session_token = ''t1''\<rparr>]"
    using enter_ok[OF server_invD(1)[OF inv] pc, of ada 21 ?tr "''ada''" "''t1''"] off default_world_examples(1)[OF aoi] by auto
  have fin: "FinishLogin ?tr 1 ada ''t1'' False g = Inr h"
    using h(1) off conn mark pc by (simp add: FinishLogin_def login_is_dead_def server_transport_ops_def server_IsConnected_def)
  have "transport h = snd (server_Send login_codec 1 kLoginResponse ada_response (transport g))"
    using server_invD(1)[OF inv] h(1)
  proof (cases rule: enter_world_outcome)
    case refused
    then show ?thesis
      using AddPlayer_inside[OF default_world_examples(3)[OF aoi], of 7] default_world_examples(1,4)[OF aoi] by force
  next
    case (entered w')
    have "tracked w' q = None" if "q \<noteq> 7" for q using entered(4) default_world_examples(4)[OF aoi] that by simp
    then have "sees w' 7 = {}" by (auto simp: sees_def tracked_def)
    then show ?thesis using entered(5)
      by (simp add: send_to_players_def send_message_def login_success_def ada_response_def entered_state_def map_filter_simps
         server_transport_ops_def)
  qed
  note sent = this
  have m: "marked_for_close (transport h) = {}" using server_Send_takes(1)[OF t _ room login_frames(3) sent] ok mark by simp
  then have "server_IsConnected (transport h) 1" using conn by (simp add: sent server_IsConnected_def)
  then have "connection_stream (transport h) 1 = connection_stream (transport g) 1 @ encode_bytes \<lparr>message_id = kLoginResponse, payload = [2]\<rparr>"
    using server_Send_stream(3)[OF t sent] login_frames(3) by auto
  with fin h(2) m show ?thesis by blast
qed

lemma logged_in_example:
  obtains g0 g where "GameServer_new example_os default_server_config (\<lambda>_. 0) (\<lambda>_. 0) = Inr g0"
    "(server_step login_codec)\<^sup>*\<^sup>* g0 g"
    "um_find (online_players g) 7 = Some \<lparr>on_record = ada, on_connection_id = 1, on_session_token = ''t1''\<rparr>"
    "connection_stream (transport g) 1 = encode_bytes \<lparr>message_id = kLoginResponse, payload = [2]\<rparr>"
proof -
  obtain g0 g where g: "GameServer_new example_os default_server_config (\<lambda>_. 0) (\<lambda>_. 0) = Inr g0" "server_idle g"
    "(server_step login_codec)\<^sup>*\<^sup>* g0 g" "um_find (callbacks (event_loop (transport g))) 5 = Some WakeupCallback"
    "um_find (connection_descriptors (transport g)) = [1 \<mapsto> 21]" "os_epoll_ok (transport g) = (\<lambda>_. True)"
    "takes_frame (transport g) (encode_bytes \<lparr>message_id = kLoginResponse, payload = [2]\<rparr>) 1"
    "connection_stream (transport g) 1 = []" "completion_queue (transport g) = CompletionQueue_new True"
    "online_players g = um_empty" "um_contains (pending_connections g) 1"
    "AoiWorld_new default_aoi_config = Inr (world g)"
    by (rule logging_in_example)
  let ?done = "OperationDone (StoreSessionCallback 1 ''ada'' ada ''t1'' False) OperationResult_Success"
  let ?q = "\<lparr>completions = [?done], has_notifier = True\<rparr>"
  let ?g1 = "at_transport (\<lambda>t. t\<lparr>completion_queue := ?q, wakeup_counter := Notify [] (wakeup_counter t)\<rparr>) g"
  let ?g2 = "at_transport (\<lambda>t. t\<lparr>wakeup_counter := Consume [] (wakeup_counter t)\<rparr>) ?g1"
  have "Push (Some ?done) (completion_queue (transport g)) = (True, ?q)" by (simp add: g(9) Push_def CompletionQueue_new_def)
  from server_step.worker[OF this, of login_codec "[]"] have s1: "server_step login_codec g ?g1" by simp
  have "server_inv g" using g(2) by (simp add: server_idle_def)
  then have "server_inv ?g2" using server_invD(3) by (intro server_inv_transport) simp_all
  then have idle: "server_idle ?g2" using g(2) by (simp add: server_idle_def)
  have out: "takes_frame (transport ?g2) (encode_bytes \<lparr>message_id = kLoginResponse, payload = [2]\<rparr>) 1"
      "connection_stream (transport ?g2) 1 = []"
    using g(7,8) by (auto simp: takes_frame_def connection_stream_def split: option.splits)
  obtain h where h: "FinishLogin (server_transport_ops login_codec) 1 ada ''t1'' False ?g2 = Inr h"
    "um_find (online_players h) = [7 \<mapsto> \<lparr>on_record = ada, on_connection_id = 1, on_session_token = ''t1''\<rparr>]"
    "marked_for_close (transport h) = {}"
    "connection_stream (transport h) 1 = encode_bytes \<lparr>message_id = kLoginResponse, payload = [2]\<rparr>"
    using login_finishes_example[OF idle _ _ out(1), unfolded out(2) append_Nil] g(5,6,10-12) by auto
  let ?h = "at_transport (\<lambda>t. t\<lparr>completion_queue := ?q\<lparr>completions := []\<rparr>\<rparr>) h"
  have "Drain (2 ^ 64 - 1) 0 (run_completion (server_transport_ops login_codec)) ?q ?g2 = Inr (1, ?q\<lparr>completions := []\<rparr>, h)"
    using h(1)
    by (simp add: Drain.simps[of _ 0] Drain.simps[of _ "Suc 0"] Drain_pop_def on_session_stored_def OperationResult_Ok_def OperationResult_Success_def)
  then have "WakeupReady login_codec [] ?g1 = CloseMarkedConnections login_codec ?h"
    by (simp add: WakeupReady_def)
  then have "WakeupReady login_codec [] ?g1 = Inr ?h"
    using h(3) by (subst (asm) CloseMarkedConnections.simps) simp
  then have s2: "server_step login_codec ?g1 ?h"
    using g(4) by (intro server_step.dispatch[of _ 5 WakeupCallback]) simp_all
  have "(server_step login_codec)\<^sup>*\<^sup>* g0 ?h" using g(3) s1 s2 by simp
  moreover have "connection_stream (transport ?h) 1 = connection_stream (transport h) 1" by (rule connection_stream_cong) simp_all
  ultimately show thesis using h(2,4) by (intro that[OF g(1), of ?h]) simp_all
qed

theorem clients_mirror_the_world_witness:
  "\<exists>g0 g ms b'. GameServer_new example_os default_server_config (\<lambda>_. 0) (\<lambda>_. 0) = Inr g0 \<and> (server_step login_codec)\<^sup>*\<^sup>* g0 g \<and>
     encodes login_codec ms (connection_stream (transport g) 1) \<and> length ms = 1 \<and>
     receive_calls [(0, [(0, \<lambda>_. PollReady (Received [0, 0, 0, 1, 0, 0, 0, 101, 2]))], 5)] example_reader =
       Inr ([\<lparr>message_id = kLoginResponse, payload = [2]\<rparr>], [0, 0, 0, 1, 0, 0, 0, 101, 2], b') \<and>
     client_mirror login_codec [\<lparr>message_id = kLoginResponse, payload = [2]\<rparr>] = client_view g 7"
proof -
  obtain g0 g where g: "GameServer_new example_os default_server_config (\<lambda>_. 0) (\<lambda>_. 0) = Inr g0"
    "(server_step login_codec)\<^sup>*\<^sup>* g0 g"
    "um_find (online_players g) 7 = Some \<lparr>on_record = ada, on_connection_id = 1, on_session_token = ''t1''\<rparr>"
    "connection_stream (transport g) 1 = encode_bytes \<lparr>message_id = kLoginResponse, payload = [2]\<rparr>"
    by (rule logged_in_example)
  let ?f = "\<lparr>message_id = kLoginResponse, payload = [2]\<rparr>" and ?bytes = "[0, 0, 0, 1, 0, 0, 0, 101, 2] :: byte list"
  let ?calls = "[(0, [(0, \<lambda>_. PollReady (Received ?bytes))], 5)]"
  have bytes: "encode_bytes ?f = ?bytes" by (simp add: encode_bytes_def AppendNetworkUint32_def message_ids)
  have small: "unat (rows (gc_aoi (sc_game default_server_config))) * unat (columns (gc_aoi (sc_game default_server_config))) < 2 ^ 63"
    by (rule example_server)
  obtain b' where calls: "receive_calls ?calls example_reader = Inr ([?f], ?bytes, b')"
    by (simp add: example_reader_def client_Receive_def Connected_def UniqueFd_valid_def int64_def ns_per_ms_def
      whole_ms_def try_decode_def FrameDecoder_Next_def FrameDecoder_BufferedBytes_def kFrameHeaderSize_def
      ReadNetworkUint32_def IsKnownMessageId_def message_ids FrameDecoder_Compact_def FrameDecoder_Append_ptr_def
      empty_frame_def Let_def kDefaultMaxPayloadSize_def)
  from clients_mirror_the_world[OF g(1) small login_codec_laws(1) g(2,3)] obtain ms
    where ms: "encodes login_codec ms (connection_stream (transport g) 1)"
      "(\<forall>msg \<in> set ms. parses_back login_codec (snd msg)) \<longrightarrow>
     (\<forall>b calls frames bytes b' unread. fresh_client b \<and> receive_calls calls b = Inr (frames, bytes, b') \<and>
        connection_stream (transport g) 1 = bytes @ unread \<longrightarrow>
        length frames \<le> length ms \<and> client_mirror login_codec frames = learn (take (length frames) ms) Map.empty \<and>
        (length frames = length ms \<longrightarrow> client_mirror login_codec frames = client_view g 7))" by auto
  obtain fs where fs: "list_all2 (frame_of login_codec) ms fs" "encode_bytes ?f = concat (map encode_bytes fs)"
    using ms(1) g(4) by (auto simp: encodes_def)
  have "list_all (valid_frame kDefaultMaxPayloadSize) fs"
    using fs(1) by (auto simp: list_all_iff frame_of_def list_all2_conv_all_nth in_set_conv_nth)
  then have "fs = [?f]"
    using parse_stream_concat_encode[of kDefaultMaxPayloadSize fs] parse_stream_concat_encode[of kDefaultMaxPayloadSize "[?f]"]
      fs(2) login_frames(4) by simp
  then have len: "length ms = 1" using list_all2_lengthD[OF fs(1)] by simp
  have "client_mirror login_codec [?f] = client_view g 7"
    using ms(2)[rule_format, of example_reader ?calls "[?f]" ?bytes b' "[]"] login_codec_laws(2) example_reader_fresh calls g(4) bytes len
    by (metis One_nat_def append_Nil2 list.size(3,4) plus_1_eq_Suc add.commute)
  with g(1,2) ms(1) len calls show ?thesis by blast
qed

end
