(* ===== verification/Server_Progress.thy ===== *)
theory Server_Progress
  imports Client_Views
begin

text \<open>
  What can end a running server. Every callback of the event loop runs to its end from every consistent state, except where
  \<open>accept4\<close> reports an error and where a position that a client or the database supplied cannot be located. The
  configuration and the grid of the world never change, so with the default configuration the second happens only for a coordinate
  that is not a number.
\<close>

section \<open>A consistent server with a fixed configuration\<close>

definition steady :: "ServerConfig \<Rightarrow> (Position \<Rightarrow> u64 option outcome) \<Rightarrow> GameServer \<Rightarrow> bool" where
  "steady cfg loc g \<longleftrightarrow> server_inv g \<and> server_config (transport g) = cfg \<and> GridIndexFor (world g) = loc"

lemma steadyD:
  assumes "steady cfg loc g"
  shows "server_inv g" "game_inv g" "transport_inv {} (transport g)" "server_config (transport g) = cfg" "GridIndexFor (world g) = loc"
  using assms server_invD by (auto simp: steady_def)

lemma steady_transport:
  assumes "steady cfg loc g" "transport_inv {} t" "open_connections t = open_connections (transport g)" "server_config t = cfg"
  shows "steady cfg loc (g\<lparr>transport := t\<rparr>)"
  using assms server_inv_transport by (simp add: steady_def)

text \<open>An operation leaves the server steady, or ends in the fault of locating one of the positions \<open>P\<close>.\<close>

definition proceeds :: "ServerConfig \<Rightarrow> (Position \<Rightarrow> u64 option outcome) \<Rightarrow> Position set \<Rightarrow> GameServer outcome \<Rightarrow> bool" where
  "proceeds cfg loc P r \<longleftrightarrow> (case r of Inr h \<Rightarrow> steady cfg loc h | Inl e \<Rightarrow> \<exists>pos \<in> P. loc pos = Inl e)"

lemma proceeds_Inr [simp]: "proceeds cfg loc P (Inr h) = steady cfg loc h"
  by (simp add: proceeds_def)

lemma proceeds_bind:
  "proceeds cfg loc P m \<Longrightarrow> (\<And>h. m = Inr h \<Longrightarrow> steady cfg loc h \<Longrightarrow> proceeds cfg loc P (f h)) \<Longrightarrow>
     proceeds cfg loc P (outcome_bind m f)"
  by (cases m) (auto simp: proceeds_def)

lemma proceeds_mono: "proceeds cfg loc P r \<Longrightarrow> P \<subseteq> Q \<Longrightarrow> proceeds cfg loc Q r"
  by (auto simp: proceeds_def split: sum.splits)

lemma flush_client_config [simp]:
  "flush_client d cl t = (st, cl', t') \<Longrightarrow> server_config t' = server_config t"
  by (auto simp: flush_client_def put_client_def Let_def split: prod.splits)

lemma transport_config [simp]:
  "server_config (UpdateInterest cl t) = server_config t" "server_config (mark_for_close c t) = server_config t"
  "server_config (put_client d cl conn t) = server_config t"
  by (auto simp: UpdateInterest_def mark_for_close_def put_client_def Let_def split: prod.splits)

lemma server_Send_config [simp]: "server_config (snd (server_Send pb c ty m t)) = server_config t"
  by (auto simp: server_Send_def Let_def split: option.splits sum.splits prod.splits)

lemma CloseConnection_config:
  assumes "CloseConnection pb c g = Inr h"
  shows "server_config (transport h) = server_config (transport g)"
proof (cases "um_find (connection_descriptors (transport g)) c")
  case None
  then show ?thesis using assms by (auto simp: CloseConnection_def)
next
  case (Some d)
  let ?g1 = "g\<lparr>transport := (transport g)\<lparr>event_loop := EventLoop_Remove d (event_loop (transport g))\<rparr>\<rparr>"
  obtain h1 where h1: "OnDisconnected (server_Send pb) c ?g1 = Inr h1" "h = h1\<lparr>transport := forget_connection c d (transport h1)\<rparr>"
    using assms Some by (auto simp: CloseConnection_def outcome_bind_Inr_iff)
  have "server_config (transport h1) = server_config (transport ?g1)"
    by (rule OnDisconnected_transport[of "\<lambda>t u. server_config u = server_config t" "server_Send pb", OF _ _ _ h1(1)]) simp_all
  then show ?thesis by (simp add: h1(2) forget_connection_def erase_client_def Let_def)
qed

text \<open>The contract of the transport with the configuration as part of its invariant.\<close>

abbreviation configured :: "ServerConfig \<Rightarrow> server_transport \<Rightarrow> bool" where
  "configured cfg t \<equiv> transport_inv {} t \<and> server_config t = cfg"

interpretation server_conf: linked_transport "server_transport_ops pb" "configured cfg" open_connections for pb cfg
proof
  fix t c ty m
  assume "configured cfg t"
  then show "configured cfg (snd (Send (server_transport_ops pb) c ty m t))"
    "open_connections (snd (Send (server_transport_ops pb) c ty m t)) = open_connections t"
    "IsConnected (server_transport_ops pb) t c \<Longrightarrow> c \<in> open_connections t"
    by (auto simp: server_transport_ops_def server_Send_inv server_IsConnected_def)
next
  fix g h c
  assume "game_inv g" "linked (configured cfg) open_connections g" "Disconnect (server_transport_ops pb) c g = Inr h"
  then show "linked (configured cfg) open_connections h"
    using CloseConnection_linked[of g "{}" c pb h] CloseConnection_config[of pb c g h]
    by (auto simp: server_transport_ops_def linked_def)
qed

lemma steady_linked: "steady cfg loc g \<longleftrightarrow> game_inv g \<and> linked (configured cfg) open_connections g \<and> GridIndexFor (world g) = loc"
  by (auto simp: steady_def server_inv_def linked_def)

section \<open>The operations of the server\<close>

lemma proceeds_keeps:
  assumes "keeps P g r" "GridIndexFor (world g) = loc" "\<And>h. r = Inr h \<Longrightarrow> linked (configured cfg) open_connections h"
  shows "proceeds cfg loc P r"
  using assms by (cases r) (auto simp: keeps_def proceeds_def steady_linked)

lemma HandleFrame_proceeds:
  assumes "steady cfg loc g" "server_IsConnected (transport g) c"
  shows "proceeds cfg loc (requested_position pb f) (HandleFrame (server_transport_ops pb) pb c f g)"
proof (rule proceeds_keeps)
  note g = assms(1)[unfolded steady_linked]
  show "keeps (requested_position pb f) g (HandleFrame (server_transport_ops pb) pb c f g)" "GridIndexFor (world g) = loc"
    using server.HandleFrame_keeps g by blast+
  have "IsConnected (server_transport_ops pb) (transport g) c" using assms(2) by (simp add: server_transport_ops_def)
  with g show "linked (configured cfg) open_connections h" if "HandleFrame (server_transport_ops pb) pb c f g = Inr h" for h
    using server_conf.linked_HandleFrame[OF _ _ _ that] by blast
qed

lemma handle_frames_proceeds:
  "steady cfg loc g \<Longrightarrow> proceeds cfg loc (\<Union>f \<in> set fs. requested_position pb f) (handle_frames pb c fs g)"
proof (induction fs arbitrary: g)
  case (Cons f fs)
  let ?P = "\<Union>f \<in> set (f # fs). requested_position pb f"
  have "proceeds cfg loc ?P (HandleFrame (server_transport_ops pb) pb c f g)" if "server_IsConnected (transport g) c"
    using proceeds_mono[OF HandleFrame_proceeds[OF Cons.prems that, of pb f]] by auto
  moreover have "proceeds cfg loc ?P (handle_frames pb c fs h)" if "steady cfg loc h" for h
    by (rule proceeds_mono[OF Cons.IH[OF that]]) auto
  ultimately show ?case using Cons.prems by (auto intro!: proceeds_bind)
qed simp

lemma run_completion_proceeds:
  assumes "steady cfg loc g"
  shows "proceeds cfg loc (event_positions pb (Completed fin)) (run_completion (server_transport_ops pb) fin g)"
proof (rule proceeds_keeps)
  note g = assms[unfolded steady_linked]
  show "keeps (event_positions pb (Completed fin)) g (run_completion (server_transport_ops pb) fin g)" "GridIndexFor (world g) = loc"
    using server.game_exec_keeps[of g pb "Completed fin" pb] g by simp_all
  show "linked (configured cfg) open_connections h" if "run_completion (server_transport_ops pb) fin g = Inr h" for h
    using server_conf.linked_run_completion[OF _ _ that] g by blast
qed

lemma CloseConnection_proceeds:
  assumes "steady cfg loc g"
  shows "\<exists>h. CloseConnection pb c g = Inr h \<and> steady cfg loc h"
proof -
  obtain h where h: "CloseConnection pb c g = Inr h" "GridIndexFor (world h) = GridIndexFor (world g)"
    using server.Disconnect_keeps[OF steadyD(2)[OF assms], of pb c] by (auto simp: server_transport_ops_def)
  moreover have "server_inv h" using CloseConnection_inv[OF steadyD(1)[OF assms], of pb c] h(1) by simp
  ultimately show ?thesis using assms CloseConnection_config[OF h(1)] by (simp add: steady_def)
qed

lemma CloseMarked_fixed:
  "CloseMarkedConnections pb g = Inr h \<Longrightarrow> game_inv g \<Longrightarrow>
     server_config (transport h) = server_config (transport g) \<and> GridIndexFor (world h) = GridIndexFor (world g)"
proof (induction pb g rule: CloseMarkedConnections.induct)
  case (1 pb g)
  show ?case
  proof (cases "marked_for_close (transport g) = {}")
    case True
    then show ?thesis using "1.prems"(1) by (subst (asm) CloseMarkedConnections.simps) simp
  next
    case False
    then obtain g1 where g1: "CloseConnection pb (Min (marked_for_close (transport g))) g = Inr g1" "CloseMarkedConnections pb g1 = Inr h"
      using "1.prems"(1) by (subst (asm) CloseMarkedConnections.simps) (auto simp: outcome_bind_Inr_iff)
    then have "game_inv g1 \<and> GridIndexFor (world g1) = GridIndexFor (world g)"
      using server.Disconnect_keeps[OF "1.prems"(2), of pb "Min (marked_for_close (transport g))"] by (auto simp: server_transport_ops_def)
    with "1.IH"[OF False g1] CloseConnection_config[OF g1(1)] show ?thesis by simp
  qed
qed

lemma CloseMarked_proceeds:
  assumes "steady cfg loc g"
  shows "\<exists>h. CloseMarkedConnections pb g = Inr h \<and> steady cfg loc h"
  using CloseMarked_inv[OF steadyD(1)[OF assms], of pb] CloseMarked_fixed[of pb g] assms by (auto simp: steady_def server_inv_def)

lemma finish_ready_proceeds:
  assumes "steady cfg loc g" "server_IsConnected (transport g) c"
  shows "\<exists>h. finish_ready pb d c events close g = Inr h \<and> steady cfg loc h"
proof -
  obtain h where h: "finish_ready pb d c events close g = Inr h" "server_inv h"
    using finish_ready_inv[OF steadyD(1)[OF assms(1)] assms(2)] by blast
  have "\<exists>t. finish_ready pb d c events close g = CloseMarkedConnections pb (g\<lparr>transport := t\<rparr>) \<and> server_config t = server_config (transport g)"
    by (cases "um_find (clients (transport g)) d"; cases "flush_client d (the (um_find (clients (transport g)) d)) (transport g)")
      (auto simp: finish_ready_def Let_def intro: exI[of _ "transport g"] exI[of _ "mark_for_close c (transport g)"])
  then obtain t where "CloseMarkedConnections pb (g\<lparr>transport := t\<rparr>) = Inr h" "server_config t = server_config (transport g)"
    using h(1) by auto
  with CloseMarked_fixed[OF this(1)] assms(1) h show ?thesis by (auto simp: steady_def server_inv_def)
qed

text \<open>The frames that the event of a readable socket cuts out of its input.\<close>

definition frames_read :: "int \<Rightarrow> GameServer \<Rightarrow> Frame list" where
  "frames_read d g =
     (case um_find (clients (transport g)) d of
        None \<Rightarrow> []
      | Some cl \<Rightarrow>
          (case ReadAvailable (os_recv (transport g) d) (client_connection cl) of Inl _ \<Rightarrow> [] | Inr (_, fs, _) \<Rightarrow> fs))"

lemma receive_loop_total: "\<exists>r. receive_loop rs d = Inr r"
  by (induction rs d rule: receive_loop.induct) (auto simp: FrameDecoder_Append_ptr_def)

lemma ReadAvailable_total: "\<exists>r. ReadAvailable rs c = Inr r"
  using receive_loop_total[of rs "tcp_decoder c"]
  by (auto simp: ReadAvailable_def split: option.splits prod.splits)

lemma outcome_bind_assoc: "outcome_bind (outcome_bind m f) k = outcome_bind m (\<lambda>x. outcome_bind (f x) k)"
  by (cases m) simp_all

lemma ClientReady_proceeds:
  assumes g: "steady cfg loc g"
  shows "proceeds cfg loc (\<Union>f \<in> set (frames_read d g). requested_position pb f) (ClientReady pb d events g)"
proof (cases "um_find (clients (transport g)) d")
  case None
  then show ?thesis using g by (simp add: ClientReady_def)
next
  case (Some cl)
  let ?P = "\<Union>f \<in> set (frames_read d g). requested_position pb f" and ?c = "client_id cl"
  let ?close = "events AND (EPOLLERR OR EPOLLHUP) \<noteq> 0"
  let ?rest = "\<lambda>close h. if \<not> server_IsConnected (transport h) ?c then CloseMarkedConnections pb h else finish_ready pb d ?c events close h"
  have rest: "proceeds cfg loc ?P (?rest close h)" if "steady cfg loc h" for close h
    using CloseMarked_proceeds[OF that, of pb] finish_ready_proceeds[OF that, of ?c pb d events close] by auto
  obtain st fs conn rs where r: "ReadAvailable (os_recv (transport g) d) (client_connection cl) = Inr (st, fs, conn, rs)"
    using ReadAvailable_total by (metis prod_cases4)
  let ?t = "put_client d cl conn ((transport g)\<lparr>os_recv := (os_recv (transport g))(d := rs)\<rparr>)"
  let ?bad = "st = kProtocolError \<or> st = kIoError"
  have "client_ok (transport g) d cl" using steadyD(3)[OF g] Some by (simp add: transport_inv_def)
  then have "transport_inv {} ?t"
    using steadyD(3)[OF g] Some ReadAvailable_fields[OF r] by (intro transport_inv_put[of _ _ d cl]) (auto simp: client_ok_def)
  then have g1: "steady cfg loc (g\<lparr>transport := ?t\<rparr>)" using steadyD(4)[OF g] by (intro steady_transport[OF g]) simp_all
  have fs: "frames_read d g = fs" using Some r by (simp add: frames_read_def)
  have "proceeds cfg loc ?P (handle_frames pb ?c (if ?bad then [] else fs) (g\<lparr>transport := ?t\<rparr>))"
    using proceeds_mono[OF handle_frames_proceeds[OF g1]] fs by auto
  then have "proceeds cfg loc ?P (outcome_bind (handle_frames pb ?c (if ?bad then [] else fs) (g\<lparr>transport := ?t\<rparr>)) (?rest close))" for close
    by (rule proceeds_bind) (rule rest)
  moreover define close where "close \<longleftrightarrow> ?close \<or> ?bad \<or> st = kPeerClosed"
  have "read_client pb d cl ?close g =
      outcome_bind (handle_frames pb ?c (if ?bad then [] else fs) (g\<lparr>transport := ?t\<rparr>)) (\<lambda>g. Inr (close, g))"
    by (simp add: read_client_def r Let_def close_def)
  then have "ClientReady pb d events g = (if events AND EPOLLIN \<noteq> 0
      then outcome_bind (handle_frames pb ?c (if ?bad then [] else fs) (g\<lparr>transport := ?t\<rparr>)) (?rest close) else ?rest ?close g)"
    using Some by (simp add: ClientReady_def Let_def outcome_bind_assoc)
  ultimately show ?thesis using rest[OF g] by simp
qed

text \<open>The callback of the database eventfd: the positions are those of the records whose sessions have been stored.\<close>

lemma Drain_proceeds:
  assumes "steady cfg loc g"
  shows "proceeds cfg loc (\<Union>fin \<in> set (completions q). event_positions pb (Completed fin))
    (outcome_bind (Drain n k (run_completion (server_transport_ops pb)) q g) (\<lambda>(_, q', h). Inr h))"
  using assms
proof (induction n k "run_completion (server_transport_ops pb)" q g rule: Drain.induct)
  case (1 n k q g)
  show ?case
  proof (cases "Drain_pop n k q")
    case None
    then show ?thesis using "1.prems" by (subst Drain.simps) simp
  next
    case (Some r)
    obtain fin q2 where r: "r = (fin, q2)" by (cases r)
    then have q: "completions q = fin # completions q2" using Some by (auto simp: Drain_pop_def split: if_splits list.splits)
    let ?P = "\<Union>fin \<in> set (completions q). event_positions pb (Completed fin)"
    have "proceeds cfg loc ?P (run_completion (server_transport_ops pb) fin g)"
      using proceeds_mono[OF run_completion_proceeds[OF "1.prems", of pb fin]] q by auto
    moreover have "proceeds cfg loc ?P (outcome_bind (Drain n (Suc k) (run_completion (server_transport_ops pb)) q2 h) (\<lambda>(_, q', h). Inr h))"
      if "run_completion (server_transport_ops pb) fin g = Inr h" "steady cfg loc h" for h
      using proceeds_mono[OF "1.hyps"[OF Some r[symmetric] that]] q by auto
    ultimately have "proceeds cfg loc ?P (outcome_bind (run_completion (server_transport_ops pb) fin g)
        (\<lambda>h. outcome_bind (Drain n (Suc k) (run_completion (server_transport_ops pb)) q2 h) (\<lambda>(_, q', h). Inr h)))"
      by (rule proceeds_bind)
    then show ?thesis using Some r by (subst Drain.simps) (simp add: outcome_bind_assoc)
  qed
qed

lemma WakeupReady_proceeds:
  assumes g: "steady cfg loc g"
  shows "proceeds cfg loc (\<Union>fin \<in> set (completions (completion_queue (transport g))). event_positions pb (Completed fin)) (WakeupReady pb is g)"
proof -
  let ?g = "at_transport (\<lambda>t. t\<lparr>wakeup_counter := Consume is (wakeup_counter t)\<rparr>) g"
  have "steady cfg loc ?g" using steadyD(3,4)[OF g] by (intro steady_transport[OF g]) simp_all
  note drain = Drain_proceeds[OF this, where q = "completion_queue (transport g)" and pb = pb and n = "2 ^ 64 - 1" and k = 0]
  have close: "\<exists>k. CloseMarkedConnections pb (at_transport (\<lambda>t. t\<lparr>completion_queue := q\<rparr>) h) = Inr k \<and> steady cfg loc k"
    if h: "steady cfg loc h" for h q
    using steadyD(3,4)[OF h] by (intro CloseMarked_proceeds steady_transport[OF h]) simp_all
  show ?thesis
  proof (cases "Drain (2 ^ 64 - 1) 0 (run_completion (server_transport_ops pb)) (completion_queue (transport g)) ?g")
    case (Inl e)
    then show ?thesis using drain by (simp add: WakeupReady_def proceeds_def)
  next
    case (Inr r)
    obtain n q h where r: "r = (n, q, h)" by (cases r)
    then have "steady cfg loc h" using drain Inr by simp
    from close[OF this, of q] Inr r show ?thesis by (auto simp: WakeupReady_def)
  qed
qed

text \<open>Accepting proceeds when \<open>accept4\<close> reports no error.\<close>

lemma accept_one_total:
  assumes "steady cfg loc g" "acceptable d (transport g)" "0 < sc_maximum_pending_bytes cfg"
  shows "\<exists>h. accept_one pb d g = Inr h"
proof -
  have "\<exists>conn. TcpConnection_new d (sc_maximum_pending_bytes (server_config (transport g))) = Inr conn"
    using assms(2,3) steadyD(4)[OF assms(1)]
    by (simp add: TcpConnection_new_def FrameDecoder_new_def kDefaultMaxPayloadSize_def acceptable_def)
  moreover have "\<exists>h. CloseConnection pb c (g\<lparr>transport := t\<rparr>) = Inr h" for c t
    using server.Disconnect_keeps[of "g\<lparr>transport := t\<rparr>" pb c] steadyD(2)[OF assms(1)] by (auto simp: server_transport_ops_def)
  ultimately show ?thesis by (auto simp: accept_one_def Let_def split: prod.splits)
qed

lemma accept_one_steady:
  assumes g: "steady cfg loc g" and d: "acceptable d (transport g)" and h: "accept_one pb d g = Inr h"
  shows "steady cfg loc h"
proof -
  have "server_config (transport h) = cfg \<and> GridIndexFor (world h) = loc"
    using steadyD(3)[OF g] d h
  proof (cases rule: accept_one_cases)
    case full
    then show ?thesis using steadyD(4,5)[OF g] by simp
  next
    case (connected conn k added l)
    let ?g = "g\<lparr>transport := accepted_transport d k l (transport g)\<rparr>"
    have t: "server_config (transport ?g) = cfg" using steadyD(4)[OF g] by (simp add: accepted_transport_def)
    show ?thesis
    proof (cases added)
      case True
      then show ?thesis using connected(4) t steadyD(5)[OF g] by auto
    next
      case False
      then have c: "CloseConnection pb (client_id k) ?g = Inr h" using connected(4) by simp
      have "GridIndexFor (world h) = GridIndexFor (world ?g)"
        using server.Disconnect_keeps[of ?g pb "client_id k"] steadyD(2)[OF g] c by (auto simp: server_transport_ops_def)
      then show ?thesis using CloseConnection_config[OF c] t steadyD(5)[OF g] by simp
    qed
  qed
  then show ?thesis using accept_one_inv[OF steadyD(1)[OF g] d h] by (simp add: steady_def)
qed

lemma accept_loop_steady:
  "steady cfg loc g \<Longrightarrow> kernel_accepts pb rs g \<Longrightarrow> accept_loop pb rs g = Inr h \<Longrightarrow> steady cfg loc h"
proof (induction pb rs g rule: accept_loop.induct)
  case (5 pb d rs g)
  then show ?case using accept_one_steady[of cfg loc g d pb] by (auto simp: outcome_bind_Inr_iff)
qed (auto intro!: steady_transport dest: steadyD(3,4))

lemma accept_loop_total:
  "steady cfg loc g \<Longrightarrow> kernel_accepts pb rs g \<Longrightarrow> AcceptFailed \<notin> set rs \<Longrightarrow> 0 < sc_maximum_pending_bytes cfg \<Longrightarrow>
     \<exists>h. accept_loop pb rs g = Inr h"
proof (induction pb rs g rule: accept_loop.induct)
  case (5 pb d rs g)
  then obtain h1 where "accept_one pb d g = Inr h1" "steady cfg loc h1"
    using accept_one_total[of cfg loc g d pb] accept_one_steady[of cfg loc g d pb] by auto
  with 5 show ?case by auto
qed auto

section \<open>The callbacks\<close>

text \<open>The positions that the event of a callback brings in from outside.\<close>

fun callback_positions :: "protobuf \<Rightarrow> server_callback \<Rightarrow> GameServer \<Rightarrow> Position set" where
  "callback_positions pb (ClientCallback d) g = (\<Union>f \<in> set (frames_read d g). requested_position pb f)"
| "callback_positions pb WakeupCallback g =
     (\<Union>fin \<in> set (completions (completion_queue (transport g))). event_positions pb (Completed fin))"
| "callback_positions pb _ g = {}"

lemma invoke_callback_proceeds:
  assumes "steady cfg loc g"
    and "cb = AcceptCallback \<longrightarrow> kernel_accepts pb (os_accept (transport g)) g \<and> invoke_callback pb cb events g = Inr h"
  shows "proceeds cfg loc (callback_positions pb cb g) (invoke_callback pb cb events g)"
proof (cases cb)
  case StopCallback
  then show ?thesis
    using steadyD(3,4)[OF assms(1)] steady_transport[OF assms(1), of "(transport g)\<lparr>event_loop := (event_loop (transport g))\<lparr>stop_counter := 0\<rparr>\<rparr>"]
    by simp
next
  case AcceptCallback
  then show ?thesis using accept_loop_steady[OF assms(1)] assms(2) by (auto simp: AcceptReady_def)
next
  case WakeupCallback
  then show ?thesis using WakeupReady_proceeds[OF assms(1)] by simp
next
  case (ClientCallback d)
  then show ?thesis using ClientReady_proceeds[OF assms(1)] by simp
qed

lemma server_step_steady:
  assumes "server_step pb g h" "steady cfg loc g"
  shows "steady cfg loc h"
  using assms
proof (induction rule: server_step.induct)
  case (dispatch g d cb events h)
  then show ?case using invoke_callback_proceeds[OF dispatch(4), of cb pb events h] dispatch(2,3) by (metis proceeds_Inr)
next
  case (pool g p)
  then show ?case by (simp add: steady_def server_inv_def)
next
  case (stop g)
  then show ?case
    using steadyD(4)[OF stop] server_Stop_inv[OF steadyD(3)[OF stop]]
    by (intro steady_transport[OF stop]) (simp_all add: server_Stop_def Let_def)
qed (auto intro!: steady_transport dest: steadyD(3,4))

interpretation server_steady: step_invariant
  "\<lambda>g. (\<exists>so draws clock. GameServer_new so cfg draws clock = Inr g) \<and> GridIndexFor (world g) = loc \<and>
     unat (rows (gc_aoi (sc_game cfg))) * unat (columns (gc_aoi (sc_game cfg))) < 2 ^ 63"
  "server_step pb" "steady cfg loc" for pb cfg loc
proof
  fix g
  assume "(\<exists>so draws clock. GameServer_new so cfg draws clock = Inr g) \<and> GridIndexFor (world g) = loc \<and>
     unat (rows (gc_aoi (sc_game cfg))) * unat (columns (gc_aoi (sc_game cfg))) < 2 ^ 63"
  then obtain so draws clock where new: "GameServer_new so cfg draws clock = Inr g" and loc: "GridIndexFor (world g) = loc"
    and small: "unat (rows (gc_aoi (sc_game cfg))) * unat (columns (gc_aoi (sc_game cfg))) < 2 ^ 63" by blast
  have "server_config (transport g) = cfg"
    using new by (auto simp: GameServer_new_def GameService_new_def outcome_bind_Inr_iff Let_def case_prod_unfold split: if_splits)
  with loc GameServer_new_idle[OF new small] show "steady cfg loc g" by (simp add: steady_def server_idle_def)
qed (rule server_step_steady)

section \<open>Events that come too late\<close>

text \<open>A client whose socket has hung up is closed by the event that says so.\<close>

lemma hangup_closes:
  assumes "server_idle g" "um_find (clients (transport g)) d = Some cl"
  shows "\<exists>h. ClientReady pb d EPOLLHUP g = Inr h \<and> client_id cl \<notin> open_connections (transport h)"
proof -
  let ?c = "client_id cl" and ?g = "at_transport (mark_for_close (client_id cl)) g"
  have inv: "server_inv g" and m: "marked_for_close (transport g) = {}" using assms(1) by (auto simp: server_idle_def)
  have c: "um_find (connection_descriptors (transport g)) ?c = Some d"
    using server_invD(3)[OF inv] assms(2) unfolding transport_inv_def tables_linked_def by simp
  then have conn: "server_IsConnected (transport g) ?c" by (simp add: server_IsConnected_def m)
  have "server_inv ?g"
    using server_inv_transport[OF inv, of "mark_for_close ?c (transport g)"] transport_inv_mark[OF server_invD(3)[OF inv], of ?c] c by auto
  from CloseMarked_idle[OF this, of pb] obtain h where h: "CloseMarkedConnections pb ?g = Inr h" "server_idle h"
    "extends (transport ?g) (transport h)" by blast
  have "\<not> server_IsConnected (transport ?g) ?c" by (simp add: server_IsConnected_def)
  then have "\<not> server_IsConnected (transport h) ?c" using h(3) by (auto simp: extends_def)
  then have "?c \<notin> open_connections (transport h)" using h(2) by (auto simp: server_IsConnected_def server_idle_def)
  moreover have "ClientReady pb d EPOLLHUP g = Inr h"
    using h(1) assms(2) conn by (simp add: ClientReady_def finish_ready_def epoll_bits)
  ultimately show ?thesis by blast
qed

text \<open>
  \<open>PollOnce\<close> finds the callback of an event by its descriptor alone. When an earlier event of the same wait has closed
  the descriptor \<open>d\<close>, and the listener's event accepts a connection to which the kernel gives the number \<open>d\<close>
  again, then the hang-up of the old connection, which is still in the array, closes the new one.
\<close>

lemma stale_event_closes_new_connection:
  assumes g: "server_idle g" and l: "um_find (callbacks (event_loop (transport g))) l = Some AcceptCallback"
    and acc: "os_accept (transport g) = [Accepted d]" "acceptable d (transport g)" "\<forall>n. os_epoll_ok (transport g) n"
    and room: "um_size (clients (transport g)) < sc_maximum_connections (server_config (transport g))"
      "0 < sc_maximum_pending_bytes (server_config (transport g))"
  shows "\<exists>g1 h. AcceptReady pb g = Inr g1 \<and> next_connection_id (transport g) + 1 \<in> open_connections (transport g1) \<and>
    dispatch_events (\<lambda>g. event_loop (transport g)) (invoke_callback pb) [(l, EPOLLIN), (d, EPOLLHUP)] g = Inr h \<and>
    next_connection_id (transport g) + 1 \<notin> open_connections (transport h)"
proof -
  let ?c = "next_connection_id (transport g) + 1" and ?cfg = "server_config (transport g)" and ?loc = "GridIndexFor (world g)"
  have st: "steady ?cfg ?loc g" using g by (simp add: steady_def server_idle_def)
  have k: "kernel_accepts pb (os_accept (transport g)) g" using acc(1,2) by (simp split: sum.splits)
  obtain conn where conn: "TcpConnection_new d (sc_maximum_pending_bytes ?cfg) = Inr conn" "tcp_descriptor conn = d"
    using acc(2) room(2) by (simp add: TcpConnection_new_def FrameDecoder_new_def kDefaultMaxPayloadSize_def acceptable_def)
  have "loop_ok (event_loop (transport g))" using steadyD(3)[OF st] by (simp add: transport_inv_def)
  moreover have "um_find (clients (transport g)) d = None" using steadyD(3)[OF st] acc(2) by (auto simp: transport_inv_def acceptable_def)
  ultimately have "um_find (clients (transport g)) d = None" "um_find (epoll_interest (event_loop (transport g))) d = None"
    using acc(2) by (auto simp: loop_ok_def acceptable_def)
  then have "\<exists>g1. AcceptReady pb g = Inr g1 \<and> um_find (clients (transport g1)) d = Some \<lparr>client_id = ?c, client_connection = conn\<rparr> \<and>
      ?c \<in> open_connections (transport g1) \<and> um_find (callbacks (event_loop (transport g1))) d = Some (ClientCallback d)"
    using acc conn room(1) by (simp add: AcceptReady_def accept_one_def Let_def EventLoop_Add_def acceptable_def)
  then obtain g1 where g1: "AcceptReady pb g = Inr g1" "um_find (clients (transport g1)) d = Some \<lparr>client_id = ?c, client_connection = conn\<rparr>"
      "?c \<in> open_connections (transport g1)" "um_find (callbacks (event_loop (transport g1))) d = Some (ClientCallback d)" by blast
  have "server_idle g1" using invoke_callback_idle[OF g, of AcceptCallback pb EPOLLIN g1] k g1(1) by simp
  from hangup_closes[OF this g1(2), of pb] obtain h where "ClientReady pb d EPOLLHUP g1 = Inr h" "?c \<notin> open_connections (transport h)" by auto
  with g1 l show ?thesis by simp
qed

section \<open>The server runs on\<close>

text \<open>
  C4: With the default game configuration nothing that a client sends, a worker answers or the kernel reports ends the server, apart
  from two things: an error of \<open>accept4\<close>, and a coordinate that is not a number. At every moment of a run, every
  callback of the event loop runs to its end, whatever events it is given, if no \<open>accept4\<close> call fails in it and the positions
  in the frames it reads and in the records it receives are doubles other than NaN.
\<close>

theorem server_runs_on:
  assumes "GameServer_new so cfg draws clock = Inr g0" and "sc_game cfg = default_game_config"
    and "0 < sc_maximum_pending_bytes cfg" and "(server_step pb)\<^sup>*\<^sup>* g0 g"
    and "um_find (callbacks (event_loop (transport g))) d = Some cb"
    and "cb = AcceptCallback \<longrightarrow> kernel_accepts pb (os_accept (transport g)) g \<and> AcceptFailed \<notin> set (os_accept (transport g))"
    and "\<forall>pos \<in> callback_positions pb cb g. is_double (pos_x pos) \<and> is_double (pos_y pos) \<and> pos_x pos \<noteq> DNaN \<and> pos_y pos \<noteq> DNaN"
  shows "\<exists>h. invoke_callback pb cb events g = Inr h \<and> server_step pb g h"
proof -
  let ?loc = "GridIndexFor (world g0)"
  have aoi: "AoiWorld_new default_aoi_config = Inr (world g0)"
    using assms(1,2) by (auto simp: GameServer_new_def GameService_new_def outcome_bind_Inr_iff Let_def case_prod_unfold
        default_game_config_def split: if_splits)
  have "unat (rows (gc_aoi (sc_game cfg))) * unat (columns (gc_aoi (sc_game cfg))) < 2 ^ 63"
    by (simp add: assms(2) default_game_config_def default_aoi_config_def)
  then have g: "steady cfg ?loc g" using server_steady.reachable_inv[OF _ assms(4), of cfg ?loc] assms(1) by blast
  have "\<exists>h. invoke_callback pb cb events g = Inr h"
  proof (cases "cb = AcceptCallback")
    case True
    then show ?thesis using accept_loop_total[OF g] assms(3,6) by (simp add: AcceptReady_def)
  next
    case False
    then have "proceeds cfg ?loc (callback_positions pb cb g) (invoke_callback pb cb events g)"
      using invoke_callback_proceeds[OF g] by blast
    then show ?thesis
      using default_locates[OF aoi] assms(7) by (force simp: proceeds_def split: sum.splits)
  qed
  then show ?thesis using server_step.dispatch[OF assms(5)] assms(6) by blast
qed

theorem server_runs_on_witness:
  "\<exists>g0 g h. GameServer_new example_os default_server_config (\<lambda>_. 0) (\<lambda>_. 0) = Inr g0 \<and> (server_step login_codec)\<^sup>*\<^sup>* g0 g \<and>
     callback_positions login_codec WakeupCallback g = {record_position ada} \<and> invoke_callback login_codec WakeupCallback EPOLLIN g = Inr h"
proof -
  obtain g0 g where g: "GameServer_new example_os default_server_config (\<lambda>_. 0) (\<lambda>_. 0) = Inr g0"
    "(server_step login_codec)\<^sup>*\<^sup>* g0 g" "um_find (callbacks (event_loop (transport g))) 5 = Some WakeupCallback"
    "completion_queue (transport g) = CompletionQueue_new True"
    by (rule logging_in_example)
  let ?done = "OperationDone (StoreSessionCallback 1 ''ada'' ada ''t1'' False) OperationResult_Success"
  let ?q = "\<lparr>completions = [?done], has_notifier = True\<rparr>"
  let ?g1 = "at_transport (\<lambda>t. t\<lparr>completion_queue := ?q, wakeup_counter := Notify [] (wakeup_counter t)\<rparr>) g"
  have "Push (Some ?done) (completion_queue (transport g)) = (True, ?q)" by (simp add: g(4) Push_def CompletionQueue_new_def)
  from server_step.worker[OF this, of login_codec "[]"] have "server_step login_codec g ?g1" by simp
  then have steps: "(server_step login_codec)\<^sup>*\<^sup>* g0 ?g1" using g(2) by simp
  have pos: "callback_positions login_codec WakeupCallback ?g1 = {record_position ada}" by simp
  then have "\<forall>pos \<in> callback_positions login_codec WakeupCallback ?g1. is_double (pos_x pos) \<and> is_double (pos_y pos) \<and>
      pos_x pos \<noteq> DNaN \<and> pos_y pos \<noteq> DNaN"
    using representable_int[of 150] representable_int[of 250] by simp
  moreover have "sc_game default_server_config = default_game_config" "0 < sc_maximum_pending_bytes default_server_config"
    by (simp_all add: default_server_config_def)
  moreover have "um_find (callbacks (event_loop (transport ?g1))) 5 = Some WakeupCallback" using g(3) by simp
  ultimately obtain h where "invoke_callback login_codec WakeupCallback EPOLLIN ?g1 = Inr h"
    using server_runs_on[OF g(1) _ _ steps, of 5 WakeupCallback EPOLLIN] by auto
  with g(1) steps pos show ?thesis by blast
qed

end
