(* ===== verification/Spec2Isabelle.thy ===== *)
theory Spec2Isabelle
  imports Mmo_Prelude Frame_Codec Ieee_Double Aoi_World Data_Store Thread_Pool Completion_Queue
    Async_Data Protobuf_Codec Tcp_Connection Event_Loop Game_Service Game_Server Client_Mirror Game_Properties
    Unique_Fd Posix_Net Login_Properties Server_Properties Redis_Store Mysql_Repository Blocking_Client
    Mmo_Bench Bench_Report Server_Main Client_Main Delivery Client_Views Server_Progress
begin

text \<open>
  \<^bold>\<open>A verified model of the epoll MMO game server.\<close>

  \<^bold>\<open>The program.\<close> One thread runs an epoll loop (\<open>net/event_loop\<close>). It accepts TCP connections, reads bytes
  (\<open>net/tcp_connection\<close>), cuts them into frames (\<open>protocol/frame_codec\<close>), parses protobuf messages out of them
  (\<open>protocol/protobuf_codec\<close>) and hands them to the game service (\<open>game/game_service\<close>), which keeps the players who
  are online, logs them in and out, and tells them about each other with the help of a grid of cells
  (\<open>game/aoi_world\<close>). Database calls block, so they run on a bounded pool of worker threads
  (\<open>concurrency/bounded_thread_pool\<close>, \<open>data/async_data_service\<close>) against MySQL, Redis or in-memory stores; a worker pushes what
  is to be done with the result into a completion queue and wakes the loop with an eventfd
  (\<open>concurrency/completion_queue\<close>, \<open>concurrency/event_fd_wakeup\<close>). \<open>server/game_server\<close> owns all of this. A blocking client
  (\<open>client/blocking_client\<close>), two programs under \<open>apps/\<close> and a benchmark under \<open>tools/\<close> use the same code.

  \<^bold>\<open>Conventions.\<close> Names are those of the sources. A class is a record of its members, a method a function
  from arguments and state to result and state. An operation that can throw, or whose C++ meaning is
  undefined on some input, returns an \<open>outcome\<close>: \<open>Inl (Throw exn)\<close>, \<open>Inl UndefinedBehaviour\<close> or \<open>Inr result\<close>. Integers have the
  width of their C++ types where a value can come near the limit, \<open>double\<close> is IEEE binary64 (\<open>Ieee_Double\<close>: exact
  rationals with rounding to nearest even, infinities and NaN; the sign of zero is not kept), a
  \<open>std::unordered_map\<close> is an association list behind the interface \<open>unordered_map\<close>. The kernel answers system calls from
  \<^emph>\<open>scripts\<close>, lists with one entry per call, which the theorems leave arbitrary; a script that has run out
  means \<open>EAGAIN\<close> for a non-blocking call and a call that does not return for a blocking one. So a script
  bounds a run but nothing else, and a claim that a loop ends is made for all scripts, or says which entry ends it. There is no
  fuel: every recursion has a termination proof. Code outside the repository is a parameter, and what is
  relied on is a named hypothesis: \<open>codec_law\<close> (protobuf), \<open>redis_documented\<close> (\<open>hiredis\<close> and Redis),
  \<open>mysql_setup_documented\<close>, \<open>mysql_run_documented\<close> and \<open>mysql_handles\<close> (the MySQL C client), the random generators as functions
  from a counter to values, and clocks as values that are read.

  \<^bold>\<open>Theories and sources.\<close>
  \<^item> \<open>Mmo_Prelude\<close>: outcomes, exceptions, \<open>std::vector\<close> access, the locale of finite maps with its interpretation, the locale
    \<open>step_invariant\<close> for step relations, number texts. \<open>Ieee_Double\<close>: \<open>double\<close>. \<open>Posix_Net\<close>: byte order, \<open>inet_pton\<close>, \<open>stoul\<close>.
  \<^item> \<open>Frame_Codec\<close>: \<open>protocol/frame_codec.{h,cpp}\<close>. Encoder and incremental decoder; the decoder refines a parser of byte
    sequences, so that fragmentation does not matter, frames come back in order, failure is sticky and the buffer is bounded.
  \<^item> \<open>Protobuf_Codec\<close>: \<open>protocol/protobuf_codec.{h,cpp}\<close> and the messages of \<open>proto/game_messages.proto\<close>.
  \<^item> \<open>Aoi_World\<close>: \<open>game/aoi_world.{h,cpp}\<close>. The cells partition the players by their position; the view is the nine cells around
    one; a move reports exactly the changes of the view.
  \<^item> \<open>Data_Store\<close>: \<open>data/data_result.h\<close>, \<open>player_record.h\<close>, the two store interfaces (as locales) and \<open>memory_stores.cpp\<close>.
    \<open>Redis_Store\<close>: \<open>data/redis_session_store.cpp\<close>, which refines the in-memory session store over a Redis server that behaves
    as documented. \<open>Mysql_Repository\<close>: \<open>data/mysql_player_repository.cpp\<close> with its statements, buffers and handles.
  \<^item> \<open>Thread_Pool\<close>: \<open>concurrency/bounded_thread_pool.{h,cpp}\<close>; its critical sections are interleaved by a step relation with
    condition variables, which refines a bounded FIFO executor, loses no wakeup and drains at shutdown.
    \<open>Completion_Queue\<close>: \<open>completion_queue.cpp\<close>, \<open>event_fd_wakeup.cpp\<close>, with worker and loop interleaved.
    \<open>Async_Data\<close>: \<open>data/async_data_service.cpp\<close>, every accepted request is answered by exactly one completion.
  \<^item> \<open>Unique_Fd\<close>: \<open>net/unique_fd.h\<close> over a table of open descriptors. \<open>Tcp_Connection\<close>: \<open>net/tcp_connection.cpp\<close>.
    \<open>Event_Loop\<close>: \<open>net/event_loop.cpp\<close> with epoll's interest list.
  \<^item> \<open>Game_Service\<close>: every handler and callback of \<open>game/game_service.cpp\<close>, over an arbitrary transport (locale
    \<open>game_transport\<close>). \<open>Client_Mirror\<close>: what a client can compute from the messages of the service, a mirror of names and positions,
    and the messages of each operation. \<open>Game_Properties\<close>: the tables of players stay consistent; login, movement and
    disconnection keep every client's mirror equal to what its player sees. \<open>Login_Properties\<close>: chat, session tokens, who can replace an
    online player, what is saved.
  \<^item> \<open>Game_Server\<close>: \<open>server/game_server.cpp\<close>, which implements that transport. \<open>Server_Properties\<close>: the invariant of sockets,
    registrations, connections and players over all events, and the destructor. \<open>Server_Progress\<close>: every callback of the loop runs to
    its end, with the two exceptions there are; an event that comes too late for its connection.
  \<^item> \<open>Blocking_Client\<close>: \<open>client/blocking_client.cpp\<close>. \<open>Delivery\<close>: client, server and clients together: a chat message on its way.
    \<open>Client_Views\<close>: the mirrors carried through the sockets: at every moment of a run the bytes put out on a player's connection
    are the frames of messages that give exactly the player's view.
  \<^item> \<open>Server_Main\<close>, \<open>Client_Main\<close>: \<open>apps/mmo_server_main.cpp\<close>, \<open>apps/mmo_client_main.cpp\<close>. \<open>Mmo_Bench\<close>, \<open>Bench_Report\<close>:
    \<open>tools/mmo_bench.cpp\<close>.

  \<^bold>\<open>Interfaces.\<close> The locales are \<open>unordered_map\<close> (what the tables of all components rely on), \<open>step_invariant\<close> (runs of a step
  relation), \<open>stream_decoder\<close> and its client \<open>decoder_client\<close> (decoder against parser), \<open>area_of_interest\<close> (the world as the game
  service sees it), \<open>player_repository\<close> and \<open>session_store\<close>, \<open>game_transport\<close> (what the game service needs of the server) and
  its extension \<open>linked_transport\<close> (players only on open connections), \<open>logging_sender\<close> (whose output is a log of messages) and
  \<open>logging_transport\<close>, which joins the last two. Each is interpreted on the definitions of the
  component that provides it.

  \<^bold>\<open>Not modelled.\<close> Failure of memory allocation; the contents of \<open>errno\<close> texts; protobuf, \<open>hiredis\<close>, the MySQL client and
  the servers behind them (parameters); TLS and the TCP stack beyond the answers of the socket calls; the rendering of
  numbers on the consoles of the two programs (the inserted values are kept); calendar arithmetic of the benchmark's time stamp; the
  Windows and macOS branches of the benchmark. Data races inside one critical section cannot be expressed: the
  step relations interleave critical sections and system calls. The tests, the build files and the documentation
  hold no logic of the server.
\<close>

end
